(* ===== verification/Prelude.thy ===== *)
theory Prelude
  imports Complex_Main "HOL-Library.Word" "HOL-Library.AList" "HOL-Library.Monad_Syntax"
begin

text \<open>
  The vocabulary the component theories share: the machine types of the Go program, slices and
  indexing with the panic of an out-of-range access as the value \<open>None\<close>, Go maps as association
  lists, 64-bit signed arithmetic, \<open>time.Time\<close> and \<open>time.Duration\<close> as nanosecond counts, and the
  big- and little-endian readers of \<open>encoding/binary\<close>, with the lemmas their proofs use.

  Conventions.  A Go \<open>[]byte\<close> or \<open>string\<close> that holds text is a \<open>string\<close> (a list of 8-bit
  characters); one that holds a binary packet is a list of \<open>u8\<close>.  A function whose Go body
  indexes or slices at a computed position returns an \<open>option\<close> whose \<open>None\<close> is the runtime panic;
  errors that the Go code returns are values of a sum type inside it.
\<close>

section \<open>Machine types\<close>

type_synonym u8 = "8 word"
type_synonym u16 = "16 word"
type_synonym u32 = "32 word"
type_synonym u64 = "64 word"

section \<open>Collections of facts\<close>

named_theorems slice_simps \<open>facts that evaluate checked indexing and slicing\<close>
named_theorems gomap_simps \<open>lookup after insertion, deletion and filtering of a Go map\<close>

section \<open>Checked indexing and slicing\<close>

text \<open>Go's \<open>xs[i]\<close> and \<open>xs[a:b]\<close>: \<open>None\<close> is the panic.\<close>

definition idx :: "'a list \<Rightarrow> nat \<Rightarrow> 'a option" where
  "idx xs i = (if i < length xs then Some (xs ! i) else None)"

definition subslice :: "'a list \<Rightarrow> nat \<Rightarrow> nat \<Rightarrow> 'a list option" where
  "subslice xs a b = (if a \<le> b \<and> b \<le> length xs then Some (take (b - a) (drop a xs)) else None)"

lemma idx_Some [slice_simps]: "i < length xs \<Longrightarrow> idx xs i = Some (xs ! i)"
  by (simp add: idx_def)

lemma idx_None: "idx xs i = None \<longleftrightarrow> length xs \<le> i"
  by (simp add: idx_def)

lemma subslice_Some [slice_simps]:
  "a \<le> b \<Longrightarrow> b \<le> length xs \<Longrightarrow> subslice xs a b = Some (take (b - a) (drop a xs))"
  by (simp add: subslice_def)

lemma subslice_length: "subslice xs a b = Some ys \<Longrightarrow> length ys = b - a"
  by (auto simp: subslice_def split: if_splits)

lemma subslice_bounds: "subslice xs a b = Some ys \<Longrightarrow> a \<le> b \<and> b \<le> length xs"
  by (auto simp: subslice_def split: if_splits)

lemma subslice_append_left [slice_simps]:
  "a \<le> b \<Longrightarrow> b \<le> length xs \<Longrightarrow> subslice (xs @ ys) a b = subslice xs a b"
  by (simp add: subslice_def)

lemma subslice_append_right [slice_simps]:
  "length xs \<le> a \<Longrightarrow> a \<le> b \<Longrightarrow> subslice (xs @ ys) a b = subslice ys (a - length xs) (b - length xs)"
  by (auto simp: subslice_def)

section \<open>Go maps\<close>

text \<open>
  A Go \<open>map[K]V\<close> is an association list, updated and deleted by key, so that ranging over it
  is a walk of the list.  Go leaves the order of a range unspecified: the order of the list is one
  of the orders, and the properties of the development do not depend on which.
\<close>

type_synonym ('k, 'v) gomap = "('k \<times> 'v) list"

abbreviation mget :: "('k, 'v) gomap \<Rightarrow> 'k \<Rightarrow> 'v option" where
  "mget m k \<equiv> map_of m k"

abbreviation mput :: "'k \<Rightarrow> 'v \<Rightarrow> ('k, 'v) gomap \<Rightarrow> ('k, 'v) gomap" where
  "mput \<equiv> AList.update"

abbreviation mdel :: "'k \<Rightarrow> ('k, 'v) gomap \<Rightarrow> ('k, 'v) gomap" where
  "mdel \<equiv> AList.delete"

abbreviation mkeys :: "('k, 'v) gomap \<Rightarrow> 'k list" where
  "mkeys m \<equiv> List.map fst m"

text \<open>Lookups stay lookups in the component proofs.\<close>

declare map_of_eq_Some_iff [simp del] Some_eq_map_of_iff [simp del]

text \<open>A well-formed Go map holds each key once.\<close>

abbreviation mwf :: "('k, 'v) gomap \<Rightarrow> bool" where
  "mwf m \<equiv> distinct (mkeys m)"

text \<open>\<open>m[k]\<close> on a map whose values have a zero value.\<close>

definition mget_or :: "'v \<Rightarrow> ('k, 'v) gomap \<Rightarrow> 'k \<Rightarrow> 'v" where
  "mget_or z m k = (case mget m k of None \<Rightarrow> z | Some v \<Rightarrow> v)"

text \<open>A loop \<open>for k, v := range m { if p(k, v) { delete(m, k) } }\<close>.\<close>

definition mdrop :: "('k \<Rightarrow> 'v \<Rightarrow> bool) \<Rightarrow> ('k, 'v) gomap \<Rightarrow> ('k, 'v) gomap" where
  "mdrop p m = filter (\<lambda>(k, v). \<not> p k v) m"

lemma mget_mput [simp, gomap_simps]: "mget (mput k v m) k' = (if k' = k then Some v else mget m k')"
  by (simp add: update_conv')

lemma mget_mdel [simp, gomap_simps]: "mget (mdel k m) k' = (if k' = k then None else mget m k')"
  by (simp add: delete_conv')

lemma mget_or_mput [simp, gomap_simps]:
  "mget_or z (mput k v m) k' = (if k' = k then v else mget_or z m k')"
  by (simp add: mget_or_def)

lemma mget_or_mdel [simp, gomap_simps]:
  "mget_or z (mdel k m) k' = (if k' = k then z else mget_or z m k')"
  by (simp add: mget_or_def)

lemma mwf_mput [simp]: "mwf m \<Longrightarrow> mwf (mput k v m)"
  by (rule distinct_update)

lemma mwf_mdel [simp]: "mwf m \<Longrightarrow> mwf (mdel k m)"
  by (rule distinct_delete)

lemma mwf_mdrop [simp]: "mwf m \<Longrightarrow> mwf (mdrop p m)"
  by (induction m) (auto simp: mdrop_def)

lemma mget_None_keys: "mget m k = None \<longleftrightarrow> k \<notin> set (mkeys m)"
  by (simp add: map_of_eq_None_iff image_image)

lemma mget_Some_set: "mwf m \<Longrightarrow> mget m k = Some v \<longleftrightarrow> (k, v) \<in> set m"
  by (rule map_of_eq_Some_iff)

lemma mget_mdrop [gomap_simps]:
  "mwf m \<Longrightarrow> mget (mdrop p m) k =
     (case mget m k of None \<Rightarrow> None | Some v \<Rightarrow> if p k v then None else Some v)"
proof (induction m)
  case (Cons kv m)
  obtain k' v' where kv: "kv = (k', v')" by force
  have "mget (mdrop p m) k' = None" if "k' \<notin> set (mkeys m)"
    using that by (auto simp: mdrop_def map_of_eq_None_iff)
  with Cons kv show ?case by (auto simp: mdrop_def)
qed (simp add: mdrop_def)

lemma mput_keys: "mkeys (mput k v m) = (if k \<in> set (mkeys m) then mkeys m else mkeys m @ [k])"
  by (induction m) auto

lemma fst_set_mput: "fst ` set (mput k v m) = insert k (fst ` set m)"
  by (induction m) auto

lemma fst_set_mdel: "fst ` set (mdel k m) = fst ` set m - {k}"
  by (auto simp: AList.delete_eq image_iff)

lemma length_mput: "length (mput k v m) = (if mget m k = None then Suc (length m) else length m)"
  by (induction m) auto

lemma length_mput_le: "length (mput k v m) \<le> Suc (length m)"
  by (simp add: length_mput)

lemma length_mdrop_le: "length (mdrop p m) \<le> length m"
  by (simp add: mdrop_def)

lemma set_mput: "mwf m \<Longrightarrow> set (mput k v m) = insert (k, v) {e \<in> set m. fst e \<noteq> k}"
  by (induction m) force+

lemma set_mdel: "set (mdel k m) = {e \<in> set m. fst e \<noteq> k}"
  by (auto simp: AList.delete_eq)

text \<open>The loop \<open>for \<dots> { tmp[key]++ }\<close> over the keys of a list.\<close>

definition mtally :: "'k list \<Rightarrow> ('k, nat) gomap" where
  "mtally ks = foldl (\<lambda>tmp k. mput k (mget_or 0 tmp k + 1) tmp) [] ks"

lemma mtally_foldl:
  "mget_or 0 (foldl (\<lambda>tmp k. mput k (mget_or 0 tmp k + 1) tmp) m ks) k = mget_or 0 m k + count_list ks k"
  by (induction ks arbitrary: m) (auto simp: mget_or_def)

lemma mget_mtally: "mget_or 0 (mtally ks) k = count_list ks k"
  unfolding mtally_def mtally_foldl by (simp add: mget_or_def)

lemma mtally_wf: "mwf (mtally ks)"
proof -
  have "mwf m \<Longrightarrow> mwf (foldl (\<lambda>tmp k. mput k (mget_or 0 tmp k + 1) tmp) m ks)" for m :: "('a, nat) gomap"
    by (induction ks arbitrary: m) simp_all
  then show ?thesis by (simp add: mtally_def)
qed

lemma mtally_keys: "set (mkeys (mtally ks)) = set ks"
proof -
  have "set (mkeys (foldl (\<lambda>tmp k. mput k (mget_or 0 tmp k + 1) tmp) m ks)) = set (mkeys m) \<union> set ks"
    for m :: "('a, nat) gomap"
    by (induction ks arbitrary: m) (simp_all add: fst_set_mput)
  then show ?thesis by (simp add: mtally_def)
qed

lemma mtally_entry: "(k, n) \<in> set (mtally ks) \<longleftrightarrow> n = count_list ks k \<and> k \<in> set ks"
proof -
  have "(k, n) \<in> set (mtally ks) \<longleftrightarrow> mget (mtally ks) k = Some n"
    using mget_Some_set [OF mtally_wf] by metis
  moreover have "mget (mtally ks) k = (if k \<in> set ks then Some (count_list ks k) else None)"
    using mget_mtally [of ks k] mtally_keys [of ks] mget_None_keys [of "mtally ks" k]
    by (cases "mget (mtally ks) k") (auto simp: mget_or_def)
  ultimately show ?thesis by auto
qed

lemma set_mtally: "set (mtally ks) = (\<lambda>k. (k, count_list ks k)) ` set ks"
  by (auto simp: mtally_entry)

lemma mtally_sum: "sum_list (map snd (mtally ks)) = length ks"
proof -
  have upd: "sum_list (map snd (mput k v m)) + mget_or 0 m k = sum_list (map snd m) + v"
    for k v and m :: "('a, nat) gomap"
    by (induction m) (auto simp: mget_or_def)
  have "sum_list (map snd (foldl (\<lambda>tmp k. mput k (mget_or 0 tmp k + 1) tmp) m ks))
      = sum_list (map snd m) + length ks" for m :: "('a, nat) gomap"
  proof (induction ks arbitrary: m)
    case (Cons k ks)
    from upd [of k "mget_or 0 m k + 1" m] Cons.IH [of "mput k (mget_or 0 m k + 1) m"] show ?case
      by simp
  qed simp
  then show ?thesis by (simp add: mtally_def)
qed

section \<open>Signed 64-bit arithmetic, times and durations\<close>

text \<open>Two's complement reading of an integer at 64 bits: how an \<open>int64\<close> product wraps.\<close>

definition wrap64 :: "int \<Rightarrow> int" where
  "wrap64 x = (x + 2 ^ 63) mod 2 ^ 64 - 2 ^ 63"

text \<open>Go's integer division truncates toward zero.\<close>

definition go_div :: "int \<Rightarrow> int \<Rightarrow> int" where
  "go_div a b = sgn a * sgn b * (\<bar>a\<bar> div \<bar>b\<bar>)"

lemma wrap64_id: "- (2 ^ 63) \<le> x \<Longrightarrow> x < 2 ^ 63 \<Longrightarrow> wrap64 x = x"
  by (simp add: wrap64_def)

lemma wrap64_range: "- (2 ^ 63) \<le> wrap64 x \<and> wrap64 x < 2 ^ 63"
proof -
  have "0 \<le> (x + 2 ^ 63) mod 2 ^ 64 \<and> (x + 2 ^ 63) mod 2 ^ 64 < 2 ^ 64" by simp
  then show ?thesis by (simp add: wrap64_def)
qed

lemma go_div_nonneg: "0 \<le> a \<Longrightarrow> 0 < b \<Longrightarrow> go_div a b = a div b"
  by (cases "a = 0") (simp_all add: go_div_def)

text \<open>
  A \<open>time.Time\<close> is the nanosecond count since the Unix epoch, a \<open>time.Duration\<close> a nanosecond count.
  \<open>t.Sub(u)\<close> saturates at the range of a duration; the zero \<open>time.Time\<close> is 1 January of year 1.
\<close>

type_synonym time = int
type_synonym duration = int

definition nanosecond :: duration where "nanosecond = 1"
definition millisecond :: duration where "millisecond = 1000000"
definition second :: duration where "second = 1000000000"

definition max_duration :: duration where "max_duration = 2 ^ 63 - 1"
definition min_duration :: duration where "min_duration = - (2 ^ 63)"

definition time_sub :: "time \<Rightarrow> time \<Rightarrow> duration" where
  "time_sub t u = max min_duration (min max_duration (t - u))"

definition zero_time :: time where "zero_time = - 62135596800 * second"

definition is_zero_time :: "time \<Rightarrow> bool" where "is_zero_time t \<longleftrightarrow> t = zero_time"

lemma time_sub_exact:
  "- (2 ^ 63) \<le> t - u \<Longrightarrow> t - u < 2 ^ 63 \<Longrightarrow> time_sub t u = t - u"
  by (simp add: time_sub_def max_duration_def min_duration_def)

lemma time_sub_gt: "0 \<le> d \<Longrightarrow> d < max_duration \<Longrightarrow> time_sub t u > d \<longleftrightarrow> t - u > d"
  by (auto simp: time_sub_def max_duration_def min_duration_def)

lemma time_sub_pos: "time_sub t u > 0 \<longleftrightarrow> t > u"
  by (auto simp: time_sub_def max_duration_def min_duration_def)

lemma time_sub_range: "min_duration \<le> time_sub t u \<and> time_sub t u \<le> max_duration"
  by (simp add: time_sub_def max_duration_def min_duration_def)

section \<open>Reading big- and little-endian integers\<close>

unbundle bit_operations_syntax

text \<open>\<open>binary.BigEndian.Uint16\<close> and \<open>Uint32\<close>: they panic on a short slice.\<close>

definition be16 :: "u8 list \<Rightarrow> u16 option" where
  "be16 b = do {
     b0 \<leftarrow> idx b 0; b1 \<leftarrow> idx b 1;
     Some (push_bit 8 (ucast b0) OR ucast b1) }"

definition be32 :: "u8 list \<Rightarrow> u32 option" where
  "be32 b = do {
     b0 \<leftarrow> idx b 0; b1 \<leftarrow> idx b 1; b2 \<leftarrow> idx b 2; b3 \<leftarrow> idx b 3;
     Some (push_bit 24 (ucast b0) OR push_bit 16 (ucast b1) OR push_bit 8 (ucast b2) OR ucast b3) }"

text \<open>\<open>binary.NativeEndian\<close> on the little-endian hosts the eBPF object is built for.\<close>

definition le16 :: "u8 list \<Rightarrow> u16 option" where
  "le16 b = do {
     b0 \<leftarrow> idx b 0; b1 \<leftarrow> idx b 1;
     Some (ucast b0 OR push_bit 8 (ucast b1)) }"

definition le32 :: "u8 list \<Rightarrow> u32 option" where
  "le32 b = do {
     b0 \<leftarrow> idx b 0; b1 \<leftarrow> idx b 1; b2 \<leftarrow> idx b 2; b3 \<leftarrow> idx b 3;
     Some (ucast b0 OR push_bit 8 (ucast b1) OR push_bit 16 (ucast b2) OR push_bit 24 (ucast b3)) }"

text \<open>The encoders that the round trips are stated against.\<close>

definition enc16 :: "u16 \<Rightarrow> u8 list" where
  "enc16 w = [ucast (drop_bit 8 w), ucast w]"

definition enc32 :: "u32 \<Rightarrow> u8 list" where
  "enc32 w = [ucast (drop_bit 24 w), ucast (drop_bit 16 w), ucast (drop_bit 8 w), ucast w]"

lemma be16_Some: "2 \<le> length b \<Longrightarrow>
  be16 b = Some (push_bit 8 (ucast (b ! 0)) OR ucast (b ! 1))"
  by (auto simp: be16_def idx_def)

lemma be32_Some: "4 \<le> length b \<Longrightarrow>
  be32 b = Some (push_bit 24 (ucast (b ! 0)) OR push_bit 16 (ucast (b ! 1))
    OR push_bit 8 (ucast (b ! 2)) OR ucast (b ! 3))"
  by (auto simp: be32_def idx_def)

lemma be16_total: "2 \<le> length b \<Longrightarrow> \<exists>w. be16 b = Some w"
  by (simp add: be16_Some)

lemma be32_total: "4 \<le> length b \<Longrightarrow> \<exists>w. be32 b = Some w"
  by (simp add: be32_Some)

lemma length_enc16 [simp]: "length (enc16 w) = 2"
  by (simp add: enc16_def)

lemma length_enc32 [simp]: "length (enc32 w) = 4"
  by (simp add: enc32_def)

lemma be16_enc16 [simp]: "be16 (enc16 w @ xs) = Some w"
proof -
  have "push_bit 8 (ucast (ucast (drop_bit 8 w) :: u8)) OR ucast (ucast w :: u8) = w"
    by (rule bit_word_eqI) (auto simp: bit_simps)
  then show ?thesis by (simp add: be16_def enc16_def idx_def)
qed

lemma be32_enc32 [simp]: "be32 (enc32 w @ xs) = Some w"
proof -
  have "push_bit 24 (ucast (ucast (drop_bit 24 w) :: u8)) OR
        push_bit 16 (ucast (ucast (drop_bit 16 w) :: u8)) OR
        push_bit 8 (ucast (ucast (drop_bit 8 w) :: u8)) OR ucast (ucast w :: u8) = (w :: u32)"
    (is "?l = w")
  proof (rule bit_word_eqI)
    fix n
    assume "n < LENGTH(32)"
    then show "bit ?l n = bit w n"
      by (cases "24 \<le> n"; cases "16 \<le> n"; cases "8 \<le> n") (auto simp: bit_simps)
  qed
  then show ?thesis by (simp add: be32_def enc32_def idx_def)
qed

lemma be16_enc16_only [simp]: "be16 (enc16 w) = Some w"
  using be16_enc16 [of w "[]"] by simp

lemma be32_enc32_only [simp]: "be32 (enc32 w) = Some w"
  using be32_enc32 [of w "[]"] by simp

end
