(* ===== verification/Rtp_Packet.thy ===== *)
theory Rtp_Packet
  imports Prelude
begin

text \<open>
  Package \<open>internal/rtp\<close>: the fixed RTP header of RFC 3550 (\<open>header.go\<close>) and the payload-type to
  codec resolution of RFC 3551 (\<open>codec.go\<close>).  The lemmas show that the parser never indexes out of
  range, which of its two errors it returns, and that it inverts the header layout of the RFC.
\<close>

section \<open>Header\<close>

datatype rtp_error = ErrInvalidRTP | ErrNotRTP

record rtp_header =
  h_version :: u8
  h_padding :: bool
  h_extension :: bool
  h_csrc_count :: u8
  h_marker :: bool
  h_payload_type :: u8
  h_sequence :: u16
  h_timestamp :: u32
  h_ssrc :: u32

definition min_rtp_header_len :: nat where "min_rtp_header_len = 12"

definition parse_header :: "u8 list \<Rightarrow> (rtp_error + rtp_header) option" where
  "parse_header data =
     (if length data < min_rtp_header_len then Some (Inl ErrInvalidRTP)
      else do {
        b0 \<leftarrow> idx data 0;
        if drop_bit 6 b0 \<noteq> 2 then Some (Inl ErrNotRTP)
        else do {
          b1 \<leftarrow> idx data 1;
          s \<leftarrow> Option.bind (subslice data 2 4) be16;
          t \<leftarrow> Option.bind (subslice data 4 8) be32;
          ssrc \<leftarrow> Option.bind (subslice data 8 12) be32;
          Some (Inr \<lparr>
            h_version = 2,
            h_padding = (b0 AND push_bit 5 1 \<noteq> 0),
            h_extension = (b0 AND push_bit 4 1 \<noteq> 0),
            h_csrc_count = b0 AND 0x0F,
            h_marker = (b1 AND push_bit 7 1 \<noteq> 0),
            h_payload_type = b1 AND 0x7F,
            h_sequence = s, h_timestamp = t, h_ssrc = ssrc \<rparr>) } })"

text \<open>The first two bytes as the RFC lays them out, and the whole fixed header.\<close>

definition enc_byte0 :: "rtp_header \<Rightarrow> u8" where
  "enc_byte0 h = push_bit 6 (h_version h) OR push_bit 5 (of_bool (h_padding h))
     OR push_bit 4 (of_bool (h_extension h)) OR h_csrc_count h"

definition enc_byte1 :: "rtp_header \<Rightarrow> u8" where
  "enc_byte1 h = push_bit 7 (of_bool (h_marker h)) OR h_payload_type h"

definition encode_header :: "rtp_header \<Rightarrow> u8 list" where
  "encode_header h = [enc_byte0 h, enc_byte1 h] @ enc16 (h_sequence h)
     @ enc32 (h_timestamp h) @ enc32 (h_ssrc h)"

definition rtp_header_wf :: "rtp_header \<Rightarrow> bool" where
  "rtp_header_wf h \<longleftrightarrow> h_version h = 2 \<and> h_csrc_count h < 16 \<and> h_payload_type h < 128"

lemma parse_header_read:
  assumes "12 \<le> length data" and "drop_bit 6 (data ! 0) = (2 :: u8)"
  shows "\<exists>h. parse_header data = Some (Inr h)"
proof -
  from assms have "data \<noteq> []" by auto
  with assms show ?thesis
    by (simp add: parse_header_def min_rtp_header_len_def slice_simps be16_Some be32_Some)
qed

lemma parse_header_cases:
  "parse_header data =
     (if length data < 12 then Some (Inl ErrInvalidRTP)
      else if drop_bit 6 (data ! 0) \<noteq> 2 then Some (Inl ErrNotRTP)
      else parse_header data)"
  by (auto simp: parse_header_def min_rtp_header_len_def slice_simps idx_def)

text \<open>
  the parser is total on every byte sequence: it never panics, it rejects exactly the packets
  shorter than twelve bytes and those whose version bits are not 2, and accepts all others.
\<close>

theorem parse_header_total:
  "parse_header data \<noteq> None \<and>
   (parse_header data = Some (Inl ErrInvalidRTP) \<longleftrightarrow> length data < 12) \<and>
   (parse_header data = Some (Inl ErrNotRTP) \<longleftrightarrow> 12 \<le> length data \<and> drop_bit 6 (data ! 0) \<noteq> 2) \<and>
   ((\<exists>h. parse_header data = Some (Inr h)) \<longleftrightarrow> 12 \<le> length data \<and> drop_bit 6 (data ! 0) = 2)"
proof (cases "length data < 12")
  case True
  then show ?thesis by (simp add: parse_header_def min_rtp_header_len_def)
next
  case False
  show ?thesis
  proof (cases "drop_bit 6 (data ! 0) = (2 :: u8)")
    case True
    with False obtain h where "parse_header data = Some (Inr h)"
      using parse_header_read by (meson linorder_not_le)
    with True False show ?thesis by auto
  next
    case False
    with \<open>\<not> length data < 12\<close> have "parse_header data = Some (Inl ErrNotRTP)"
      by (subst parse_header_cases) simp
    with False \<open>\<not> length data < 12\<close> show ?thesis by auto
  qed
qed

section \<open>Round trip with the RFC layout\<close>

lemma bits_below:
  fixes c :: "'a :: len word"
  assumes "unat c < 2 ^ k" and "bit c n"
  shows "n < k"
proof -
  from assms(2) have "n < LENGTH('a)" by (rule bit_imp_le_length)
  with assms(2) have "bit (unat c) n" by (simp add: bit_simps)
  moreover have "take_bit k (unat c) = unat c" using assms(1) by (rule take_bit_nat_eq_self)
  ultimately show ?thesis by (metis bit_take_bit_iff)
qed

lemma bit_128: "bit (128 :: u8) n \<longleftrightarrow> n = 7"
proof -
  have "(128 :: u8) = push_bit 7 1" by simp
  then show ?thesis by (simp only: bit_simps) auto
qed

lemma low_mask8: "(x :: u8) AND 15 = take_bit 4 x" "(x :: u8) AND 127 = take_bit 7 x"
  by (simp_all add: take_bit_eq_mask mask_eq_exp_minus_1)

lemma enc_byte0_fields:
  assumes "h_version h = 2" and "h_csrc_count h < 16"
  shows "drop_bit 6 (enc_byte0 h) = 2"
    and "enc_byte0 h AND push_bit 5 1 \<noteq> 0 \<longleftrightarrow> h_padding h"
    and "enc_byte0 h AND push_bit 4 1 \<noteq> 0 \<longleftrightarrow> h_extension h"
    and "enc_byte0 h AND 0x0F = h_csrc_count h"
proof -
  have c: "bit (h_csrc_count h) n \<Longrightarrow> n < 4" for n
    using assms(2) bits_below [of "h_csrc_count h" 4] by (simp add: word_less_nat_alt)
  have e: "bit (enc_byte0 h) n \<longleftrightarrow> n = 7 \<or> n = 5 \<and> h_padding h \<or> n = 4 \<and> h_extension h
      \<or> bit (h_csrc_count h) n" for n
  proof -
    have "bit (push_bit 6 (h_version h)) n \<longleftrightarrow> n = 7"
      using bit_128 by (simp add: assms(1))
    then show ?thesis
      using c [of n] by (auto simp: enc_byte0_def bit_or_iff bit_push_bit_iff bit_of_bool_iff)
  qed
  have b: "w AND push_bit k 1 \<noteq> 0 \<longleftrightarrow> bit w k" for w :: u8 and k
    by (simp add: bit_iff_and_push_bit_not_eq_0)
  show "drop_bit 6 (enc_byte0 h) = 2"
    by (rule bit_word_eqI) (auto simp: bit_simps e dest: c)
  show "enc_byte0 h AND push_bit 5 1 \<noteq> 0 \<longleftrightarrow> h_padding h"
    by (auto simp only: b) (auto simp: e dest: c)
  show "enc_byte0 h AND push_bit 4 1 \<noteq> 0 \<longleftrightarrow> h_extension h"
    by (auto simp only: b) (auto simp: e dest: c)
  show "enc_byte0 h AND 0x0F = h_csrc_count h"
    unfolding low_mask8 by (rule bit_word_eqI) (auto simp: bit_take_bit_iff e dest: c)
qed

lemma enc_byte1_fields:
  assumes "h_payload_type h < 128"
  shows "enc_byte1 h AND push_bit 7 1 \<noteq> 0 \<longleftrightarrow> h_marker h"
    and "enc_byte1 h AND 0x7F = h_payload_type h"
proof -
  have c: "bit (h_payload_type h) n \<Longrightarrow> n < 7" for n
    using assms bits_below [of "h_payload_type h" 7] by (simp add: word_less_nat_alt)
  have e: "bit (enc_byte1 h) n \<longleftrightarrow> n = 7 \<and> h_marker h \<or> bit (h_payload_type h) n" for n
    using c [of n] by (auto simp: enc_byte1_def bit_simps)
  have b: "w AND push_bit k 1 \<noteq> 0 \<longleftrightarrow> bit w k" for w :: u8 and k
    by (simp add: bit_iff_and_push_bit_not_eq_0)
  show "enc_byte1 h AND push_bit 7 1 \<noteq> 0 \<longleftrightarrow> h_marker h"
    by (auto simp only: b) (auto simp: e dest: c)
  show "enc_byte1 h AND 0x7F = h_payload_type h"
    unfolding low_mask8 by (rule bit_word_eqI) (auto simp: bit_take_bit_iff e dest: c)
qed

text \<open>
  decoding the RFC 3550 layout of a well-formed header (version 2, at most 15 contributing
  sources, a 7-bit payload type), whatever payload follows it, gives back that header.
\<close>

theorem parse_encode_header:
  assumes "rtp_header_wf h"
  shows "parse_header (encode_header h @ payload) = Some (Inr h)"
proof -
  note wf = assms [unfolded rtp_header_wf_def]
  note f = enc_byte0_fields [of h] enc_byte1_fields [of h]
  have s: "subslice (encode_header h @ payload) 2 4 = Some (enc16 (h_sequence h))"
    "subslice (encode_header h @ payload) 4 8 = Some (enc32 (h_timestamp h))"
    "subslice (encode_header h @ payload) 8 12 = Some (enc32 (h_ssrc h))"
    by (simp_all add: encode_header_def subslice_def enc16_def enc32_def)
  have i: "idx (encode_header h @ payload) 0 = Some (enc_byte0 h)"
    "idx (encode_header h @ payload) 1 = Some (enc_byte1 h)"
    "\<not> length (encode_header h @ payload) < 12"
    by (simp_all add: encode_header_def idx_def)
  show ?thesis
    using wf f unfolding parse_header_def min_rtp_header_len_def i(1,2) s
    using i(3) by simp
qed

definition sample_header :: rtp_header where
  "sample_header = \<lparr>h_version = 2, h_padding = False, h_extension = True, h_csrc_count = 1, h_marker = True,
     h_payload_type = 8, h_sequence = 65535, h_timestamp = 4294967295, h_ssrc = 3735928559\<rparr>"

theorem parse_encode_header_witness:
  "parse_header (encode_header sample_header @ [1, 2, 3]) = Some (Inr sample_header)"
  by (rule parse_encode_header) (simp add: sample_header_def rtp_header_wf_def)

section \<open>Codecs\<close>

definition codec_unknown :: string where "codec_unknown = ''other''"

definition static_codec_name :: "u8 \<Rightarrow> string" where
  "static_codec_name pt =
     (if pt = 0 then ''PCMU''
      else if pt = 8 then ''PCMA''
      else if pt = 9 then ''G.722''
      else if pt = 4 then ''G.723''
      else if pt = 15 then ''G.728''
      else if pt = 18 then ''G.729''
      else if pt = 13 then ''CN''
      else codec_unknown)"

text \<open>A nil map behaves as the empty one.\<close>

definition codec_name :: "u8 \<Rightarrow> (u8, string) gomap \<Rightarrow> string" where
  "codec_name pt sdp_map =
     (case mget sdp_map pt of
        Some name \<Rightarrow> if name \<noteq> [] then name else static_codec_name pt
      | None \<Rightarrow> static_codec_name pt)"

definition is_audio_codec :: "string \<Rightarrow> bool" where
  "is_audio_codec codec \<longleftrightarrow> codec \<noteq> ''telephone-event'' \<and> codec \<noteq> ''CN''"

lemma codec_name_nonempty: "codec_name pt m \<noteq> []"
  by (auto simp: codec_name_def static_codec_name_def codec_unknown_def split: option.splits)

end
