(* ===== verification/Rtcp_Packet.thy ===== *)
theory Rtcp_Packet
  imports Prelude
begin

text \<open>
  Package \<open>internal/rtcp\<close> (\<open>parser.go\<close>): the sender and receiver reports of a compound RTCP packet
  (RFC 3550).  Every index and slice of the Go parser is checked here, so that the theorem
  \<open>rtcp_parse_no_panic\<close> is the guarantee the package comment gives; the other properties are the
  round trip against the wire format of the RFC, with sub-packets of other types skipped, the
  salvage of the reports before a malformed tail, and the range of the signed 24-bit loss field.
\<close>

section \<open>Types\<close>

datatype rtcp_error = ErrInvalidRTCP | ErrNotRTCP | ErrTruncated

record report_block =
  rb_ssrc :: u32
  rb_fraction_lost :: u8
  rb_cumulative_lost :: int
  rb_jitter :: u32
  rb_lsr :: u32
  rb_dlsr :: u32

record rtcp_report =
  rep_type :: u8
  rep_blocks :: "report_block list"

definition zero_report :: rtcp_report where
  "zero_report = \<lparr>rep_type = 0, rep_blocks = []\<rparr>"

definition pt_sender_report :: u8 where "pt_sender_report = 200"
definition pt_receiver_report :: u8 where "pt_receiver_report = 201"

definition common_header_len :: nat where "common_header_len = 4"
definition report_block_len :: nat where "report_block_len = 24"
definition rr_min_len :: nat where "rr_min_len = 8"
definition sr_min_len :: nat where "sr_min_len = 28"

lemmas rtcp_consts = pt_sender_report_def pt_receiver_report_def common_header_len_def
  report_block_len_def rr_min_len_def sr_min_len_def

section \<open>The parser\<close>

definition cumulative_lost24 :: "u8 \<Rightarrow> u8 \<Rightarrow> u8 \<Rightarrow> int" where
  "cumulative_lost24 b5 b6 b7 =
     (let raw = (push_bit 16 (ucast b5) OR push_bit 8 (ucast b6) OR ucast b7 :: u32)
      in if raw AND 0x800000 \<noteq> 0 then sint raw - push_bit 24 1 else sint raw)"

definition parse_report_block :: "u8 list \<Rightarrow> report_block option" where
  "parse_report_block b = do {
     b5 \<leftarrow> idx b 5; b6 \<leftarrow> idx b 6; b7 \<leftarrow> idx b 7;
     ssrc \<leftarrow> Option.bind (subslice b 0 4) be32;
     b4 \<leftarrow> idx b 4;
     jitter \<leftarrow> Option.bind (subslice b 12 16) be32;
     lsr \<leftarrow> Option.bind (subslice b 16 20) be32;
     dlsr \<leftarrow> Option.bind (subslice b 20 24) be32;
     Some \<lparr>rb_ssrc = ssrc, rb_fraction_lost = b4,
           rb_cumulative_lost = cumulative_lost24 b5 b6 b7,
           rb_jitter = jitter, rb_lsr = lsr, rb_dlsr = dlsr\<rparr> }"

text \<open>The loop over the report count: the blocks read so far, and the error that stopped it.\<close>

fun parse_blocks :: "nat \<Rightarrow> u8 list \<Rightarrow> nat \<Rightarrow> report_block list
    \<Rightarrow> (report_block list \<times> rtcp_error option) option" where
  "parse_blocks 0 pkt off acc = Some (acc, None)"
| "parse_blocks (Suc rc) pkt off acc =
     (if length pkt < off + report_block_len then Some (acc, Some ErrTruncated)
      else case Option.bind (subslice pkt off (off + report_block_len)) parse_report_block of
        None \<Rightarrow> None
      | Some b \<Rightarrow> parse_blocks rc pkt (off + report_block_len) (acc @ [b]))"

definition parse_report :: "u8 list \<Rightarrow> u8 \<Rightarrow> (rtcp_report \<times> rtcp_error option) option" where
  "parse_report pkt pt =
     (if length pkt < common_header_len then Some (zero_report, Some ErrInvalidRTCP)
      else do {
        b0 \<leftarrow> idx pkt 0;
        let rc = unat (b0 AND 0x1F);
        let min_len = (if pt = pt_sender_report then sr_min_len else rr_min_len);
        if length pkt < min_len then Some (zero_report, Some ErrInvalidRTCP)
        else do {
          (blocks, err) \<leftarrow> parse_blocks rc pkt min_len [];
          Some (\<lparr>rep_type = pt, rep_blocks = blocks\<rparr>, err) } })"

definition parse_compound_packet ::
    "u8 list \<Rightarrow> (rtcp_report \<times> bool \<times> rtcp_error option) option" where
  "parse_compound_packet packet = do {
     pt \<leftarrow> idx packet 1;
     if pt \<noteq> pt_sender_report \<and> pt \<noteq> pt_receiver_report then Some (zero_report, False, None)
     else do { (report, err) \<leftarrow> parse_report packet pt; Some (report, True, err) } }"

definition compound_packet_len :: "u8 list \<Rightarrow> nat \<Rightarrow> (rtcp_error + nat) option" where
  "compound_packet_len payload off =
     (if length payload < off + common_header_len then Some (Inl ErrTruncated)
      else do {
        words \<leftarrow> Option.bind (subslice payload (off + 2) (off + common_header_len)) be16;
        let packet_len = (unat words + 1) * 4;
        if length payload < off + packet_len then Some (Inl ErrTruncated)
        else Some (Inr packet_len) })"

definition first_err :: "rtcp_error option \<Rightarrow> rtcp_error option \<Rightarrow> rtcp_error option" where
  "first_err e e' = (case e of None \<Rightarrow> e' | Some _ \<Rightarrow> e)"

lemma compound_packet_len_bounds:
  "compound_packet_len payload off = Some (Inr n) \<Longrightarrow> 4 \<le> n \<and> off + n \<le> length payload"
  by (auto simp: compound_packet_len_def Let_def split: if_splits Option.bind_splits)

function parse_loop :: "u8 list \<Rightarrow> nat \<Rightarrow> rtcp_report list \<Rightarrow> rtcp_error option
    \<Rightarrow> (rtcp_report list \<times> rtcp_error option) option" where
  "parse_loop payload off reports ferr =
     (if off < length payload then
        (case compound_packet_len payload off of
           None \<Rightarrow> None
         | Some (Inl e) \<Rightarrow> Some (reports, first_err ferr (Some e))
         | Some (Inr n) \<Rightarrow>
             (case Option.bind (subslice payload off (off + n)) parse_compound_packet of
                None \<Rightarrow> None
              | Some (report, is_report, err) \<Rightarrow>
                  parse_loop payload (off + n)
                    (if is_report \<and> (err = None \<or> rep_blocks report \<noteq> [])
                     then reports @ [report] else reports)
                    (first_err ferr err)))
      else Some (reports, ferr))"
  by pat_completeness auto

termination
  by (relation "measure (\<lambda>(payload, off, _). length payload - off)")
    (auto dest!: compound_packet_len_bounds)

declare parse_loop.simps [simp del]

definition rtcp_parse :: "u8 list \<Rightarrow> (rtcp_report list \<times> rtcp_error option) option" where
  "rtcp_parse payload =
     (if length payload < common_header_len then Some ([], Some ErrInvalidRTCP)
      else do {
        b0 \<leftarrow> idx payload 0;
        if drop_bit 6 b0 \<noteq> 2 then Some ([], Some ErrNotRTCP)
        else parse_loop payload 0 [] None })"

section \<open>No panic\<close>

lemma parse_report_block_total: "24 \<le> length b \<Longrightarrow> \<exists>r. parse_report_block b = Some r"
  by (auto simp: parse_report_block_def slice_simps be32_Some idx_def)

lemma parse_blocks_total: "\<exists>r. parse_blocks rc pkt off acc = Some r"
proof (induction rc arbitrary: off acc)
  case (Suc rc)
  show ?case
  proof (cases "length pkt < off + report_block_len")
    case False
    then obtain b where "Option.bind (subslice pkt off (off + report_block_len)) parse_report_block = Some b"
      using parse_report_block_total [of "take report_block_len (drop off pkt)"]
      by (auto simp: subslice_def report_block_len_def)
    with Suc False show ?thesis by simp
  qed simp
qed simp

lemma parse_report_total: "\<exists>r. parse_report pkt pt = Some r"
proof (cases "pkt = []")
  case False
  obtain bs e where "parse_blocks (unat (pkt ! 0 AND 0x1F)) pkt
      (if pt = pt_sender_report then sr_min_len else rr_min_len) [] = Some (bs, e)"
    using parse_blocks_total by (metis surj_pair)
  with False show ?thesis by (auto simp: parse_report_def idx_def Let_def)
qed (simp add: parse_report_def common_header_len_def)

lemma parse_compound_packet_total: "4 \<le> length p \<Longrightarrow> \<exists>r. parse_compound_packet p = Some r"
  using parse_report_total [of p "p ! 1"]
  by (auto simp: parse_compound_packet_def idx_def)

lemma compound_packet_len_total: "\<exists>r. compound_packet_len payload off = Some r"
  by (auto simp: compound_packet_len_def Let_def common_header_len_def slice_simps be16_Some)

lemma parse_loop_total: "\<exists>r. parse_loop payload off reports ferr = Some r"
proof (induction payload off reports ferr rule: parse_loop.induct)
  case (1 payload off reports ferr)
  show ?case
  proof (cases "off < length payload")
    case True
    obtain l where l: "compound_packet_len payload off = Some l"
      using compound_packet_len_total by blast
    show ?thesis
    proof (cases l)
      case (Inl e)
      with True l show ?thesis by (subst parse_loop.simps) simp
    next
      case (Inr n)
      note b = compound_packet_len_bounds [OF l [unfolded Inr]]
      then have "4 \<le> length (take n (drop off payload))" by auto
      with b obtain rep isr err where
        p: "Option.bind (subslice payload off (off + n)) parse_compound_packet = Some (rep, isr, err)"
        using parse_compound_packet_total [of "take n (drop off payload)"]
        by (auto simp: subslice_def)
      from "1" [OF True l Inr p, OF refl refl] True l Inr p show ?thesis
        by (subst parse_loop.simps) simp
    qed
  qed (subst parse_loop.simps, simp)
qed

lemma rtcp_parse_total: "\<exists>rs err. rtcp_parse payload = Some (rs, err)"
proof (cases "length payload < common_header_len")
  case False
  then have "payload \<noteq> []" by (auto simp: common_header_len_def)
  then show ?thesis
    using parse_loop_total [of payload 0 "[]" None] by (auto simp: rtcp_parse_def idx_def)
qed (simp add: rtcp_parse_def)

text \<open>
  parsing a compound RTCP payload never panics, whatever the bytes: every index and slice of
  the parser is in range, and the loop ends.
\<close>

theorem rtcp_parse_no_panic: "rtcp_parse payload \<noteq> None"
  using rtcp_parse_total [of payload] by auto

section \<open>The signed 24-bit loss field\<close>

definition enc24 :: "int \<Rightarrow> u8 list" where
  "enc24 c = (let w = word_of_int c :: u32 in
     [ucast (drop_bit 16 w), ucast (drop_bit 8 w), ucast w])"

lemma raw24_bytes:
  "push_bit 16 (ucast (ucast (drop_bit 16 w) :: u8)) OR push_bit 8 (ucast (ucast (drop_bit 8 w) :: u8))
     OR ucast (ucast w :: u8) = (take_bit 24 w :: u32)" (is "?l = ?r")
proof (rule bit_word_eqI)
  fix n
  assume "n < LENGTH(32)"
  then show "bit ?l n = bit ?r n"
    by (cases "24 \<le> n"; cases "16 \<le> n"; cases "8 \<le> n") (auto simp: bit_simps)
qed

lemma bit_ucast8: "bit (ucast (b :: u8) :: u32) n \<longleftrightarrow> n < 8 \<and> bit b n"
  using bit_imp_le_length [of b n] by (auto simp: bit_ucast_iff)

lemma raw24_bound:
  "uint (push_bit 16 (ucast (b5 :: u8)) OR push_bit 8 (ucast (b6 :: u8)) OR ucast (b7 :: u8) :: u32) < 2 ^ 24"
  (is "uint ?w < _")
proof -
  have "take_bit 24 ?w = ?w"
  proof (rule bit_word_eqI)
    fix n
    have "n < 24" if "bit ?w n"
      using that unfolding bit_or_iff bit_push_bit_iff bit_ucast8 by linarith
    then show "bit (take_bit 24 ?w) n = bit ?w n"
      unfolding bit_take_bit_iff by blast
  qed
  then have "uint (take_bit 24 ?w) = uint ?w" by (rule arg_cong)
  then have "take_bit 24 (uint ?w) = uint ?w" unfolding unsigned_take_bit_eq .
  then show ?thesis using take_bit_int_less_exp [of 24 "uint ?w"] by argo
qed

lemma sint_small32: "uint (w :: u32) < 2 ^ 31 \<Longrightarrow> sint w = uint w"
proof -
  assume w: "uint w < 2 ^ 31"
  have "- (2 ^ 31) \<le> uint w" by (rule order_trans [OF _ uint_ge_0]) simp
  with w show ?thesis by (simp add: sint_uint signed_take_bit_int_eq_self)
qed

lemma bit23_and: "(w :: u32) AND 0x800000 \<noteq> 0 \<longleftrightarrow> bit w 23"
proof -
  have "(0x800000 :: u32) = push_bit 23 1" by simp
  then show ?thesis by (metis bit_iff_and_push_bit_not_eq_0)
qed

lemma bit23_ge:
  assumes "uint (w :: u32) < 2 ^ 24"
  shows "bit w 23 \<longleftrightarrow> 2 ^ 23 \<le> uint w"
proof -
  have "bit w 23 \<longleftrightarrow> bit (uint w) 23" by (simp add: bit_uint_iff)
  then have "bit w 23 \<longleftrightarrow> odd (uint w div 2 ^ 23)" by (simp only: bit_iff_odd)
  moreover have "uint w div 2 ^ 23 = (if 2 ^ 23 \<le> uint w then 1 else 0)"
    using assms by (auto simp: div_pos_pos_trivial intro: int_div_pos_eq)
  ultimately show ?thesis by simp
qed

lemma cumulative_lost24_eq:
  assumes "raw = (push_bit 16 (ucast b5) OR push_bit 8 (ucast b6) OR ucast b7 :: u32)"
  shows "cumulative_lost24 b5 b6 b7 =
    (if 2 ^ 23 \<le> uint raw then uint raw - 2 ^ 24 else uint raw)"
proof -
  have b: "uint raw < 2 ^ 24" using raw24_bound assms by simp
  then have "sint raw = uint raw" by (intro sint_small32) simp
  with bit23_ge [OF b] bit23_and [of raw] show ?thesis
    by (simp add: cumulative_lost24_def flip: assms)
qed

text \<open>
  the decoded cumulative loss lies in the signed 24-bit range, so a negative value (more
  duplicates than losses) and a positive one are told apart.
\<close>

theorem cumulative_lost_range:
  "- (2 ^ 23) \<le> cumulative_lost24 b5 b6 b7 \<and> cumulative_lost24 b5 b6 b7 < 2 ^ 23"
proof -
  define w :: u32 where "w = push_bit 16 (ucast b5) OR push_bit 8 (ucast b6) OR ucast b7"
  have "- (2 ^ 23) \<le> uint w" by (rule order_trans [OF _ uint_ge_0]) simp
  moreover have "uint w < 2 ^ 24" using raw24_bound [of b5 b6 b7] by (simp add: w_def)
  moreover have "- (2 ^ 23) \<le> uint w - 2 ^ 24" if "2 ^ 23 \<le> uint w" using that by simp
  ultimately show ?thesis by (auto simp: cumulative_lost24_eq [OF w_def])
qed

lemma cumulative_lost24_enc:
  assumes "- (2 ^ 23) \<le> c" and "c < 2 ^ 23" and "enc24 c = [b5, b6, b7]"
  shows "cumulative_lost24 b5 b6 b7 = c"
proof -
  define w :: u32 where "w = word_of_int c"
  have "push_bit 16 (ucast b5) OR push_bit 8 (ucast b6) OR ucast b7 = take_bit 24 w"
    using assms(3) raw24_bytes [of w] by (auto simp: enc24_def w_def Let_def)
  moreover have "uint (take_bit 24 w) = c mod 2 ^ 24"
  proof -
    have "uint (take_bit 24 w) = take_bit 24 (take_bit 32 c)"
      by (simp only: w_def unsigned_take_bit_eq uint_word_of_int_eq) simp
    then show ?thesis by (simp add: take_bit_eq_mod mod_mod_cancel)
  qed
  ultimately have "cumulative_lost24 b5 b6 b7 =
      (if 2 ^ 23 \<le> c mod 2 ^ 24 then c mod 2 ^ 24 - 2 ^ 24 else c mod 2 ^ 24)"
    using cumulative_lost24_eq [OF sym] by metis
  moreover have "c mod 2 ^ 24 = (if 0 \<le> c then c else c + 2 ^ 24)"
  proof (cases "0 \<le> c")
    case False
    then have "(c + 2 ^ 24) mod 2 ^ 24 = c + 2 ^ 24"
      using assms(1) by (intro mod_pos_pos_trivial) simp_all
    with False show ?thesis by simp
  qed (use assms(2) in simp)
  ultimately show ?thesis using assms(1,2) by (auto split: if_splits)
qed

section \<open>The wire format\<close>

text \<open>
  The compound packets of RFC 3550 as a specification: a list of sub-packets, each a report with
  its reporter, its sender information (20 bytes in a sender report, none in a receiver report)
  and its blocks with their extended sequence numbers, or a sub-packet of another type.
\<close>

datatype sub_packet =
    SubReport u8 u32 "u8 list" "(u32 \<times> report_block) list"
  | SubOther u8 u8 "u8 list"

definition enc_block :: "u32 \<times> report_block \<Rightarrow> u8 list" where
  "enc_block = (\<lambda>(ext, b). enc32 (rb_ssrc b) @ [rb_fraction_lost b] @ enc24 (rb_cumulative_lost b)
     @ enc32 ext @ enc32 (rb_jitter b) @ enc32 (rb_lsr b) @ enc32 (rb_dlsr b))"

fun enc_sub :: "sub_packet \<Rightarrow> u8 list" where
  "enc_sub (SubReport pt ssrc info bs) =
     [128 OR of_nat (length bs), pt] @ enc16 (of_nat (1 + length info div 4 + 6 * length bs))
       @ enc32 ssrc @ info @ concat (map enc_block bs)"
| "enc_sub (SubOther b0 pt body) = [b0, pt] @ enc16 (of_nat (length body div 4)) @ body"

definition block_wf :: "report_block \<Rightarrow> bool" where
  "block_wf b \<longleftrightarrow> - (2 ^ 23) \<le> rb_cumulative_lost b \<and> rb_cumulative_lost b < 2 ^ 23"

fun sub_wf :: "sub_packet \<Rightarrow> bool" where
  "sub_wf (SubReport pt ssrc info bs) \<longleftrightarrow>
     (pt = 200 \<and> length info = 20 \<or> pt = 201 \<and> info = []) \<and> length bs < 32 \<and>
     list_all (\<lambda>(ext, b). block_wf b) bs"
| "sub_wf (SubOther b0 pt body) \<longleftrightarrow>
     drop_bit 6 b0 = 2 \<and> pt \<noteq> 200 \<and> pt \<noteq> 201 \<and> 4 dvd length body \<and> length body < 4 * 2 ^ 16"

fun sub_reports :: "sub_packet \<Rightarrow> rtcp_report list" where
  "sub_reports (SubReport pt ssrc info bs) = [\<lparr>rep_type = pt, rep_blocks = map snd bs\<rparr>]"
| "sub_reports (SubOther b0 pt body) = []"

lemma length_enc24 [simp]: "length (enc24 c) = 3"
  by (simp add: enc24_def Let_def)

lemma length_enc_block [simp]: "length (enc_block eb) = 24"
  by (cases eb) (simp add: enc_block_def)

lemma length_enc_blocks [simp]: "length (concat (map enc_block bs)) = 24 * length bs"
  by (induction bs) simp_all

lemma parse_enc_block:
  assumes "block_wf b"
  shows "parse_report_block (enc_block (ext, b)) = Some b"
proof -
  obtain b5 b6 b7 where c: "enc24 (rb_cumulative_lost b) = [b5, b6, b7]"
    by (simp add: enc24_def Let_def)
  let ?e = "enc_block (ext, b)"
  have "subslice ?e 0 4 = Some (enc32 (rb_ssrc b))" "subslice ?e 12 16 = Some (enc32 (rb_jitter b))"
    "subslice ?e 16 20 = Some (enc32 (rb_lsr b))" "subslice ?e 20 24 = Some (enc32 (rb_dlsr b))"
    "idx ?e 4 = Some (rb_fraction_lost b)" "idx ?e 5 = Some b5" "idx ?e 6 = Some b6" "idx ?e 7 = Some b7"
    by (simp_all add: enc_block_def subslice_def idx_def c enc32_def)
  moreover have "cumulative_lost24 b5 b6 b7 = rb_cumulative_lost b"
    using assms c by (intro cumulative_lost24_enc) (auto simp: block_wf_def)
  ultimately show ?thesis by (simp add: parse_report_block_def)
qed

lemma parse_enc_blocks:
  assumes "list_all (\<lambda>(ext, b). block_wf b) bs"
  shows "parse_blocks (length bs) (pre @ concat (map enc_block bs) @ post) (length pre) acc
    = Some (acc @ map snd bs, None)"
  using assms
proof (induction bs arbitrary: pre acc)
  case (Cons eb bs)
  obtain ext b where eb: "eb = (ext, b)" by force
  have "Option.bind (subslice (pre @ enc_block eb @ concat (map enc_block bs) @ post) (length pre)
      (length pre + report_block_len)) parse_report_block = Some b"
    using Cons.prems parse_enc_block [of b ext]
    by (simp add: subslice_def report_block_len_def eb)
  moreover have "parse_blocks (length bs) ((pre @ enc_block eb) @ concat (map enc_block bs) @ post)
      (length (pre @ enc_block eb)) (acc @ [b]) = Some ((acc @ [b]) @ map snd bs, None)"
    using Cons.prems by (intro Cons.IH) simp
  ultimately show ?case by (simp add: report_block_len_def eb)
qed simp

text \<open>The first byte of a report: version 2 in the top bits, the report count in the low five.\<close>

lemma report_byte0:
  assumes "n < 32"
  shows "drop_bit 6 (128 OR of_nat n :: u8) = 2" "unat ((128 OR of_nat n :: u8) AND 0x1F) = n"
proof -
  have "\<forall>n \<in> {..<32}. drop_bit 6 (128 OR of_nat n :: u8) = 2 \<and>
      unat ((128 OR of_nat n :: u8) AND 0x1F) = n"
    by code_simp
  then show "drop_bit 6 (128 OR of_nat n :: u8) = 2" "unat ((128 OR of_nat n :: u8) AND 0x1F) = n"
    using assms by auto
qed

lemma unat_of_nat_small: "k < 2 ^ 16 \<Longrightarrow> unat (of_nat k :: u16) = k"
  by (simp add: unat_of_nat take_bit_nat_eq_self)

lemma enc_sub_shape:
  assumes "sub_wf s"
  shows "\<exists>b0 pt w body. enc_sub s = b0 # pt # enc16 w @ body \<and> drop_bit 6 b0 = 2 \<and>
    length body = 4 * unat w"
proof (cases s)
  case (SubReport pt ssrc info bs)
  have dv: "4 dvd length info" and le: "length info div 4 \<le> 5" and n: "length bs < 32"
    using assms SubReport by auto
  have "unat (of_nat (1 + length info div 4 + 6 * length bs) :: u16) = 1 + length info div 4 + 6 * length bs"
    by (rule unat_of_nat_small) (use le n in simp)
  moreover have "length info = 4 * (length info div 4)" using dv by simp
  ultimately show ?thesis
    using report_byte0(1) [OF n] SubReport
    by (intro exI [of _ "128 OR of_nat (length bs)"] exI [of _ pt]
        exI [of _ "of_nat (1 + length info div 4 + 6 * length bs)"]
        exI [of _ "enc32 ssrc @ info @ concat (map enc_block bs)"]) simp
next
  case (SubOther b0 pt body)
  have "length body div 4 < 2 ^ 16" "4 dvd length body" "drop_bit 6 b0 = 2"
    using assms SubOther by auto
  then have "unat (of_nat (length body div 4) :: u16) = length body div 4" "length body = 4 * (length body div 4)"
    by (simp_all add: unat_of_nat_small)
  with SubOther \<open>drop_bit 6 b0 = 2\<close> show ?thesis
    by (intro exI [of _ b0] exI [of _ pt] exI [of _ "of_nat (length body div 4)"] exI [of _ body]) simp
qed

lemma compound_len_enc_sub:
  assumes "sub_wf s"
  shows "compound_packet_len (pre @ enc_sub s @ rest) (length pre) = Some (Inr (length (enc_sub s)))"
proof -
  obtain b0 pt w body where e: "enc_sub s = b0 # pt # enc16 w @ body" "length body = 4 * unat w"
    using enc_sub_shape [OF assms] by blast
  have "subslice (pre @ enc_sub s @ rest) (length pre + 2) (length pre + common_header_len)
      = Some (enc16 w)"
    by (simp add: subslice_def common_header_len_def e)
  then show ?thesis
    by (simp add: compound_packet_len_def e common_header_len_def)
qed

lemma parse_compound_enc_sub:
  assumes "sub_wf s"
  shows "\<exists>r. parse_compound_packet (enc_sub s) = Some (r, sub_reports s \<noteq> [], None) \<and>
    (sub_reports s \<noteq> [] \<longrightarrow> sub_reports s = [r])"
proof (cases s)
  case (SubReport pt ssrc info bs)
  have n: "length bs < 32" and wf: "list_all (\<lambda>(ext, b). block_wf b) bs" using assms SubReport by auto
  let ?pre = "[128 OR of_nat (length bs), pt] @ enc16 (of_nat (1 + length info div 4 + 6 * length bs))
     @ enc32 ssrc @ info"
  have enc: "enc_sub s = ?pre @ concat (map enc_block bs) @ []" using SubReport by simp
  have "parse_blocks (length bs) (enc_sub s) (length ?pre) [] = Some (map snd bs, None)"
    unfolding enc using parse_enc_blocks [OF wf, of ?pre "[]" "[]"] by simp
  moreover have "length ?pre = (if pt = pt_sender_report then sr_min_len else rr_min_len)"
    using assms SubReport by (auto simp: rtcp_consts)
  moreover have "idx (enc_sub s) 0 = Some (128 OR of_nat (length bs))" "idx (enc_sub s) 1 = Some pt"
    using SubReport by (simp_all add: idx_def)
  moreover have "length ?pre \<le> length (enc_sub s)" "4 \<le> length (enc_sub s)" unfolding enc by simp_all
  ultimately have "parse_report (enc_sub s) pt = Some (\<lparr>rep_type = pt, rep_blocks = map snd bs\<rparr>, None)"
    using report_byte0(2) [OF n] by (simp add: parse_report_def common_header_len_def Let_def)
  moreover have "pt = 200 \<or> pt = 201" using assms SubReport by auto
  ultimately show ?thesis
    using SubReport \<open>idx (enc_sub s) 1 = Some pt\<close>
    by (auto simp: parse_compound_packet_def pt_sender_report_def pt_receiver_report_def)
next
  case (SubOther b0 pt body)
  with assms show ?thesis
    by (simp add: parse_compound_packet_def idx_def rtcp_consts)
qed

lemma length_enc_sub_pos: "sub_wf s \<Longrightarrow> 4 \<le> length (enc_sub s)"
  using enc_sub_shape [of s] by auto

lemma parse_loop_enc:
  assumes "list_all sub_wf ss"
  shows "parse_loop (pre @ concat (map enc_sub ss) @ tail) (length pre) acc ferr =
    parse_loop (pre @ concat (map enc_sub ss) @ tail) (length pre + length (concat (map enc_sub ss)))
      (acc @ concat (map sub_reports ss)) ferr"
  using assms
proof (induction ss arbitrary: pre acc)
  case (Cons s ss)
  let ?p = "pre @ concat (map enc_sub (s # ss)) @ tail"
  have wf: "sub_wf s" and wfs: "list_all sub_wf ss" using Cons.prems by simp_all
  obtain r where r: "parse_compound_packet (enc_sub s) = Some (r, sub_reports s \<noteq> [], None)"
    and rr: "sub_reports s \<noteq> [] \<longrightarrow> sub_reports s = [r]"
    using parse_compound_enc_sub [OF wf] by blast
  have len: "compound_packet_len ?p (length pre) = Some (Inr (length (enc_sub s)))"
    using compound_len_enc_sub [OF wf, of pre "concat (map enc_sub ss) @ tail"] by simp
  have sl: "subslice ?p (length pre) (length pre + length (enc_sub s)) = Some (enc_sub s)"
    by (simp add: subslice_def)
  have "enc_sub s \<noteq> []" using length_enc_sub_pos [OF wf] by auto
  then have lt: "length pre < length ?p" by simp
  have acc: "(if sub_reports s \<noteq> [] then acc @ [r] else acc) = acc @ sub_reports s"
    using rr by auto
  have "parse_loop ?p (length pre) acc ferr
      = parse_loop ?p (length pre + length (enc_sub s)) (acc @ sub_reports s) ferr"
    by (subst parse_loop.simps) (use lt len sl r acc in \<open>simp add: first_err_def split: option.splits\<close>)
  also have "\<dots> = parse_loop ((pre @ enc_sub s) @ concat (map enc_sub ss) @ tail)
      (length (pre @ enc_sub s)) (acc @ sub_reports s) ferr"
    by simp
  also have "\<dots> = parse_loop ((pre @ enc_sub s) @ concat (map enc_sub ss) @ tail)
      (length (pre @ enc_sub s) + length (concat (map enc_sub ss)))
      ((acc @ sub_reports s) @ concat (map sub_reports ss)) ferr"
    by (rule Cons.IH [OF wfs])
  finally show ?case by (simp add: add.assoc)
qed simp

lemma parse_loop_prefix:
  "parse_loop payload off acc ferr = Some (rs, err) \<Longrightarrow> \<exists>more. rs = acc @ more"
proof (induction payload off acc ferr arbitrary: rs err rule: parse_loop.induct)
  case (1 payload off acc ferr)
  show ?case
  proof (cases "off < length payload")
    case True
    with "1.prems" obtain l where l: "compound_packet_len payload off = Some l"
      by (subst (asm) parse_loop.simps) (auto split: option.splits)
    show ?thesis
    proof (cases l)
      case (Inl e)
      with True l "1.prems" show ?thesis by (subst (asm) parse_loop.simps) simp
    next
      case (Inr n)
      with True l "1.prems" obtain rep isr e where
        p: "Option.bind (subslice payload off (off + n)) parse_compound_packet = Some (rep, isr, e)"
        by (subst (asm) parse_loop.simps) (auto split: option.splits)
      from "1.prems" True l Inr p have
        "parse_loop payload (off + n) (if isr \<and> (e = None \<or> rep_blocks rep \<noteq> []) then acc @ [rep] else acc)
           (first_err ferr e) = Some (rs, err)"
        by (subst (asm) parse_loop.simps) simp
      from "1.IH" [OF True l Inr p refl refl this] show ?thesis by (auto split: if_splits)
    qed
  qed (use "1.prems" in \<open>subst (asm) parse_loop.simps, simp\<close>)
qed

lemma rtcp_parse_enc:
  assumes "list_all sub_wf ss" and "ss \<noteq> []"
  shows "rtcp_parse (concat (map enc_sub ss) @ tail) =
    parse_loop (concat (map enc_sub ss) @ tail) (length (concat (map enc_sub ss)))
      (concat (map sub_reports ss)) None"
proof -
  obtain s ss' where ss: "ss = s # ss'" using assms(2) by (cases ss) auto
  with assms(1) obtain b0 pt w body where "enc_sub s = b0 # pt # enc16 w @ body" "drop_bit 6 b0 = 2"
    using enc_sub_shape [of s] by auto
  then show ?thesis
    using parse_loop_enc [OF assms(1), of "[]" tail "[]" None] ss
    by (simp add: rtcp_parse_def common_header_len_def idx_def)
qed

section \<open>Round trip and salvage\<close>

text \<open>
  C25: every well-formed compound packet is read back: the reports come out in order with their
  blocks, sub-packets of other types are skipped by their length, and there is no error.
\<close>

theorem rtcp_parse_roundtrip:
  assumes "list_all sub_wf ss" and "ss \<noteq> []"
  shows "rtcp_parse (concat (map enc_sub ss)) = Some (concat (map sub_reports ss), None)"
  using rtcp_parse_enc [OF assms, of "[]"] by (subst (asm) parse_loop.simps) simp

definition sample_compound :: "sub_packet list" where
  "sample_compound =
     [SubReport 201 7 []
        [(9, \<lparr>rb_ssrc = 3735928559, rb_fraction_lost = 64, rb_cumulative_lost = - 5, rb_jitter = 160,
              rb_lsr = 1, rb_dlsr = 65536\<rparr>)],
      SubOther 129 202 [0, 0, 0, 7]]"

theorem rtcp_parse_roundtrip_witness:
  "rtcp_parse (concat (map enc_sub sample_compound)) =
     Some ([\<lparr>rep_type = 201, rep_blocks =
       [\<lparr>rb_ssrc = 3735928559, rb_fraction_lost = 64, rb_cumulative_lost = - 5, rb_jitter = 160,
         rb_lsr = 1, rb_dlsr = 65536\<rparr>]\<rparr>], None)"
  using rtcp_parse_roundtrip [of sample_compound]
  by (simp add: sample_compound_def block_wf_def dvd_eq_mod_eq_0)

text \<open>
  C33: salvage.  Whatever bytes follow the well-formed sub-packets of a compound packet, the reports
  decoded before them are returned; a malformed tail costs only itself.
\<close>

theorem rtcp_parse_salvage:
  assumes "list_all sub_wf ss" and "ss \<noteq> []"
  shows "\<exists>more err. rtcp_parse (concat (map enc_sub ss) @ tail)
    = Some (concat (map sub_reports ss) @ more, err)"
proof -
  obtain rs err where p: "rtcp_parse (concat (map enc_sub ss) @ tail) = Some (rs, err)"
    using rtcp_parse_total by blast
  with rtcp_parse_enc [OF assms, of tail] obtain more where "rs = concat (map sub_reports ss) @ more"
    using parse_loop_prefix by metis
  with p show ?thesis by blast
qed

theorem rtcp_parse_salvage_witness:
  "\<exists>more err. rtcp_parse (concat (map enc_sub sample_compound) @ [129, 201, 0, 40, 1])
    = Some (concat (map sub_reports sample_compound) @ more, err)"
  by (rule rtcp_parse_salvage) (simp_all add: sample_compound_def block_wf_def dvd_eq_mod_eq_0)

end
