(* ===== verification/Rtp_Stream.thy ===== *)
theory Rtp_Stream
  imports Prelude Rtp_Packet
begin

text \<open>
  Package \<open>internal/mediatracker\<close>, file \<open>stream.go\<close>: the statistics of one RTP stream (one SSRC):
  interarrival jitter, loss by gaps of the 16-bit sequence number, and the split of the losses
  into bursts and isolated gaps.  The counters are compared with a reference that sees the
  sender's unbounded sequence numbers (\<open>ext_ref\<close>): the wrapped 16-bit arithmetic of the code
  counts exactly what the reference counts, for as long as no restart is assumed.

  Go's \<open>float64\<close> is the type of reals here (rounding is not modelled), the \<open>uint64\<close> counters are
  natural numbers, and the sequence number and timestamp keep their widths.
\<close>

section \<open>State and operations\<close>

record stream_state =
  st_ssrc :: u32
  st_codec :: string
  st_clock_rate :: u32
  st_max_seq :: u16
  st_last_ts :: u32
  st_last_arrival :: time
  st_jitter_ticks :: real
  st_last_pdv_ms :: real
  st_total :: nat
  st_lost :: nat
  st_duplicate :: nat
  st_reorder :: nat
  st_burst_loss :: nat
  st_gap_loss :: nat
  st_loss_run :: nat
  st_has_prev :: bool

definition jitter_gain :: real where "jitter_gain = 16"
definition max_gap :: u16 where "max_gap = 1000"
definition seq_half :: u16 where "seq_half = 32768"
definition ms_per_sec :: real where "ms_per_sec = 1000"
definition burst_threshold :: nat where "burst_threshold = 3"
definition percent_scale :: real where "percent_scale = 100"

definition new_stream_state :: "u32 \<Rightarrow> string \<Rightarrow> u32 \<Rightarrow> time \<Rightarrow> stream_state" where
  "new_stream_state ssrc codec clock_rate now =
     \<lparr>st_ssrc = ssrc, st_codec = codec, st_clock_rate = clock_rate, st_max_seq = 0, st_last_ts = 0,
      st_last_arrival = now, st_jitter_ticks = 0, st_last_pdv_ms = 0, st_total = 0, st_lost = 0,
      st_duplicate = 0, st_reorder = 0, st_burst_loss = 0, st_gap_loss = 0, st_loss_run = 0,
      st_has_prev = False\<rparr>"

definition save_baseline :: "rtp_header \<Rightarrow> time \<Rightarrow> stream_state \<Rightarrow> stream_state" where
  "save_baseline h arrival s =
     s\<lparr>st_last_arrival := arrival, st_last_ts := h_timestamp h, st_has_prev := True\<rparr>"

text \<open>The transit difference of the packet to the baseline, in ticks of the RTP clock.\<close>

definition transit_delta :: "stream_state \<Rightarrow> rtp_header \<Rightarrow> time \<Rightarrow> int" where
  "transit_delta s h arrival =
     (let arrival_delta_ticks =
            go_div (wrap64 (time_sub arrival (st_last_arrival s) * uint (st_clock_rate s))) second;
          ts_delta = sint (h_timestamp h - st_last_ts s);
          d = arrival_delta_ticks - ts_delta
      in if d < 0 then - d else d)"

text \<open>\<open>updateJitter\<close>: the state with the smoothed jitter, and the packet's own delay variation.\<close>

definition update_jitter :: "rtp_header \<Rightarrow> time \<Rightarrow> stream_state \<Rightarrow> stream_state \<times> real" where
  "update_jitter h arrival s =
     (if st_clock_rate s = 0 then (s, 0)
      else let d = real_of_int (transit_delta s h arrival)
           in (s\<lparr>st_jitter_ticks := st_jitter_ticks s + (d - st_jitter_ticks s) / jitter_gain\<rparr>,
               d / real_of_int (uint (st_clock_rate s)) * ms_per_sec))"

definition classify_loss_run :: "stream_state \<Rightarrow> stream_state" where
  "classify_loss_run s =
     (if st_loss_run s = 0 then s
      else if burst_threshold \<le> st_loss_run s
      then s\<lparr>st_burst_loss := st_burst_loss s + st_loss_run s, st_loss_run := 0\<rparr>
      else s\<lparr>st_gap_loss := st_gap_loss s + st_loss_run s, st_loss_run := 0\<rparr>)"

definition stream_observe_raw :: "rtp_header \<Rightarrow> time \<Rightarrow> bool \<Rightarrow> stream_state \<Rightarrow> stream_state" where
  "stream_observe_raw h arrival is_audio s =
     (if \<not> st_has_prev s then
        save_baseline h arrival (s\<lparr>st_total := st_total s + 1, st_max_seq := h_sequence h\<rparr>)
      else let delta = h_sequence h - st_max_seq s in
        if seq_half \<le> delta then
          let s1 = s\<lparr>st_reorder := st_reorder s + 1\<rparr>
          in if is_audio then fst (update_jitter h arrival s1) else s1
        else if max_gap < delta then
          save_baseline h arrival
            (s\<lparr>st_jitter_ticks := 0, st_last_pdv_ms := 0, st_lost := 0, st_duplicate := 0,
               st_reorder := 0, st_burst_loss := 0, st_gap_loss := 0, st_loss_run := 0,
               st_total := 1, st_max_seq := h_sequence h\<rparr>)
        else if 0 < delta then
          let s1 = classify_loss_run s;
              s2 = (if is_audio then
                      let (s', pdv) = update_jitter h arrival s1
                      in save_baseline h arrival (s'\<lparr>st_last_pdv_ms := pdv\<rparr>)
                    else s1);
              s3 = s2\<lparr>st_total := st_total s2 + 1\<rparr>;
              s4 = (if 1 < delta then
                      s3\<lparr>st_lost := st_lost s3 + unat (delta - 1),
                         st_loss_run := st_loss_run s3 + (unat delta - 1)\<rparr>
                    else s3)
          in s4\<lparr>st_max_seq := h_sequence h\<rparr>
        else
          let s1 = s\<lparr>st_duplicate := st_duplicate s + 1\<rparr>
          in if is_audio then fst (update_jitter h arrival s1) else s1)"

definition observe_audio :: "rtp_header \<Rightarrow> time \<Rightarrow> stream_state \<Rightarrow> stream_state" where
  "observe_audio h arrival s = stream_observe_raw h arrival True s"

definition observe_non_audio :: "rtp_header \<Rightarrow> time \<Rightarrow> stream_state \<Rightarrow> stream_state" where
  "observe_non_audio h arrival s = stream_observe_raw h arrival False s"

definition jitter_ms :: "stream_state \<Rightarrow> real" where
  "jitter_ms s =
     (if st_clock_rate s = 0 then 0
      else st_jitter_ticks s / real_of_int (uint (st_clock_rate s)) * ms_per_sec)"

definition loss_rate :: "stream_state \<Rightarrow> real" where
  "loss_rate s =
     (let expected = st_total s + st_lost s
      in if expected = 0 then 0 else real (st_lost s) / real expected)"

definition burst_loss_density :: "stream_state \<Rightarrow> real" where
  "burst_loss_density s =
     (let total = st_burst_loss s + st_gap_loss s
      in if total = 0 then 0 else real (st_burst_loss s) / real total * percent_scale)"

definition gap_loss_density :: "stream_state \<Rightarrow> real" where
  "gap_loss_density s =
     (let total = st_burst_loss s + st_gap_loss s
      in if total = 0 then 0 else real (st_gap_loss s) / real total * percent_scale)"

text \<open>A packet as the tracker hands it to the stream, and a run of them.\<close>

record observation =
  ob_header :: rtp_header
  ob_arrival :: time
  ob_audio :: bool

definition observe_one :: "stream_state \<Rightarrow> observation \<Rightarrow> stream_state" where
  "observe_one s ob = stream_observe_raw (ob_header ob) (ob_arrival ob) (ob_audio ob) s"

definition observe_all :: "stream_state \<Rightarrow> observation list \<Rightarrow> stream_state" where
  "observe_all = foldl observe_one"

section \<open>Well-formed counters\<close>

definition stream_wf :: "stream_state \<Rightarrow> bool" where
  "stream_wf s \<longleftrightarrow>
     st_lost s = st_burst_loss s + st_gap_loss s + st_loss_run s \<and>
     st_loss_run s < 1000 \<and> 0 \<le> st_jitter_ticks s \<and>
     (st_has_prev s \<longrightarrow> 0 < st_total s) \<and> (\<not> st_has_prev s \<longrightarrow> st_lost s = 0)"

lemma transit_delta_nonneg: "0 \<le> transit_delta s h arrival"
  by (simp add: transit_delta_def Let_def)

lemma update_jitter_fields [simp]:
  "st_ssrc (fst (update_jitter h a s)) = st_ssrc s"
  "st_codec (fst (update_jitter h a s)) = st_codec s"
  "st_clock_rate (fst (update_jitter h a s)) = st_clock_rate s"
  "st_max_seq (fst (update_jitter h a s)) = st_max_seq s"
  "st_total (fst (update_jitter h a s)) = st_total s"
  "st_lost (fst (update_jitter h a s)) = st_lost s"
  "st_duplicate (fst (update_jitter h a s)) = st_duplicate s"
  "st_reorder (fst (update_jitter h a s)) = st_reorder s"
  "st_burst_loss (fst (update_jitter h a s)) = st_burst_loss s"
  "st_gap_loss (fst (update_jitter h a s)) = st_gap_loss s"
  "st_loss_run (fst (update_jitter h a s)) = st_loss_run s"
  "st_has_prev (fst (update_jitter h a s)) = st_has_prev s"
  by (simp_all add: update_jitter_def Let_def)

lemma update_jitter_nonneg:
  "0 \<le> st_jitter_ticks s \<Longrightarrow> 0 \<le> st_jitter_ticks (fst (update_jitter h a s))"
proof -
  assume "0 \<le> st_jitter_ticks s"
  moreover have "0 \<le> real_of_int (transit_delta s h a)" using transit_delta_nonneg by simp
  ultimately have "0 \<le> st_jitter_ticks s + (real_of_int (transit_delta s h a) - st_jitter_ticks s) / 16"
    by argo
  then show ?thesis
    using \<open>0 \<le> st_jitter_ticks s\<close> by (simp add: update_jitter_def Let_def jitter_gain_def)
qed

lemma update_jitter_le:
  assumes "st_jitter_ticks s \<le> B" and "real_of_int (transit_delta s h a) \<le> B"
  shows "st_jitter_ticks (fst (update_jitter h a s)) \<le> B"
proof -
  have "st_jitter_ticks s + (real_of_int (transit_delta s h a) - st_jitter_ticks s) / 16 \<le> B"
    using assms by argo
  then show ?thesis using assms(1) by (simp add: update_jitter_def Let_def jitter_gain_def)
qed

lemma classify_fields [simp]:
  "st_max_seq (classify_loss_run s) = st_max_seq s"
  "st_jitter_ticks (classify_loss_run s) = st_jitter_ticks s"
  "st_clock_rate (classify_loss_run s) = st_clock_rate s"
  "st_last_arrival (classify_loss_run s) = st_last_arrival s"
  "st_last_ts (classify_loss_run s) = st_last_ts s"
  "st_codec (classify_loss_run s) = st_codec s"
  "st_total (classify_loss_run s) = st_total s"
  "st_lost (classify_loss_run s) = st_lost s"
  "st_duplicate (classify_loss_run s) = st_duplicate s"
  "st_reorder (classify_loss_run s) = st_reorder s"
  "st_has_prev (classify_loss_run s) = st_has_prev s"
  "st_loss_run (classify_loss_run s) = 0"
  by (simp_all add: classify_loss_run_def)

lemma classify_loss [simp]:
  "st_burst_loss (classify_loss_run s) =
     st_burst_loss s + (if 3 \<le> st_loss_run s then st_loss_run s else 0)"
  "st_gap_loss (classify_loss_run s) =
     st_gap_loss s + (if 3 \<le> st_loss_run s then 0 else st_loss_run s)"
  by (simp_all add: classify_loss_run_def burst_threshold_def)

lemma classify_sum [simp]:
  "st_burst_loss (classify_loss_run s) + st_gap_loss (classify_loss_run s) =
     st_burst_loss s + st_gap_loss s + st_loss_run s"
  by simp

text \<open>The forward step: its counters, with the jitter update out of the way.\<close>

lemma observe_forward:
  fixes a :: time and aud :: bool
  assumes "st_has_prev s" and "0 < h_sequence h - st_max_seq s" and "h_sequence h - st_max_seq s \<le> max_gap"
  defines "s' \<equiv> stream_observe_raw h a aud s" and "g \<equiv> unat (h_sequence h - st_max_seq s) - 1"
  shows "st_has_prev s'" "st_max_seq s' = h_sequence h" "st_total s' = st_total s + 1"
    "st_lost s' = st_lost s + g" "st_loss_run s' = g"
    "st_duplicate s' = st_duplicate s" "st_reorder s' = st_reorder s"
    "st_burst_loss s' = st_burst_loss (classify_loss_run s)"
    "st_gap_loss s' = st_gap_loss (classify_loss_run s)"
    "st_jitter_ticks s' =
       (if aud then st_jitter_ticks (fst (update_jitter h a (classify_loss_run s))) else st_jitter_ticks s)"
proof -
  let ?d = "h_sequence h - st_max_seq s"
  have "\<not> seq_half \<le> ?d" "\<not> max_gap < ?d"
    using assms(3) by (auto simp: seq_half_def max_gap_def word_le_nat_alt word_less_nat_alt)
  moreover have "\<not> 1 < ?d \<Longrightarrow> g = 0"
    using assms(2) unfolding g_def by (auto simp: word_less_nat_alt)
  moreover have "unat (?d - 1) = g" using assms(2) by (simp add: g_def unat_minus_one word_gt_0)
  ultimately show "st_has_prev s'" "st_max_seq s' = h_sequence h" "st_total s' = st_total s + 1"
    "st_lost s' = st_lost s + g" "st_loss_run s' = g"
    "st_duplicate s' = st_duplicate s" "st_reorder s' = st_reorder s"
    "st_burst_loss s' = st_burst_loss (classify_loss_run s)"
    "st_gap_loss s' = st_gap_loss (classify_loss_run s)"
    "st_jitter_ticks s' =
       (if aud then st_jitter_ticks (fst (update_jitter h a (classify_loss_run s))) else st_jitter_ticks s)"
    using assms(1,2)
    by (auto simp: s'_def g_def stream_observe_raw_def Let_def save_baseline_def case_prod_beta)
qed

lemma observe_first:
  fixes a :: time and aud :: bool
  assumes "\<not> st_has_prev s"
  shows "stream_observe_raw h a aud s =
    save_baseline h a (s\<lparr>st_total := st_total s + 1, st_max_seq := h_sequence h\<rparr>)"
  using assms by (simp add: stream_observe_raw_def)

lemma observe_late:
  fixes a :: time
  assumes "st_has_prev s" and "seq_half \<le> h_sequence h - st_max_seq s"
  shows "stream_observe_raw h a aud s =
    (if aud then fst (update_jitter h a (s\<lparr>st_reorder := st_reorder s + 1\<rparr>))
     else s\<lparr>st_reorder := st_reorder s + 1\<rparr>)"
  using assms by (simp add: stream_observe_raw_def Let_def)

lemma observe_duplicate:
  fixes a :: time
  assumes "st_has_prev s" and "h_sequence h = st_max_seq s"
  shows "stream_observe_raw h a aud s =
    (if aud then fst (update_jitter h a (s\<lparr>st_duplicate := st_duplicate s + 1\<rparr>))
     else s\<lparr>st_duplicate := st_duplicate s + 1\<rparr>)"
  using assms by (simp add: stream_observe_raw_def Let_def seq_half_def max_gap_def)

lemma observe_restart:
  fixes a :: time
  assumes "st_has_prev s" and "\<not> seq_half \<le> h_sequence h - st_max_seq s"
    and "max_gap < h_sequence h - st_max_seq s"
  shows "stream_observe_raw h a aud s =
    save_baseline h a
      (s\<lparr>st_jitter_ticks := 0, st_last_pdv_ms := 0, st_lost := 0, st_duplicate := 0,
         st_reorder := 0, st_burst_loss := 0, st_gap_loss := 0, st_loss_run := 0,
         st_total := 1, st_max_seq := h_sequence h\<rparr>)"
  using assms by (simp add: stream_observe_raw_def Let_def)

lemma observe_cases [case_names First Late Restart Forward Duplicate]:
  assumes "\<not> st_has_prev s \<Longrightarrow> P"
    and "st_has_prev s \<Longrightarrow> seq_half \<le> h_sequence h - st_max_seq s \<Longrightarrow> P"
    and "st_has_prev s \<Longrightarrow> \<not> seq_half \<le> h_sequence h - st_max_seq s \<Longrightarrow>
      max_gap < h_sequence h - st_max_seq s \<Longrightarrow> P"
    and "st_has_prev s \<Longrightarrow> 0 < h_sequence h - st_max_seq s \<Longrightarrow>
      h_sequence h - st_max_seq s \<le> max_gap \<Longrightarrow> P"
    and "st_has_prev s \<Longrightarrow> h_sequence h = st_max_seq s \<Longrightarrow> P"
  shows P
proof -
  have "0 < h_sequence h - st_max_seq s \<or> h_sequence h = st_max_seq s"
    by (auto simp: word_gt_0)
  with assms show P by (meson not_le)
qed

lemma stream_wf_new: "stream_wf (new_stream_state ssrc codec rate now)"
  by (simp add: stream_wf_def new_stream_state_def)

lemma stream_wf_observe:
  assumes "stream_wf s"
  shows "stream_wf (stream_observe_raw h a aud s)"
proof (cases rule: observe_cases [where s = s and h = h])
  case First
  with assms show ?thesis by (simp add: observe_first stream_wf_def save_baseline_def)
next
  case Late
  with assms show ?thesis by (auto simp: observe_late stream_wf_def intro!: update_jitter_nonneg)
next
  case Restart
  then show ?thesis by (simp add: observe_restart stream_wf_def save_baseline_def)
next
  case Forward
  have "unat (h_sequence h - st_max_seq s) \<le> 1000"
    using Forward(3) by (simp add: max_gap_def word_le_nat_alt)
  with assms show ?thesis
    by (auto simp: stream_wf_def observe_forward [OF Forward] intro!: update_jitter_nonneg)
next
  case Duplicate
  with assms show ?thesis by (auto simp: observe_duplicate stream_wf_def intro!: update_jitter_nonneg)
qed

lemma stream_wf_all: "stream_wf s \<Longrightarrow> stream_wf (observe_all s obs)"
  by (induction obs arbitrary: s) (simp_all add: observe_all_def observe_one_def stream_wf_observe)

text \<open>
  C37: after any packets, in any order, the lost packets are exactly the burst losses, the gap
  losses and the run still open; the loss rate is a proper fraction, the two densities are
  percentages that add up to 100 once a run has been classified, and the jitter is not negative.
\<close>

theorem stream_loss_accounting:
  "let s = observe_all (new_stream_state ssrc codec rate now) obs in
    st_lost s = st_burst_loss s + st_gap_loss s + st_loss_run s \<and> st_loss_run s < 1000 \<and>
    0 \<le> loss_rate s \<and> loss_rate s < 1 \<and> 0 \<le> jitter_ms s \<and>
    (st_burst_loss s + st_gap_loss s = 0 \<and> burst_loss_density s = 0 \<and> gap_loss_density s = 0 \<or>
     0 \<le> burst_loss_density s \<and> 0 \<le> gap_loss_density s \<and>
       burst_loss_density s + gap_loss_density s = 100)"
proof -
  define s where "s = observe_all (new_stream_state ssrc codec rate now) obs"
  have wf: "stream_wf s" unfolding s_def by (intro stream_wf_all stream_wf_new)
  have rate: "0 \<le> loss_rate s" "loss_rate s < 1"
  proof -
    show "0 \<le> loss_rate s" by (simp add: loss_rate_def Let_def)
    have "st_lost s = 0 \<or> 0 < st_total s" using wf by (cases "st_has_prev s") (simp_all add: stream_wf_def)
    then show "loss_rate s < 1" by (auto simp: loss_rate_def Let_def)
  qed
  have dens: "burst_loss_density s + gap_loss_density s = 100" if "st_burst_loss s + st_gap_loss s \<noteq> 0"
  proof -
    have frac: "x / t * 100 + y / t * 100 = 100" if "t = x + y" "t \<noteq> 0" for x y t :: real
      using that by (metis add_divide_distrib distrib_right div_self mult_1)
    have "real (st_burst_loss s) / real (st_burst_loss s + st_gap_loss s) * 100 +
        real (st_gap_loss s) / real (st_burst_loss s + st_gap_loss s) * 100 = 100"
      by (rule frac [OF of_nat_add]) (use that in \<open>simp only: of_nat_eq_0_iff not_False_eq_True\<close>)
    then show ?thesis
      using that by (simp add: burst_loss_density_def gap_loss_density_def Let_def percent_scale_def)
  qed
  have "0 \<le> real_of_int (uint (st_clock_rate s))" by (simp only: of_int_0_le_iff uint_ge_0)
  then have "0 \<le> jitter_ms s"
    using wf by (simp add: jitter_ms_def stream_wf_def ms_per_sec_def)
  moreover have "0 \<le> burst_loss_density s" "0 \<le> gap_loss_density s"
    by (simp_all add: burst_loss_density_def gap_loss_density_def Let_def percent_scale_def)
  ultimately show ?thesis
    using wf rate dens unfolding s_def [symmetric] Let_def
    by (auto simp: stream_wf_def burst_loss_density_def gap_loss_density_def Let_def)
qed

section \<open>The reference with unbounded sequence numbers\<close>

text \<open>
  The reference is told the sender's extended sequence number of each packet (an integer that does
  not wrap).  It keeps the highest one, the gap before each forward packet (latest first), and
  counts late and duplicate packets.
\<close>

record ext_ref =
  er_base :: int
  er_max :: int
  er_gaps :: "nat list"
  er_late :: nat
  er_dup :: nat

definition ref_init :: "int \<Rightarrow> ext_ref" where
  "ref_init e = \<lparr>er_base = e, er_max = e, er_gaps = [], er_late = 0, er_dup = 0\<rparr>"

definition ref_step :: "ext_ref \<Rightarrow> int \<Rightarrow> ext_ref" where
  "ref_step r e =
     (if er_max r < e then r\<lparr>er_max := e, er_gaps := nat (e - er_max r - 1) # er_gaps r\<rparr>
      else if e = er_max r then r\<lparr>er_dup := er_dup r + 1\<rparr>
      else r\<lparr>er_late := er_late r + 1\<rparr>)"

text \<open>No packet is further from the highest than the window in which 16 bits identify it.\<close>

fun windowed :: "ext_ref \<Rightarrow> int list \<Rightarrow> bool" where
  "windowed r [] \<longleftrightarrow> True"
| "windowed r (e # es) \<longleftrightarrow>
     - 32768 \<le> e - er_max r \<and> e - er_max r \<le> 1000 \<and> windowed (ref_step r e) es"

definition counts_match :: "stream_state \<Rightarrow> ext_ref \<Rightarrow> bool" where
  "counts_match s r \<longleftrightarrow>
     st_has_prev s \<and> st_max_seq s = word_of_int (er_max r) \<and>
     st_total s = Suc (length (er_gaps r)) \<and> st_lost s = sum_list (er_gaps r) \<and>
     int (st_total s + st_lost s) = er_max r - er_base r + 1 \<and>
     st_duplicate s = er_dup r \<and> st_reorder s = er_late r \<and>
     st_loss_run s = (case er_gaps r of [] \<Rightarrow> 0 | g # _ \<Rightarrow> g) \<and>
     st_burst_loss s = sum_list (filter (\<lambda>g. 3 \<le> g) (tl (er_gaps r))) \<and>
     st_gap_loss s = sum_list (filter (\<lambda>g. g < 3) (tl (er_gaps r)))"

lemma seq_delta:
  assumes "- 32768 \<le> d" and "d < 32768"
  shows "seq_half \<le> (word_of_int d :: u16) \<longleftrightarrow> d < 0"
    and "0 \<le> d \<Longrightarrow> unat (word_of_int d :: u16) = nat d"
proof -
  have u: "uint (word_of_int d :: u16) = (if 0 \<le> d then d else d + 65536)"
  proof (cases "0 \<le> d")
    case False
    then have "(d + 65536) mod 65536 = d + 65536"
      using assms by (intro mod_pos_pos_trivial) simp_all
    with False show ?thesis by (simp add: uint_word_of_int_eq take_bit_eq_mod)
  qed (use assms in \<open>simp add: uint_word_of_int_eq take_bit_eq_mod\<close>)
  then show "seq_half \<le> (word_of_int d :: u16) \<longleftrightarrow> d < 0"
    using assms by (auto simp: word_le_def seq_half_def)
  show "0 \<le> d \<Longrightarrow> unat (word_of_int d :: u16) = nat d"
    using u by (metis unat_eq_nat_uint)
qed

lemma counts_match_step:
  assumes m: "counts_match s r" and w: "- 32768 \<le> e - er_max r" "e - er_max r \<le> 1000"
    and h: "h_sequence (ob_header ob) = word_of_int e"
  shows "counts_match (observe_one s ob) (ref_step r e)"
proof -
  let ?d = "h_sequence (ob_header ob) - st_max_seq s"
  have d: "?d = word_of_int (e - er_max r)"
    using m h by (simp add: counts_match_def of_int_diff)
  have p: "st_has_prev s" using m by (simp add: counts_match_def)
  consider "e < er_max r" | "e = er_max r" | "er_max r < e" by linarith
  then show ?thesis
  proof cases
    case 1
    then have "seq_half \<le> ?d" unfolding d by (subst seq_delta(1)) (use w in simp_all)
    with m 1 show ?thesis by (auto simp: observe_one_def observe_late p ref_step_def counts_match_def)
  next
    case 2
    then have "h_sequence (ob_header ob) = st_max_seq s" using m h by (simp add: counts_match_def)
    with m 2 show ?thesis by (auto simp: observe_one_def observe_duplicate p ref_step_def counts_match_def)
  next
    case 3
    have u: "unat ?d = nat (e - er_max r)" unfolding d by (rule seq_delta(2)) (use w 3 in simp_all)
    then have pos: "0 < ?d" using 3 by (simp add: word_gt_0 flip: unat_eq_0)
    have le: "?d \<le> max_gap" unfolding word_le_nat_alt u using w 3 by (simp add: max_gap_def)
    have g: "unat ?d - 1 = nat (e - er_max r - 1)" using u 3 by simp
    have sum: "int (Suc (st_total s) + (st_lost s + nat (e - er_max r - 1))) = e - er_base r + 1"
      using m 3 by (simp add: counts_match_def)
    define s' where "s' = stream_observe_raw (ob_header ob) (ob_arrival ob) (ob_audio ob) s"
    note f = observe_forward [OF p pos le, where a = "ob_arrival ob" and aud = "ob_audio ob",
        folded s'_def, unfolded g]
    have tot: "int (st_total s' + st_lost s') = e - er_base r + 1" using sum f by simp
    have "counts_match s' (ref_step r e)"
      unfolding counts_match_def
      by (intro conjI; cases "er_gaps r")
        (use m 3 h f tot in \<open>simp_all add: ref_step_def counts_match_def del: of_nat_add of_nat_Suc\<close>)
    then show ?thesis by (simp add: observe_one_def s'_def)
  qed
qed

lemma counts_match_all:
  assumes "counts_match s r" and "windowed r es"
    and "map (\<lambda>ob. h_sequence (ob_header ob)) obs = map word_of_int es"
  shows "counts_match (observe_all s obs) (foldl ref_step r es)"
  using assms
proof (induction obs arbitrary: s r es)
  case (Cons ob obs)
  then obtain e es' where es: "es = e # es'" by (cases es) auto
  with Cons.prems have "counts_match (observe_one s ob) (ref_step r e)"
    by (intro counts_match_step) auto
  with Cons es show ?case by (simp add: observe_all_def)
qed (simp add: observe_all_def)

text \<open>
  C13: the 16-bit arithmetic counts what the sender sent.  For a stream whose packets carry the low
  16 bits of their extended sequence numbers, and as long as no packet is more than 1000 ahead of
  or 32768 behind the highest one, the counters are those of the reference: received plus lost is
  the number of sequence numbers spanned, late packets are the reordered ones, equal ones the
  duplicates, and each gap of three or more is a burst once the next packet closes it.
\<close>

theorem stream_counts_extended:
  assumes "map (\<lambda>ob. h_sequence (ob_header ob)) obs = map word_of_int (e # es)"
    and "windowed (ref_init e) es"
  shows "counts_match (observe_all (new_stream_state ssrc codec rate now) obs)
    (foldl ref_step (ref_init e) es)"
proof -
  obtain ob obs' where obs: "obs = ob # obs'" using assms(1) by (cases obs) auto
  have "counts_match (observe_one (new_stream_state ssrc codec rate now) ob) (ref_init e)"
    using assms(1) obs
    by (simp add: observe_one_def observe_first new_stream_state_def save_baseline_def counts_match_def
        ref_init_def)
  with assms obs show ?thesis
    using counts_match_all [of _ "ref_init e" es obs'] by (simp add: observe_all_def)
qed

definition packet_of_seq :: "int \<Rightarrow> observation" where
  "packet_of_seq e =
     \<lparr>ob_header = \<lparr>h_version = 2, h_padding = False, h_extension = False, h_csrc_count = 0,
        h_marker = False, h_payload_type = 0, h_sequence = word_of_int e,
        h_timestamp = word_of_int (160 * e), h_ssrc = 7\<rparr>,
      ob_arrival = 20000000 * e, ob_audio = True\<rparr>"

theorem stream_counts_extended_witness:
  "counts_match (observe_all (new_stream_state 7 ''PCMU'' 8000 0)
       (map packet_of_seq [65534, 65535, 65540, 65536, 65540, 65541]))
     \<lparr>er_base = 65534, er_max = 65541, er_gaps = [0, 4, 0], er_late = 1, er_dup = 1\<rparr>"
  using stream_counts_extended
    [of "map packet_of_seq [65534, 65535, 65540, 65536, 65540, 65541]" 65534
        "[65535, 65540, 65536, 65540, 65541]" 7 "''PCMU''" 8000 0]
  by (simp add: packet_of_seq_def ref_init_def ref_step_def)

section \<open>Jitter\<close>

text \<open>
  The smoothing is a convex combination, so the jitter never leaves the range of the transit
  differences it averages.  \<open>deltas_within B\<close> says that every packet that updates the jitter differs
  from its baseline by at most \<open>B\<close> ticks.
\<close>

fun deltas_within :: "real \<Rightarrow> stream_state \<Rightarrow> observation list \<Rightarrow> bool" where
  "deltas_within B s [] \<longleftrightarrow> True"
| "deltas_within B s (ob # obs) \<longleftrightarrow>
     (st_has_prev s \<and> ob_audio ob \<longrightarrow>
        real_of_int (transit_delta s (ob_header ob) (ob_arrival ob)) \<le> B) \<and>
     deltas_within B (observe_one s ob) obs"

lemma transit_delta_cong:
  "st_last_arrival s = st_last_arrival s' \<Longrightarrow> st_last_ts s = st_last_ts s' \<Longrightarrow>
   st_clock_rate s = st_clock_rate s' \<Longrightarrow> transit_delta s h a = transit_delta s' h a"
  by (simp add: transit_delta_def)

lemma observe_jitter_le:
  assumes "0 \<le> B" and "st_jitter_ticks s \<le> B"
    and "st_has_prev s \<and> aud \<longrightarrow> real_of_int (transit_delta s h a) \<le> B"
  shows "st_jitter_ticks (stream_observe_raw h a aud s) \<le> B"
proof -
  have td: "transit_delta (s\<lparr>st_reorder := n\<rparr>) h a = transit_delta s h a"
    "transit_delta (s\<lparr>st_duplicate := n\<rparr>) h a = transit_delta s h a"
    "transit_delta (classify_loss_run s) h a = transit_delta s h a" for n
    by (rule transit_delta_cong; simp)+
  show ?thesis
  proof (cases rule: observe_cases [where s = s and h = h])
    case First
    with assms show ?thesis by (simp add: observe_first save_baseline_def)
  next
    case Late
    with assms show ?thesis by (auto simp: observe_late td intro!: update_jitter_le)
  next
    case Restart
    with assms show ?thesis by (simp add: observe_restart save_baseline_def)
  next
    case Forward
    with assms show ?thesis by (auto simp: observe_forward [OF Forward] td intro!: update_jitter_le)
  next
    case Duplicate
    with assms show ?thesis by (auto simp: observe_duplicate td intro!: update_jitter_le)
  qed
qed

text \<open>
  if no packet is off its baseline by more than \<open>B\<close> ticks, the smoothed jitter stays at most
  \<open>B\<close>; with \<open>B = 0\<close>, a stream that arrives exactly as its timestamps say has no jitter.
\<close>

theorem stream_jitter_bound:
  assumes "0 \<le> B" and "deltas_within B (new_stream_state ssrc codec rate now) obs"
  shows "st_jitter_ticks (observe_all (new_stream_state ssrc codec rate now) obs) \<le> B"
proof -
  have "st_jitter_ticks (observe_all s obs) \<le> B"
    if "deltas_within B s obs" "st_jitter_ticks s \<le> B" for s
    using that
  proof (induction obs arbitrary: s)
    case (Cons ob obs)
    then have "st_jitter_ticks (observe_one s ob) \<le> B"
      unfolding observe_one_def by (intro observe_jitter_le) (use assms(1) in auto)
    with Cons show ?case by (simp add: observe_all_def)
  qed (simp add: observe_all_def)
  with assms show ?thesis by (simp add: new_stream_state_def)
qed

theorem stream_jitter_bound_witness:
  "st_jitter_ticks (observe_all (new_stream_state 7 ''PCMU'' 8000 0) (map packet_of_seq [1, 2])) \<le> 0"
proof (rule stream_jitter_bound)
  have d: "go_div (wrap64 (time_sub 40000000 20000000 * 8000)) second = 160"
    by (simp add: time_sub_def min_duration_def max_duration_def wrap64_def go_div_def second_def)
  show "deltas_within 0 (new_stream_state 7 ''PCMU'' 8000 0) (map packet_of_seq [1, 2])"
    by (simp add: packet_of_seq_def new_stream_state_def observe_one_def stream_observe_raw_def
        save_baseline_def transit_delta_def Let_def d)
qed simp

end
