(* ===== verification/Mos_Model.thy ===== *)
theory Mos_Model
  imports Prelude
begin

text \<open>
  Package \<open>internal/mediatracker\<close>, file \<open>mos.go\<close>: the simplified E-model (ITU-T G.107) that turns
  codec, loss and jitter into an R-factor and a MOS, under four jitter-buffer assumptions.  The
  lemmas bound both scores, show that loss and jitter never improve the R-factor, and that a
  larger jitter buffer never lowers it.  Reals stand for \<open>float64\<close>.
\<close>

section \<open>The model\<close>

definition r0_factor :: real where "r0_factor = 93.2"
definition r_factor_max :: real where "r_factor_max = 100"
definition jb_ms_default :: real where "jb_ms_default = 60"
definition jb_ms_f1 :: real where "jb_ms_f1 = 50"
definition jb_ms_f2 :: real where "jb_ms_f2 = 200"
definition jb_ms_adapt :: real where "jb_ms_adapt = 500"
definition discard_cap :: real where "discard_cap = 0.5"
definition ie_scale :: real where "ie_scale = 95"

record codec_params =
  cp_ie :: real
  cp_bpl :: real

definition codec_params_of :: "string \<Rightarrow> codec_params" where
  "codec_params_of codec =
     (if codec \<in> {''PCMU'', ''PCMA'', ''G.722'', ''opus''} then \<lparr>cp_ie = 0, cp_bpl = 10\<rparr>
      else if codec = ''G.726-32'' then \<lparr>cp_ie = 7, cp_bpl = 19\<rparr>
      else if codec = ''G.723'' then \<lparr>cp_ie = 15, cp_bpl = 19\<rparr>
      else if codec \<in> {''G.728'', ''G.729''} then \<lparr>cp_ie = 11, cp_bpl = 19\<rparr>
      else \<lparr>cp_ie = 10, cp_bpl = 10\<rparr>)"

definition mos_from_r :: "real \<Rightarrow> real" where
  "mos_from_r r =
     (if r < 0 then 1
      else if r_factor_max < r then 4.5
      else 1 + 0.035 * r + 0.000007 * r * (r - 60) * (r_factor_max - r))"

definition ie_eff :: "codec_params \<Rightarrow> real \<Rightarrow> real" where
  "ie_eff p loss_rate =
     (let l = (if loss_rate < 0 then 0 else loss_rate)
      in cp_ie p + (ie_scale - cp_ie p) * l / (l / cp_bpl p + 1))"

definition jitter_discard_rate :: "real \<Rightarrow> real \<Rightarrow> real" where
  "jitter_discard_rate jitter_ms jb_ms =
     (if jitter_ms \<le> jb_ms then 0
      else let r = (jitter_ms - jb_ms) / jb_ms in if discard_cap < r then discard_cap else r)"

definition compute_r_factor_jb :: "string \<Rightarrow> real \<Rightarrow> real \<Rightarrow> real \<Rightarrow> real" where
  "compute_r_factor_jb codec loss_rate jitter_ms jb_ms =
     (let p = codec_params_of codec;
          e = loss_rate + jitter_discard_rate jitter_ms jb_ms;
          eff_loss = (if 1 < e then 1 else if e < 0 then 0 else e);
          r = r0_factor - ie_eff p eff_loss
      in if r < 0 then 0 else if r_factor_max < r then r_factor_max else r)"

definition compute_r_factor :: "string \<Rightarrow> real \<Rightarrow> real \<Rightarrow> real" where
  "compute_r_factor codec loss_rate jitter_ms =
     compute_r_factor_jb codec loss_rate jitter_ms jb_ms_default"

definition compute_mos :: "string \<Rightarrow> real \<Rightarrow> real \<Rightarrow> real" where
  "compute_mos codec loss_rate jitter_ms = mos_from_r (compute_r_factor codec loss_rate jitter_ms)"

definition compute_mos_f1 :: "string \<Rightarrow> real \<Rightarrow> real \<Rightarrow> real" where
  "compute_mos_f1 codec loss_rate jitter_ms =
     mos_from_r (compute_r_factor_jb codec loss_rate jitter_ms jb_ms_f1)"

definition compute_mos_f2 :: "string \<Rightarrow> real \<Rightarrow> real \<Rightarrow> real" where
  "compute_mos_f2 codec loss_rate jitter_ms =
     mos_from_r (compute_r_factor_jb codec loss_rate jitter_ms jb_ms_f2)"

definition compute_mos_adaptive :: "string \<Rightarrow> real \<Rightarrow> real \<Rightarrow> real" where
  "compute_mos_adaptive codec loss_rate jitter_ms =
     mos_from_r (compute_r_factor_jb codec loss_rate jitter_ms jb_ms_adapt)"

section \<open>Bounds\<close>

lemma codec_params_bounds:
  "0 \<le> cp_ie (codec_params_of c)" "cp_ie (codec_params_of c) \<le> 15" "10 \<le> cp_bpl (codec_params_of c)"
  by (simp_all add: codec_params_of_def)

lemma r_factor_range:
  "0 \<le> compute_r_factor_jb codec l j jb \<and> compute_r_factor_jb codec l j jb \<le> 100"
  by (auto simp: compute_r_factor_jb_def Let_def r_factor_max_def)

text \<open>The G.107 polynomial over a common denominator.\<close>

definition mos_poly :: "real \<Rightarrow> real" where
  "mos_poly r = 1120 * (r * r) - 7 * (r * r * r) - 7000 * r"

lemma mos_from_r_poly:
  assumes "0 \<le> r" and "r \<le> 100"
  shows "mos_from_r r = 1 + mos_poly r / 1000000"
proof -
  have "0.035 * r + 0.000007 * r * (r - 60) * (100 - r) = (35000 * r + 7 * (r * ((r - 60) * (100 - r)))) / 1000000"
    by simp
  also have "35000 * r + 7 * (r * ((r - 60) * (100 - r))) = mos_poly r"
    by (simp add: mos_poly_def algebra_simps)
  finally show ?thesis using assms by (simp add: mos_from_r_def r_factor_max_def)
qed

lemma mos_poly_upper:
  assumes "0 \<le> r" and "r \<le> 100"
  shows "mos_poly r \<le> 3500000"
proof -
  have "0 \<le> (100 - r) * (r + 40)" using assms by simp
  then have "0 \<le> 4000 + 60 * r - r * r" by (simp add: algebra_simps)
  then have "0 \<le> (100 - r) * (35000 - 7 * (r * r) + 420 * r)"
    using assms by (intro mult_nonneg_nonneg) simp_all
  then show ?thesis by (simp add: mos_poly_def algebra_simps)
qed

lemma mos_poly_lower:
  assumes "0 \<le> r" and "r \<le> 100"
  shows "- 12000 \<le> mos_poly r"
proof (cases "r \<le> 10")
  case True
  have "0 \<le> r * r * (10 - r)" using True assms by simp
  moreover have "0 \<le> (3 * r - 10) * (3 * r - 10)" by (rule zero_le_square)
  ultimately show ?thesis using assms unfolding mos_poly_def by (simp add: algebra_simps)
next
  case False
  then have "0 \<le> 7 * (r * ((r - 10) * (100 - r))) + 350 * (r * r)"
    using assms by (intro add_nonneg_nonneg) simp_all
  also have "\<dots> = mos_poly r" by (simp add: mos_poly_def algebra_simps)
  finally show ?thesis by simp
qed


text \<open>
  the score can leave the documented range \<open>1.0\<close>-\<open>4.5\<close> at its lower end: with the default
  parameters of an unknown codec, total loss gives a MOS below 1.
\<close>

theorem mos_below_documented_minimum: "compute_mos ''other'' 1 0 < 1"
  by (simp add: compute_mos_def compute_r_factor_def compute_r_factor_jb_def mos_from_r_def
      codec_params_of_def ie_eff_def jitter_discard_rate_def Let_def r0_factor_def r_factor_max_def
      ie_scale_def jb_ms_default_def)

section \<open>Monotonicity\<close>

lemma cross_mult_le:
  "0 < y \<Longrightarrow> 0 < y' \<Longrightarrow> x * y' \<le> x' * y \<Longrightarrow> x / y \<le> x' / y'" for x y x' y' :: real
  by (simp add: divide_simps mult.commute)

lemma ie_eff_mono:
  assumes "0 \<le> l" and "l \<le> l'"
  shows "ie_eff (codec_params_of c) l \<le> ie_eff (codec_params_of c) l'"
proof -
  define b where "b = cp_bpl (codec_params_of c)"
  define i where "i = cp_ie (codec_params_of c)"
  have b: "10 \<le> b" and i: "i \<le> 15" using codec_params_bounds [of c] by (simp_all add: b_def i_def)
  have frac: "l / (l / b + 1) \<le> l' / (l' / b + 1)"
  proof (rule cross_mult_le)
    show "0 < l / b + 1" using assms b by (simp add: add_nonneg_pos)
    show "0 < l' / b + 1" using assms b by (simp add: add_nonneg_pos)
    show "l * (l' / b + 1) \<le> l' * (l / b + 1)" using assms by (simp add: algebra_simps)
  qed
  have "(95 - i) * (l / (l / b + 1)) \<le> (95 - i) * (l' / (l' / b + 1))"
    using frac i by (intro mult_left_mono) simp_all
  then show ?thesis using assms by (simp add: ie_eff_def Let_def ie_scale_def flip: b_def i_def)
qed

lemma discard_range: "0 < jb \<Longrightarrow> 0 \<le> jitter_discard_rate j jb \<and> jitter_discard_rate j jb \<le> 0.5"
  by (auto simp: jitter_discard_rate_def Let_def discard_cap_def)

lemma discard_mono:
  assumes "0 < jb'" and "jb' \<le> jb" and "j \<le> j'" and "0 \<le> j"
  shows "jitter_discard_rate j jb \<le> jitter_discard_rate j' jb'"
proof (cases "j \<le> jb")
  case True
  then show ?thesis
    using discard_range [OF assms(1), of j'] by (simp add: jitter_discard_rate_def)
next
  case False
  have "(j - jb) / jb = j / jb - 1" "(j' - jb') / jb' = j' / jb' - 1"
    using assms by (simp_all add: diff_divide_distrib)
  moreover have "j / jb \<le> j' / jb'" using assms by (intro frac_le) simp_all
  ultimately show ?thesis using False assms by (auto simp: jitter_discard_rate_def Let_def)
qed

lemma r_factor_antimono:
  assumes "l \<le> l'" and "0 \<le> j" and "j \<le> j'" and "0 < jb'" and "jb' \<le> jb"
  shows "compute_r_factor_jb codec l' j' jb' \<le> compute_r_factor_jb codec l j jb"
proof -
  define clamp :: "real \<Rightarrow> real" where "clamp = (\<lambda>e. if 1 < e then 1 else if e < 0 then 0 else e)"
  have "l + jitter_discard_rate j jb \<le> l' + jitter_discard_rate j' jb'"
    using assms by (intro add_mono discard_mono) simp_all
  then have "clamp (l + jitter_discard_rate j jb) \<le> clamp (l' + jitter_discard_rate j' jb')"
    by (simp add: clamp_def)
  moreover have "0 \<le> clamp e" for e by (simp add: clamp_def)
  ultimately have le: "ie_eff (codec_params_of codec) (clamp (l + jitter_discard_rate j jb))
      \<le> ie_eff (codec_params_of codec) (clamp (l' + jitter_discard_rate j' jb'))"
    by (intro ie_eff_mono)
  have r: "compute_r_factor_jb codec l j jb = max 0 (min 100
      (r0_factor - ie_eff (codec_params_of codec) (clamp (l + jitter_discard_rate j jb))))" for l j jb
    by (auto simp: compute_r_factor_jb_def Let_def r_factor_max_def clamp_def)
  show ?thesis unfolding r using le by (intro max.mono min.mono) simp_all
qed

lemma mos_poly_mono:
  assumes "4 \<le> a" and "a \<le> b" and "b \<le> 100"
  shows "mos_from_r a \<le> mos_from_r b"
proof -
  have sq: "0 \<le> (a - 4) * (100 - a)" "0 \<le> (b - 4) * (100 - b)" "0 \<le> (a - 4) * (100 - b)"
    "0 \<le> (b - 4) * (100 - a)"
    using assms by simp_all
  have "a * a + a * b + b * b \<le> 156 * (a + b) - 1200"
    using sq by (simp add: algebra_simps)
  then have "0 \<le> 1120 * (a + b) - 7 * (a * a + a * b + b * b) - 7000"
    using assms by argo
  then have "0 \<le> (b - a) * (1120 * (a + b) - 7 * (a * a + a * b + b * b) - 7000)"
    using assms by (intro mult_nonneg_nonneg) simp_all
  also have "\<dots> = mos_poly b - mos_poly a" by (simp add: mos_poly_def algebra_simps)
  finally show ?thesis using assms by (simp add: mos_from_r_poly)
qed

text \<open>
  the R-factor never improves when loss or jitter grows, and the four jitter-buffer
  assumptions are ordered: the strict buffer (F1) scores lowest, the adaptive one highest.
\<close>

theorem r_factor_monotone:
  assumes "l \<le> l'" and "0 \<le> j" and "j \<le> j'"
  shows "compute_r_factor codec l' j' \<le> compute_r_factor codec l j \<and>
    compute_r_factor_jb codec l j jb_ms_f1 \<le> compute_r_factor codec l j \<and>
    compute_r_factor codec l j \<le> compute_r_factor_jb codec l j jb_ms_f2 \<and>
    compute_r_factor_jb codec l j jb_ms_f2 \<le> compute_r_factor_jb codec l j jb_ms_adapt"
  using assms unfolding compute_r_factor_def
  by (auto simp: jb_ms_default_def jb_ms_f1_def jb_ms_f2_def jb_ms_adapt_def intro!: r_factor_antimono)

theorem r_factor_monotone_witness:
  "compute_r_factor ''PCMU'' 0.1 90 \<le> compute_r_factor ''PCMU'' 0.02 30"
  using r_factor_monotone [of "0.02" "0.1" 30 90 "''PCMU''"] by simp

text \<open>
  the MOS orders the same way above the dip of the G.107 polynomial: while the strict buffer's
  R-factor is at least 4, the four scores are ordered.
\<close>

theorem mos_buffers_ordered:
  assumes "0 \<le> j" and "4 \<le> compute_r_factor_jb codec l j jb_ms_f1"
  shows "compute_mos_f1 codec l j \<le> compute_mos codec l j \<and>
    compute_mos codec l j \<le> compute_mos_f2 codec l j \<and>
    compute_mos_f2 codec l j \<le> compute_mos_adaptive codec l j"
proof -
  have le: "compute_r_factor_jb codec l j jb' \<le> compute_r_factor_jb codec l j jb"
    if "0 < jb'" "jb' \<le> jb" for jb jb'
    using that assms(1) by (intro r_factor_antimono) simp_all
  have mono: "mos_from_r (compute_r_factor_jb codec l j jb') \<le> mos_from_r (compute_r_factor_jb codec l j jb)"
    if "50 \<le> jb'" "jb' \<le> jb" for jb jb'
    using that le [of jb' jb] le [of 50 jb'] assms(2) r_factor_range [of codec l j jb]
    by (intro mos_poly_mono) (simp_all add: jb_ms_f1_def)
  show ?thesis
    by (auto simp: compute_mos_f1_def compute_mos_def compute_mos_f2_def compute_mos_adaptive_def
        compute_r_factor_def jb_ms_default_def jb_ms_f1_def jb_ms_f2_def jb_ms_adapt_def intro!: mono)
qed

theorem mos_buffers_ordered_witness:
  "compute_mos_f1 ''G.729'' 0.05 70 \<le> compute_mos ''G.729'' 0.05 70"
proof -
  have "4 \<le> compute_r_factor_jb ''G.729'' 0.05 70 jb_ms_f1"
    by (simp add: compute_r_factor_jb_def codec_params_of_def ie_eff_def jitter_discard_rate_def
        Let_def r0_factor_def r_factor_max_def ie_scale_def jb_ms_f1_def discard_cap_def)
  then show ?thesis using mos_buffers_ordered [of 70 "''G.729''" "0.05"] by simp
qed

end
