(* ===== verification/Dialog_Store.thy ===== *)
theory Dialog_Store
  imports Prelude
begin

text \<open>
  Package \<open>internal/service\<close>, file \<open>dialogs.go\<close>: the store of active SIP dialogs behind the
  \<open>Dialoger\<close> interface.  The interface is the locale \<open>dialog_store\<close>: what each operation does to the
  expiry time of every dialog.  Its client lemma, that any run of operations behaves like a partial
  map from dialog ids to expiry times, is proved there once and holds of the Go store by
  interpretation.  The mutex makes every operation one step.
\<close>

section \<open>The store\<close>

record dialog_entry =
  de_expires_at :: time
  de_created_at :: time
  de_carrier :: string
  de_ua_type :: string
  de_source_country :: string
  de_destination_country :: string
  de_direction :: string
  de_call_id :: string

record dialog_params =
  dp_dialog_id :: string
  dp_expires_at :: time
  dp_created_at :: time
  dp_carrier :: string
  dp_ua_type :: string
  dp_source_country :: string
  dp_destination_country :: string
  dp_direction :: string
  dp_call_id :: string

record cleanup_result =
  cr_duration :: duration
  cr_carrier :: string
  cr_ua_type :: string
  cr_source_country :: string
  cr_destination_country :: string
  cr_direction :: string
  cr_call_id :: string

text \<open>\<open>LabeledCount\<close> of \<open>metrics.go\<close>: Prometheus labels and a count.\<close>

record labeled_count =
  lc_labels :: "(string, string) gomap"
  lc_count :: nat

type_synonym dialogs = "(string, dialog_entry) gomap"

definition new_dialoger :: dialogs where "new_dialoger = []"

definition zero_cleanup :: cleanup_result where
  "zero_cleanup = \<lparr>cr_duration = 0, cr_carrier = [], cr_ua_type = [], cr_source_country = [],
     cr_destination_country = [], cr_direction = [], cr_call_id = []\<rparr>"

definition cleanup_of :: "duration \<Rightarrow> dialog_entry \<Rightarrow> cleanup_result" where
  "cleanup_of d e = \<lparr>cr_duration = d, cr_carrier = de_carrier e, cr_ua_type = de_ua_type e,
     cr_source_country = de_source_country e, cr_destination_country = de_destination_country e,
     cr_direction = de_direction e, cr_call_id = de_call_id e\<rparr>"

definition dialog_delete :: "string \<Rightarrow> time \<Rightarrow> dialogs \<Rightarrow> cleanup_result \<times> dialogs" where
  "dialog_delete did now c =
     (case mget c did of
        None \<Rightarrow> (zero_cleanup, c)
      | Some e \<Rightarrow>
          let c' = mdel did c; d = time_sub now (de_created_at e)
          in if d < 0 then (cleanup_of 0 e, c') else (cleanup_of d e, c'))"

definition dialog_create :: "dialog_params \<Rightarrow> dialogs \<Rightarrow> dialogs" where
  "dialog_create p c =
     (if mget c (dp_dialog_id p) = None then
        mput (dp_dialog_id p)
          \<lparr>de_expires_at = dp_expires_at p, de_created_at = dp_created_at p,
           de_carrier = dp_carrier p, de_ua_type = dp_ua_type p,
           de_source_country = dp_source_country p,
           de_destination_country = dp_destination_country p,
           de_direction = dp_direction p, de_call_id = dp_call_id p\<rparr> c
      else c)"

definition dialog_has :: "string \<Rightarrow> dialogs \<Rightarrow> bool" where
  "dialog_has did c \<longleftrightarrow> mget c did \<noteq> None"

definition dialog_refresh :: "string \<Rightarrow> time \<Rightarrow> dialogs \<Rightarrow> bool \<times> dialogs" where
  "dialog_refresh did expires_at c =
     (case mget c did of
        None \<Rightarrow> (False, c)
      | Some e \<Rightarrow> (True, mput did (e\<lparr>de_expires_at := expires_at\<rparr>) c))"

definition dialog_size :: "dialogs \<Rightarrow> nat" where
  "dialog_size c = length c"

definition dialog_label_key :: "dialog_entry \<Rightarrow> string \<times> string \<times> string \<times> string" where
  "dialog_label_key e = (de_carrier e, de_ua_type e, de_source_country e, de_direction e)"

definition dialog_labels :: "string \<times> string \<times> string \<times> string \<Rightarrow> (string, string) gomap" where
  "dialog_labels = (\<lambda>(carrier, ua, country, direction).
     [(''carrier'', carrier), (''ua_type'', ua), (''source_country'', country),
      (''direction'', direction)])"

definition dialog_counts :: "dialogs \<Rightarrow> labeled_count list" where
  "dialog_counts c =
     map (\<lambda>(k, n). \<lparr>lc_labels = dialog_labels k, lc_count = n\<rparr>)
       (mtally (map (\<lambda>(did, e). dialog_label_key e) c))"

text \<open>\<open>Cleanup\<close>: the walk over the map, with the results it appends.\<close>

fun dialog_cleanup_walk :: "time \<Rightarrow> dialogs \<Rightarrow> cleanup_result list \<times> dialogs" where
  "dialog_cleanup_walk now [] = ([], [])"
| "dialog_cleanup_walk now ((did, e) # c) =
     (let (rs, c') = dialog_cleanup_walk now c in
      if de_expires_at e < now then
        let d = time_sub now (de_created_at e)
        in ((if 0 < d then cleanup_of d e # rs else rs), c')
      else (rs, (did, e) # c'))"

definition dialog_cleanup :: "time \<Rightarrow> dialogs \<Rightarrow> cleanup_result list \<times> dialogs" where
  "dialog_cleanup now c = dialog_cleanup_walk now c"

section \<open>The interface\<close>

text \<open>What a client sees of a store: the expiry time of each dialog it holds.\<close>

locale dialog_store =
  fixes wf :: "'s \<Rightarrow> bool"
    and expiry :: "'s \<Rightarrow> string \<Rightarrow> time option"
    and create :: "dialog_params \<Rightarrow> 's \<Rightarrow> 's"
    and refresh :: "string \<Rightarrow> time \<Rightarrow> 's \<Rightarrow> bool \<times> 's"
    and delete :: "string \<Rightarrow> time \<Rightarrow> 's \<Rightarrow> cleanup_result \<times> 's"
    and cleanup :: "time \<Rightarrow> 's \<Rightarrow> cleanup_result list \<times> 's"
  assumes wf_create: "wf s \<Longrightarrow> wf (create p s)"
    and wf_refresh: "wf s \<Longrightarrow> wf (snd (refresh did t s))"
    and wf_delete: "wf s \<Longrightarrow> wf (snd (delete did t s))"
    and wf_cleanup: "wf s \<Longrightarrow> wf (snd (cleanup t s))"
    and expiry_create: "wf s \<Longrightarrow> expiry (create p s) did =
      (if did = dp_dialog_id p \<and> expiry s did = None then Some (dp_expires_at p) else expiry s did)"
    and expiry_refresh: "wf s \<Longrightarrow> expiry (snd (refresh did t s)) did' =
      (if did' = did \<and> expiry s did \<noteq> None then Some t else expiry s did')"
    and refresh_found: "wf s \<Longrightarrow> fst (refresh did t s) \<longleftrightarrow> expiry s did \<noteq> None"
    and expiry_delete: "wf s \<Longrightarrow> expiry (snd (delete did t s)) did' = (if did' = did then None else expiry s did')"
    and expiry_cleanup: "wf s \<Longrightarrow> expiry (snd (cleanup t s)) did =
      (case expiry s did of None \<Rightarrow> None | Some x \<Rightarrow> if x < t then None else Some x)"

datatype dialog_op =
    OpCreate dialog_params
  | OpRefresh string time
  | OpDelete string time
  | OpCleanup time

text \<open>The specification: a partial map from dialog ids to expiry times.\<close>

fun spec_op :: "(string \<Rightarrow> time option) \<Rightarrow> dialog_op \<Rightarrow> string \<Rightarrow> time option" where
  "spec_op m (OpCreate p) = (if m (dp_dialog_id p) = None then m(dp_dialog_id p \<mapsto> dp_expires_at p) else m)"
| "spec_op m (OpRefresh did t) = (if m did = None then m else m(did \<mapsto> t))"
| "spec_op m (OpDelete did t) = m(did := None)"
| "spec_op m (OpCleanup t) = (\<lambda>did. case m did of None \<Rightarrow> None | Some x \<Rightarrow> if x < t then None else Some x)"

fun op_of :: "(dialog_params \<Rightarrow> 's \<Rightarrow> 's) \<Rightarrow> (string \<Rightarrow> time \<Rightarrow> 's \<Rightarrow> bool \<times> 's) \<Rightarrow>
    (string \<Rightarrow> time \<Rightarrow> 's \<Rightarrow> cleanup_result \<times> 's) \<Rightarrow> (time \<Rightarrow> 's \<Rightarrow> cleanup_result list \<times> 's) \<Rightarrow>
    's \<Rightarrow> dialog_op \<Rightarrow> 's" where
  "op_of cr rf dl cl s (OpCreate p) = cr p s"
| "op_of cr rf dl cl s (OpRefresh did t) = snd (rf did t s)"
| "op_of cr rf dl cl s (OpDelete did t) = snd (dl did t s)"
| "op_of cr rf dl cl s (OpCleanup t) = snd (cl t s)"

context dialog_store begin

lemma wf_op: "wf s \<Longrightarrow> wf (op_of create refresh delete cleanup s d)"
  by (cases d) (simp_all add: wf_create wf_refresh wf_delete wf_cleanup)

lemma expiry_op: "wf s \<Longrightarrow> expiry (op_of create refresh delete cleanup s d) = spec_op (expiry s) d"
  by (cases d) (auto simp: fun_eq_iff expiry_create expiry_refresh expiry_delete expiry_cleanup)

lemma run_refines:
  "wf s \<Longrightarrow> expiry (foldl (op_of create refresh delete cleanup) s ops) = foldl spec_op (expiry s) ops"
  by (induction ops arbitrary: s) (simp_all add: wf_op expiry_op)

lemma run_wf: "wf s \<Longrightarrow> wf (foldl (op_of create refresh delete cleanup) s ops)"
  by (induction ops arbitrary: s) (simp_all add: wf_op)

end

section \<open>The Go store implements the interface\<close>

definition dialog_expiry :: "dialogs \<Rightarrow> string \<Rightarrow> time option" where
  "dialog_expiry c did = map_option de_expires_at (mget c did)"

lemma cleanup_walk_store:
  "snd (dialog_cleanup_walk now c) = mdrop (\<lambda>did e. de_expires_at e < now) c"
  by (induction c rule: dialog_cleanup_walk.induct) (auto simp: mdrop_def Let_def split: prod.splits)

lemma cleanup_walk_results:
  "fst (dialog_cleanup_walk now c) =
     map (\<lambda>(did, e). cleanup_of (time_sub now (de_created_at e)) e)
       (filter (\<lambda>(did, e). de_expires_at e < now \<and> de_created_at e < now) c)"
  by (induction c rule: dialog_cleanup_walk.induct)
    (auto simp: Let_def time_sub_pos split: prod.splits)

lemma dialog_expiry_simps:
  "dialog_expiry (mput k e c) did = (if did = k then Some (de_expires_at e) else dialog_expiry c did)"
  "dialog_expiry (mdel k c) did = (if did = k then None else dialog_expiry c did)"
  "mwf c \<Longrightarrow> dialog_expiry (snd (dialog_cleanup now c)) did =
     (case dialog_expiry c did of None \<Rightarrow> None | Some x \<Rightarrow> if x < now then None else Some x)"
  by (simp_all add: dialog_expiry_def dialog_cleanup_def cleanup_walk_store mget_mdrop split: option.splits)

lemma dialog_expiry_None: "dialog_expiry c did = None \<longleftrightarrow> mget c did = None"
  by (simp add: dialog_expiry_def)

interpretation dlg: dialog_store mwf dialog_expiry dialog_create dialog_refresh dialog_delete dialog_cleanup
proof unfold_locales
  fix s :: dialogs and t now p did did'
  assume wf: "mwf s"
  then show "mwf (dialog_create p s)" by (simp add: dialog_create_def)
  from wf show "mwf (snd (dialog_refresh did t s))"
    by (simp add: dialog_refresh_def split: option.split)
  from wf show "mwf (snd (dialog_delete did t s))"
    by (simp add: dialog_delete_def Let_def split: option.split)
  from wf show "mwf (snd (dialog_cleanup t s))"
    by (simp add: dialog_cleanup_def cleanup_walk_store)
  show "dialog_expiry (dialog_create p s) did =
      (if did = dp_dialog_id p \<and> dialog_expiry s did = None then Some (dp_expires_at p)
       else dialog_expiry s did)"
    by (auto simp: dialog_create_def dialog_expiry_simps dialog_expiry_None)
  show "dialog_expiry (snd (dialog_refresh did t s)) did' =
      (if did' = did \<and> dialog_expiry s did \<noteq> None then Some t else dialog_expiry s did')"
    by (auto simp: dialog_refresh_def dialog_expiry_simps dialog_expiry_None split: option.split)
  show "fst (dialog_refresh did t s) \<longleftrightarrow> dialog_expiry s did \<noteq> None"
    by (auto simp: dialog_refresh_def dialog_expiry_None split: option.split)
  show "dialog_expiry (snd (dialog_delete did t s)) did' =
      (if did' = did then None else dialog_expiry s did')"
    by (auto simp: dialog_delete_def dialog_expiry_simps dialog_expiry_None Let_def split: option.split)
  show "dialog_expiry (snd (dialog_cleanup t s)) did =
      (case dialog_expiry s did of None \<Rightarrow> None | Some x \<Rightarrow> if x < t then None else Some x)"
    by (rule dialog_expiry_simps(3) [OF wf])
qed

abbreviation run_dialogs :: "dialogs \<Rightarrow> dialog_op list \<Rightarrow> dialogs" where
  "run_dialogs \<equiv> foldl (op_of dialog_create dialog_refresh dialog_delete dialog_cleanup)"

text \<open>
  C35: refinement.  After any sequence of creates, refreshes, deletes and cleanups the store holds
  exactly the dialogs, with exactly the expiry times, of the partial map of the specification: a
  second create never overwrites, a refresh moves only the expiry of a live dialog, a cleanup
  drops exactly the dialogs whose expiry has passed.
\<close>

theorem dialogs_refine_map:
  "dialog_expiry (run_dialogs new_dialoger ops) = foldl spec_op Map.empty ops"
proof -
  have "dialog_expiry new_dialoger = Map.empty"
    by (simp add: dialog_expiry_def new_dialoger_def fun_eq_iff)
  then show ?thesis using dlg.run_refines [of new_dialoger ops] by (simp add: new_dialoger_def)
qed

lemma dialogs_wf: "mwf (run_dialogs new_dialoger ops)"
  by (rule dlg.run_wf) (simp add: new_dialoger_def)

text \<open>
  \<open>Cleanup\<close> reports exactly one result for each dialog that it removes and that was created
  before now, with the labels of that dialog and its age.
\<close>

theorem dialog_cleanup_results:
  "fst (dialog_cleanup now c) =
     map (\<lambda>(did, e). cleanup_of (time_sub now (de_created_at e)) e)
       (filter (\<lambda>(did, e). de_expires_at e < now \<and> de_created_at e < now) c) \<and>
   snd (dialog_cleanup now c) = filter (\<lambda>(did, e). now \<le> de_expires_at e) c"
proof -
  have "filter (\<lambda>(did, e). \<not> de_expires_at e < now) c = filter (\<lambda>(did, e). now \<le> de_expires_at e) c"
    by (rule filter_cong) auto
  then show ?thesis
    by (simp add: dialog_cleanup_def cleanup_walk_results cleanup_walk_store mdrop_def)
qed

text \<open>
  \<open>Counts\<close> partitions the dialogs by their four labels: one entry per label combination in
  use, each with the number of dialogs that carry it, and the counts add up to \<open>Size\<close>.
\<close>

theorem dialog_counts_partition:
  "set (dialog_counts c) =
     {\<lparr>lc_labels = dialog_labels k, lc_count = length (filter (\<lambda>(did, e). dialog_label_key e = k) c)\<rparr> | k.
        k \<in> (\<lambda>(did, e). dialog_label_key e) ` set c} \<and>
   sum_list (map lc_count (dialog_counts c)) = dialog_size c"
proof
  have cnt: "count_list (map (\<lambda>(did, e). dialog_label_key e) c) k =
      length (filter (\<lambda>(did, e). dialog_label_key e = k) c)" for k
    by (induction c) auto
  show "set (dialog_counts c) =
     {\<lparr>lc_labels = dialog_labels k, lc_count = length (filter (\<lambda>(did, e). dialog_label_key e = k) c)\<rparr> | k.
        k \<in> (\<lambda>(did, e). dialog_label_key e) ` set c}"
    unfolding dialog_counts_def set_map set_mtally image_image prod.case cnt by blast
  show "sum_list (map lc_count (dialog_counts c)) = dialog_size c"
    by (simp add: dialog_counts_def dialog_size_def o_def case_prod_beta mtally_sum)
qed

end
