(* ===== verification/Metric_Events.thy ===== *)
theory Metric_Events
  imports Prelude Dialog_Store
begin

text \<open>
  The interface \<open>Metricser\<close> of \<open>internal/service/metrics.go\<close> as data: one constructor per method.
  The components that record metrics (the SIP exporter, the fraud detectors) return the list of
  the calls they make; theory \<open>Metric_Ops\<close> is the implementation that interprets them.
\<close>

text \<open>The four labels almost every method takes: \<open>carrier, uaType, sourceCountry, direction\<close>.\<close>

record call_labels =
  cl_carrier :: string
  cl_ua_type :: string
  cl_source_country :: string
  cl_direction :: string

text \<open>The extra labels of \<open>Request\<close> and \<open>Invite200OK\<close>.\<close>

record invite_labels =
  il_destination_country :: string
  il_caller_host :: string
  il_called_host :: string
  il_iface :: string

text \<open>The part of a \<open>vq.SessionReport\<close> that is recorded: the metrics present, by key.\<close>

type_synonym vq_values = "(string, real) gomap"

text \<open>
  Methods with the same shape share a constructor and are told apart by a kind; the abbreviations
  below give every method of the interface its own name.
\<close>

datatype call_kind = Reinvite | SessionCompleted | RegisterSuccess | FasCall | OneWayCall | MissingRTP
datatype alert_kind = RegisterCountryChange | RegisterScan | InviteBurst
datatype delay_kind = RRD | TTR | PDD | ORD | LRD | PBD
datatype gauge_kind = Sessions | ActiveRegistrations | RTPActiveStreams
datatype rtp_value = RTPJitter | RTPPDV | RTPMOS | RTPRFactor | RTCPJitter | RTCPLossFraction | RTCPRTT
datatype rtp_event_kind = RTPPackets | RTPDuplicates | RTPOutOfOrder
datatype rtp_amount = RTPLoss | RTCPCumulativeLoss
datatype plain_kind = RTCPOrphan | RTPKernelTimestampMissing | SystemError | RTPDropped

datatype sip_event =
    EvRequest call_labels invite_labels string
  | EvResponse call_labels string bool
  | EvResponseWithMetrics call_labels string bool bool
  | EvInvite200OK call_labels invite_labels
  | EvCall call_kind call_labels
  | EvAlert alert_kind string string string
  | EvRegisterFailure call_labels string
  | EvRetransmission call_labels string

datatype session_event =
    EvDelay delay_kind call_labels real
  | EvSPD call_labels duration
  | EvSession call_labels int
  | EvGauge gauge_kind "labeled_count list"
  | EvSessionsLimits "(string, int) gomap"
  | EvShortCalls call_labels duration
  | EvBillableSeconds string string string duration
  | EvVQReport call_labels vq_values

datatype rtp_event =
    EvRtpCount rtp_event_kind call_labels string
  | EvRtpAdd rtp_amount call_labels string nat
  | EvRtpObserve rtp_value call_labels string real
  | EvRtpMOSVariants call_labels string real real real
  | EvRtpLossDistribution call_labels string real real
  | EvRtpAliasLearned string string string
  | EvRtpAliasReleased string string
  | EvRtcpReport call_labels string

datatype self_event =
    EvPlain plain_kind
  | EvParseError string
  | EvChannelLength int
  | EvChannelCapacity int
  | EvTrackerSize string int
  | EvActiveDialogs int

datatype metric_event =
    SipEv sip_event | SessionEv session_event | RtpEv rtp_event | SelfEv self_event

abbreviation MRequest :: "call_labels \<Rightarrow> invite_labels \<Rightarrow> string \<Rightarrow> metric_event" where "MRequest l i m \<equiv> SipEv (EvRequest l i m)"
abbreviation MReinvite :: "call_labels \<Rightarrow> metric_event" where "MReinvite l \<equiv> SipEv (EvCall Reinvite l)"
abbreviation MResponse :: "call_labels \<Rightarrow> string \<Rightarrow> bool \<Rightarrow> metric_event" where "MResponse l s isinv \<equiv> SipEv (EvResponse l s isinv)"
abbreviation MResponseWithMetrics :: "call_labels \<Rightarrow> string \<Rightarrow> bool \<Rightarrow> bool \<Rightarrow> metric_event" where "MResponseWithMetrics l s isinv ok \<equiv> SipEv (EvResponseWithMetrics l s isinv ok)"
abbreviation MInvite200OK :: "call_labels \<Rightarrow> invite_labels \<Rightarrow> metric_event" where "MInvite200OK l i \<equiv> SipEv (EvInvite200OK l i)"
abbreviation MSessionCompleted :: "call_labels \<Rightarrow> metric_event" where "MSessionCompleted l \<equiv> SipEv (EvCall SessionCompleted l)"
abbreviation MRegisterSuccess :: "call_labels \<Rightarrow> metric_event" where "MRegisterSuccess l \<equiv> SipEv (EvCall RegisterSuccess l)"
abbreviation MFasCall :: "call_labels \<Rightarrow> metric_event" where "MFasCall l \<equiv> SipEv (EvCall FasCall l)"
abbreviation MOneWayCall :: "call_labels \<Rightarrow> metric_event" where "MOneWayCall l \<equiv> SipEv (EvCall OneWayCall l)"
abbreviation MMissingRTP :: "call_labels \<Rightarrow> metric_event" where "MMissingRTP l \<equiv> SipEv (EvCall MissingRTP l)"
abbreviation MRegisterCountryChange :: "string \<Rightarrow> string \<Rightarrow> string \<Rightarrow> metric_event" where "MRegisterCountryChange ca co d \<equiv> SipEv (EvAlert RegisterCountryChange ca co d)"
abbreviation MRegisterScan :: "string \<Rightarrow> string \<Rightarrow> string \<Rightarrow> metric_event" where "MRegisterScan ca co d \<equiv> SipEv (EvAlert RegisterScan ca co d)"
abbreviation MInviteBurst :: "string \<Rightarrow> string \<Rightarrow> string \<Rightarrow> metric_event" where "MInviteBurst ca co d \<equiv> SipEv (EvAlert InviteBurst ca co d)"
abbreviation MRegisterFailure :: "call_labels \<Rightarrow> string \<Rightarrow> metric_event" where "MRegisterFailure l c \<equiv> SipEv (EvRegisterFailure l c)"
abbreviation MSIPRetransmission :: "call_labels \<Rightarrow> string \<Rightarrow> metric_event" where "MSIPRetransmission l m \<equiv> SipEv (EvRetransmission l m)"
abbreviation MUpdateRRD :: "call_labels \<Rightarrow> real \<Rightarrow> metric_event" where "MUpdateRRD l x \<equiv> SessionEv (EvDelay RRD l x)"
abbreviation MUpdateTTR :: "call_labels \<Rightarrow> real \<Rightarrow> metric_event" where "MUpdateTTR l x \<equiv> SessionEv (EvDelay TTR l x)"
abbreviation MUpdatePDD :: "call_labels \<Rightarrow> real \<Rightarrow> metric_event" where "MUpdatePDD l x \<equiv> SessionEv (EvDelay PDD l x)"
abbreviation MUpdateORD :: "call_labels \<Rightarrow> real \<Rightarrow> metric_event" where "MUpdateORD l x \<equiv> SessionEv (EvDelay ORD l x)"
abbreviation MUpdateLRD :: "call_labels \<Rightarrow> real \<Rightarrow> metric_event" where "MUpdateLRD l x \<equiv> SessionEv (EvDelay LRD l x)"
abbreviation MUpdatePBD :: "call_labels \<Rightarrow> real \<Rightarrow> metric_event" where "MUpdatePBD l x \<equiv> SessionEv (EvDelay PBD l x)"
abbreviation MUpdateSPD :: "call_labels \<Rightarrow> duration \<Rightarrow> metric_event" where "MUpdateSPD l d \<equiv> SessionEv (EvSPD l d)"
abbreviation MUpdateSession :: "call_labels \<Rightarrow> int \<Rightarrow> metric_event" where "MUpdateSession l n \<equiv> SessionEv (EvSession l n)"
abbreviation MUpdateSessions :: "labeled_count list \<Rightarrow> metric_event" where "MUpdateSessions cs \<equiv> SessionEv (EvGauge Sessions cs)"
abbreviation MUpdateActiveRegistrations :: "labeled_count list \<Rightarrow> metric_event" where "MUpdateActiveRegistrations cs \<equiv> SessionEv (EvGauge ActiveRegistrations cs)"
abbreviation MUpdateRTPActiveStreams :: "labeled_count list \<Rightarrow> metric_event" where "MUpdateRTPActiveStreams cs \<equiv> SessionEv (EvGauge RTPActiveStreams cs)"
abbreviation MSetSessionsLimits :: "(string, int) gomap \<Rightarrow> metric_event" where "MSetSessionsLimits m \<equiv> SessionEv (EvSessionsLimits m)"
abbreviation MUpdateShortCalls :: "call_labels \<Rightarrow> duration \<Rightarrow> metric_event" where "MUpdateShortCalls l d \<equiv> SessionEv (EvShortCalls l d)"
abbreviation MUpdateBillableSeconds :: "string \<Rightarrow> string \<Rightarrow> string \<Rightarrow> duration \<Rightarrow> metric_event" where "MUpdateBillableSeconds ca de di d \<equiv> SessionEv (EvBillableSeconds ca de di d)"
abbreviation MUpdateVQReport :: "call_labels \<Rightarrow> vq_values \<Rightarrow> metric_event" where "MUpdateVQReport l v \<equiv> SessionEv (EvVQReport l v)"
abbreviation MUpdateRTPPackets :: "call_labels \<Rightarrow> string \<Rightarrow> metric_event" where "MUpdateRTPPackets l c \<equiv> RtpEv (EvRtpCount RTPPackets l c)"
abbreviation MUpdateRTPDuplicates :: "call_labels \<Rightarrow> string \<Rightarrow> metric_event" where "MUpdateRTPDuplicates l c \<equiv> RtpEv (EvRtpCount RTPDuplicates l c)"
abbreviation MUpdateRTPOutOfOrder :: "call_labels \<Rightarrow> string \<Rightarrow> metric_event" where "MUpdateRTPOutOfOrder l c \<equiv> RtpEv (EvRtpCount RTPOutOfOrder l c)"
abbreviation MUpdateRTPLoss :: "call_labels \<Rightarrow> string \<Rightarrow> nat \<Rightarrow> metric_event" where "MUpdateRTPLoss l c n \<equiv> RtpEv (EvRtpAdd RTPLoss l c n)"
abbreviation MUpdateRTCPCumulativeLoss :: "call_labels \<Rightarrow> string \<Rightarrow> nat \<Rightarrow> metric_event" where "MUpdateRTCPCumulativeLoss l c n \<equiv> RtpEv (EvRtpAdd RTCPCumulativeLoss l c n)"
abbreviation MUpdateRTPJitter :: "call_labels \<Rightarrow> string \<Rightarrow> real \<Rightarrow> metric_event" where "MUpdateRTPJitter l c x \<equiv> RtpEv (EvRtpObserve RTPJitter l c x)"
abbreviation MUpdateRTPPDV :: "call_labels \<Rightarrow> string \<Rightarrow> real \<Rightarrow> metric_event" where "MUpdateRTPPDV l c x \<equiv> RtpEv (EvRtpObserve RTPPDV l c x)"
abbreviation MUpdateRTPMOS :: "call_labels \<Rightarrow> string \<Rightarrow> real \<Rightarrow> metric_event" where "MUpdateRTPMOS l c x \<equiv> RtpEv (EvRtpObserve RTPMOS l c x)"
abbreviation MUpdateRTPRFactor :: "call_labels \<Rightarrow> string \<Rightarrow> real \<Rightarrow> metric_event" where "MUpdateRTPRFactor l c x \<equiv> RtpEv (EvRtpObserve RTPRFactor l c x)"
abbreviation MUpdateRTCPJitter :: "call_labels \<Rightarrow> string \<Rightarrow> real \<Rightarrow> metric_event" where "MUpdateRTCPJitter l c x \<equiv> RtpEv (EvRtpObserve RTCPJitter l c x)"
abbreviation MUpdateRTCPLossFraction :: "call_labels \<Rightarrow> string \<Rightarrow> real \<Rightarrow> metric_event" where "MUpdateRTCPLossFraction l c x \<equiv> RtpEv (EvRtpObserve RTCPLossFraction l c x)"
abbreviation MUpdateRTCPRTT :: "call_labels \<Rightarrow> string \<Rightarrow> real \<Rightarrow> metric_event" where "MUpdateRTCPRTT l c x \<equiv> RtpEv (EvRtpObserve RTCPRTT l c x)"
abbreviation MUpdateRTPMOSVariants :: "call_labels \<Rightarrow> string \<Rightarrow> real \<Rightarrow> real \<Rightarrow> real \<Rightarrow> metric_event" where "MUpdateRTPMOSVariants l c x y z \<equiv> RtpEv (EvRtpMOSVariants l c x y z)"
abbreviation MUpdateRTPLossDistribution :: "call_labels \<Rightarrow> string \<Rightarrow> real \<Rightarrow> real \<Rightarrow> metric_event" where "MUpdateRTPLossDistribution l c x y \<equiv> RtpEv (EvRtpLossDistribution l c x y)"
abbreviation MRTPAliasLearned :: "string \<Rightarrow> string \<Rightarrow> string \<Rightarrow> metric_event" where "MRTPAliasLearned ca d k \<equiv> RtpEv (EvRtpAliasLearned ca d k)"
abbreviation MRTPAliasReleased :: "string \<Rightarrow> string \<Rightarrow> metric_event" where "MRTPAliasReleased ca d \<equiv> RtpEv (EvRtpAliasReleased ca d)"
abbreviation MUpdateRTCPReport :: "call_labels \<Rightarrow> string \<Rightarrow> metric_event" where "MUpdateRTCPReport l k \<equiv> RtpEv (EvRtcpReport l k)"
abbreviation MUpdateRTCPOrphan :: "metric_event" where "MUpdateRTCPOrphan \<equiv> SelfEv (EvPlain RTCPOrphan)"
abbreviation MRTPKernelTimestampMissing :: "metric_event" where "MRTPKernelTimestampMissing \<equiv> SelfEv (EvPlain RTPKernelTimestampMissing)"
abbreviation MSystemError :: "metric_event" where "MSystemError \<equiv> SelfEv (EvPlain SystemError)"
abbreviation MRTPDropped :: "metric_event" where "MRTPDropped \<equiv> SelfEv (EvPlain RTPDropped)"
abbreviation MParseError :: "string \<Rightarrow> metric_event" where "MParseError k \<equiv> SelfEv (EvParseError k)"
abbreviation MUpdateChannelLength :: "int \<Rightarrow> metric_event" where "MUpdateChannelLength n \<equiv> SelfEv (EvChannelLength n)"
abbreviation MUpdateChannelCapacity :: "int \<Rightarrow> metric_event" where "MUpdateChannelCapacity n \<equiv> SelfEv (EvChannelCapacity n)"
abbreviation MUpdateActiveDialogs :: "int \<Rightarrow> metric_event" where "MUpdateActiveDialogs n \<equiv> SelfEv (EvActiveDialogs n)"
abbreviation MUpdateTrackerSize :: "string \<Rightarrow> int \<Rightarrow> metric_event" where "MUpdateTrackerSize k n \<equiv> SelfEv (EvTrackerSize k n)"

end
