(* ===== verification/Fraud_Detect.thy ===== *)
theory Fraud_Detect
  imports Prelude Metric_Events
begin

text \<open>
  Package \<open>internal/exporter\<close>, file \<open>fraud.go\<close>: the three fraud detectors.  A detector that is
  switched off is the Go nil pointer, here \<open>None\<close>.  The register-scan detector counts the AORs one
  source address registers within a window, the INVITE-burst detector the INVITEs of one address,
  and the FAS (false answer supervision) detector watches answered calls for media from the
  answering side.
\<close>

section \<open>Register scans\<close>

definition register_scan_max_entries :: nat where "register_scan_max_entries = 10000"

record scan_tracker =
  sc_threshold :: int
  sc_window :: duration
  sc_entries :: "(string, (string, time) gomap) gomap"

definition new_register_scan_tracker :: "int \<Rightarrow> duration \<Rightarrow> scan_tracker option" where
  "new_register_scan_tracker threshold window =
     (if threshold \<le> 0 \<or> window \<le> 0 then None
      else Some \<lparr>sc_threshold = threshold, sc_window = window, sc_entries = []\<rparr>)"

definition scan_record :: "string \<Rightarrow> string \<Rightarrow> string \<Rightarrow> string \<Rightarrow> string \<Rightarrow> time \<Rightarrow> scan_tracker
    \<Rightarrow> metric_event list \<times> scan_tracker" where
  "scan_record src_ip aor carrier country direction now t =
     (if src_ip = [] \<or> aor = [] then ([], t)
      else
        let cutoff = now - sc_window t;
            live = mdrop (\<lambda>a ts. ts < cutoff) (mget_or [] (sc_entries t) src_ip);
            live' = (if length live < register_scan_max_entries then mput aor now live else live);
            t' = t\<lparr>sc_entries := mput src_ip live' (sc_entries t)\<rparr>
        in (if sc_threshold t \<le> int (length live') then [MRegisterScan carrier country direction] else [],
            t'))"

text \<open>The walk of \<open>cleanup\<close> over the addresses: expire, then drop an address left without AORs.\<close>

definition scan_cleanup :: "time \<Rightarrow> scan_tracker \<Rightarrow> scan_tracker" where
  "scan_cleanup now t =
     (let cutoff = now - sc_window t;
          aged = map (\<lambda>(ip, aors). (ip, mdrop (\<lambda>a ts. ts < cutoff) aors)) (sc_entries t)
      in t\<lparr>sc_entries := mdrop (\<lambda>ip aors. length aors = 0) aged\<rparr>)"

section \<open>INVITE bursts\<close>

record burst_tracker =
  bt_threshold :: int
  bt_window :: duration
  bt_entries :: "(string, time list) gomap"

definition new_invite_burst_tracker :: "int \<Rightarrow> duration \<Rightarrow> burst_tracker option" where
  "new_invite_burst_tracker threshold window =
     (if threshold \<le> 0 \<or> window \<le> 0 then None
      else Some \<lparr>bt_threshold = threshold, bt_window = window, bt_entries = []\<rparr>)"

definition expire_times :: "time \<Rightarrow> time list \<Rightarrow> time list" where
  "expire_times cutoff = dropWhile (\<lambda>ts. ts < cutoff)"

definition burst_record :: "string \<Rightarrow> string \<Rightarrow> string \<Rightarrow> string \<Rightarrow> time \<Rightarrow> burst_tracker
    \<Rightarrow> metric_event list \<times> burst_tracker" where
  "burst_record src_ip carrier country direction now t =
     (if src_ip = [] then ([], t)
      else
        let cutoff = now - bt_window t;
            es = expire_times cutoff (mget_or [] (bt_entries t) src_ip) @ [now];
            es' = (if bt_threshold t + 1 < int (length es)
                   then drop (length es - nat (bt_threshold t) - 1) es else es)
        in (if bt_threshold t \<le> int (length es') then [MInviteBurst carrier country direction] else [],
            t\<lparr>bt_entries := mput src_ip es' (bt_entries t)\<rparr>))"

definition burst_cleanup :: "time \<Rightarrow> burst_tracker \<Rightarrow> burst_tracker" where
  "burst_cleanup now t =
     (let cutoff = now - bt_window t;
          aged = map (\<lambda>(ip, es). (ip, expire_times cutoff es)) (bt_entries t)
      in t\<lparr>bt_entries := mdrop (\<lambda>ip es. length es = 0) aged\<rparr>)"

section \<open>False answer supervision\<close>

definition fas_media_packets_threshold :: nat where "fas_media_packets_threshold = 2"
definition fas_srtp_grace :: duration where "fas_srtp_grace = 15 * second"
definition fas_bye_floor :: duration where "fas_bye_floor = 3 * second"

record fas_entry =
  fe_created_at :: time
  fe_deadline :: time
  fe_bye_floor :: time
  fe_carrier :: string
  fe_ua_type :: string
  fe_source_country :: string
  fe_direction :: string

record fas_endpoint =
  fep_fallback_ip :: string
  fep_ip :: u32
  fep_port :: u16

record fas_tracker =
  ft_threshold :: duration
  ft_entries :: "(string, fas_entry) gomap"
  ft_offer :: "(string, fas_endpoint list) gomap"

definition new_fas_tracker :: "duration \<Rightarrow> fas_tracker option" where
  "new_fas_tracker threshold =
     (if threshold \<le> 0 then None
      else Some \<lparr>ft_threshold = threshold, ft_entries = [], ft_offer = []\<rparr>)"

definition to_offer_set :: "fas_endpoint list \<Rightarrow> fas_endpoint list" where
  "to_offer_set eps = remdups eps"

definition fas_store :: "string \<Rightarrow> fas_entry \<Rightarrow> fas_endpoint list \<Rightarrow> bool \<Rightarrow> time \<Rightarrow> fas_tracker
    \<Rightarrow> fas_tracker" where
  "fas_store call_id e offer_endpoints srtp now t =
     (if call_id = [] then t
      else
        let deadline = now + ft_threshold t;
            deadline' = (if srtp then deadline + fas_srtp_grace else deadline);
            e' = e\<lparr>fe_created_at := now, fe_deadline := deadline', fe_bye_floor := now + fas_bye_floor\<rparr>;
            t' = t\<lparr>ft_entries := mput call_id e' (ft_entries t)\<rparr>
        in if offer_endpoints \<noteq> []
           then t'\<lparr>ft_offer := mput call_id (to_offer_set offer_endpoints) (ft_offer t')\<rparr>
           else t')"

definition fas_update_offer :: "string \<Rightarrow> fas_endpoint list \<Rightarrow> bool \<Rightarrow> fas_tracker \<Rightarrow> fas_tracker" where
  "fas_update_offer call_id offer_endpoints srtp t =
     (if call_id = [] then t
      else case mget (ft_entries t) call_id of
        None \<Rightarrow> t
      | Some e \<Rightarrow>
          let t' = (if offer_endpoints \<noteq> []
                    then t\<lparr>ft_offer := mput call_id (to_offer_set offer_endpoints) (ft_offer t)\<rparr> else t);
              grace = fe_created_at e + (ft_threshold t + fas_srtp_grace);
              e' = (if srtp \<and> fe_deadline e < grace then e\<lparr>fe_deadline := grace\<rparr> else e)
          in t'\<lparr>ft_entries := mput call_id e' (ft_entries t')\<rparr>)"

definition fas_drop :: "string \<Rightarrow> fas_tracker \<Rightarrow> fas_tracker" where
  "fas_drop call_id t =
     t\<lparr>ft_entries := mdel call_id (ft_entries t), ft_offer := mdel call_id (ft_offer t)\<rparr>"

definition fas_clear :: "string \<Rightarrow> fas_tracker \<Rightarrow> fas_tracker" where
  "fas_clear call_id t = (if call_id = [] then t else fas_drop call_id t)"

definition fas_size :: "fas_tracker \<Rightarrow> nat" where
  "fas_size t = length (ft_entries t)"

definition fas_clear_if_answer_media :: "string \<Rightarrow> fas_endpoint \<Rightarrow> nat \<Rightarrow> string \<Rightarrow> fas_tracker
    \<Rightarrow> fas_tracker" where
  "fas_clear_if_answer_media call_id ep packets_total matched_by t =
     (if call_id = [] \<or> packets_total < fas_media_packets_threshold then t
      else if mget (ft_entries t) call_id = None then t
      else case mget (ft_offer t) call_id of
        None \<Rightarrow> fas_drop call_id t
      | Some offer \<Rightarrow>
          if offer = [] then fas_drop call_id t
          else if ep \<in> set offer \<and> matched_by \<noteq> ''src'' then fas_drop call_id t
          else t)"

text \<open>A report: the \<open>FasCall\<close> metric and the log line that names the call.\<close>

record fas_report =
  fr_call_id :: string
  fr_path :: string
  fr_entry :: fas_entry
  fr_now :: time

definition fas_report_event :: "fas_report \<Rightarrow> metric_event" where
  "fas_report_event r =
     MFasCall \<lparr>cl_carrier = fe_carrier (fr_entry r), cl_ua_type = fe_ua_type (fr_entry r),
       cl_source_country = fe_source_country (fr_entry r), cl_direction = fe_direction (fr_entry r)\<rparr>"

definition fas_finalize_on_bye :: "string \<Rightarrow> time \<Rightarrow> fas_tracker \<Rightarrow> fas_report list \<times> fas_tracker" where
  "fas_finalize_on_bye call_id now t =
     (if call_id = [] then ([], t)
      else case mget (ft_entries t) call_id of
        None \<Rightarrow> ([], t)
      | Some e \<Rightarrow>
          (if fe_bye_floor e < now
           then [\<lparr>fr_call_id = call_id, fr_path = ''bye'', fr_entry = e, fr_now = now\<rparr>] else [],
           fas_drop call_id t))"

definition fas_sweep :: "time \<Rightarrow> fas_tracker \<Rightarrow> fas_report list \<times> fas_tracker" where
  "fas_sweep now t =
     (let fired = filter (\<lambda>(c, e). fe_deadline e < now) (ft_entries t)
      in (map (\<lambda>(c, e). \<lparr>fr_call_id = c, fr_path = ''sweep'', fr_entry = e, fr_now = now\<rparr>) fired,
          foldl (\<lambda>t' (c, e). fas_drop c t') t fired))"

section \<open>The burst detector counts exactly\<close>

text \<open>Cleanup of an address that is left empty: the lookup is the expired list either way.\<close>

lemma mget_or_map_drop:
  "mwf m \<Longrightarrow> mget_or [] (mdrop (\<lambda>k v. v = []) (map (\<lambda>(k, v). (k, f v)) m)) k
     = (case mget m k of None \<Rightarrow> [] | Some v \<Rightarrow> f v)"
  by (simp add: mget_or_def mget_mdrop map_of_map o_def case_prod_beta split: option.splits)

lemma mkeys_map_values [simp]: "map (fst \<circ> (\<lambda>(k, v). (k, f v))) m = mkeys m"
  by (simp add: o_def case_prod_beta)

text \<open>How many of the times are not before \<open>c\<close>.\<close>

definition since :: "time \<Rightarrow> time list \<Rightarrow> nat" where
  "since c ts = length (filter (\<lambda>x. c \<le> x) ts)"

lemma since_simps [simp]: "since c [] = 0" "since c (xs @ ys) = since c xs + since c ys"
  "since c [x] = (if c \<le> x then 1 else 0)"
  by (simp_all add: since_def)

lemma expire_times_filter: "sorted ts \<Longrightarrow> expire_times c ts = filter (\<lambda>x. c \<le> x) ts"
  unfolding expire_times_def by (induction ts) (auto simp: not_less intro!: filter_True [symmetric])

lemma since_filter: "c0 \<le> c \<Longrightarrow> since c (filter (\<lambda>x. c0 \<le> x) ts) = since c ts"
  unfolding since_def filter_filter by (rule arg_cong [where f = length], rule filter_cong) auto

lemma since_all: "\<forall>x\<in>set ts. c \<le> x \<Longrightarrow> since c ts = length ts"
  by (simp add: since_def)

lemma since_drop:
  "sorted ts \<Longrightarrow> since c (drop k ts) = min (since c ts) (length ts - k)"
proof (induction ts arbitrary: k)
  case (Cons t ts)
  show ?case
  proof (cases k)
    case 0
    then show ?thesis by (simp add: since_def min_def) (metis le_SucI length_filter_le)
  next
    case (Suc j)
    show ?thesis
    proof (cases "c \<le> t")
      case True
      with Cons.prems have "since c ts = length ts" by (intro since_all) auto
      with True Suc Cons show ?thesis by (simp add: since_def)
    next
      case False
      with Suc Cons show ?thesis by (simp add: since_def)
    qed
  qed
qed simp

text \<open>
  The list kept for an address is as good as its whole history \<open>h\<close>, for every cutoff still to
  come, up to one more than the threshold.
\<close>

definition burst_ok :: "nat \<Rightarrow> duration \<Rightarrow> time list \<Rightarrow> time list \<Rightarrow> time \<Rightarrow> bool" where
  "burst_ok n w es h seen \<longleftrightarrow>
     sorted es \<and> (\<forall>x\<in>set es. x \<le> seen) \<and> (\<forall>x\<in>set h. x \<le> seen) \<and>
     (\<forall>c \<ge> seen - w. min (Suc n) (since c es) = min (Suc n) (since c h))"

lemma burst_ok_later: "burst_ok n w es h seen \<Longrightarrow> seen \<le> now \<Longrightarrow> burst_ok n w es h now"
  unfolding burst_ok_def by force

lemma burst_ok_expire:
  assumes "burst_ok n w es h now"
  shows "burst_ok n w (expire_times (now - w) es) h now"
  using assms by (auto simp: burst_ok_def expire_times_filter since_filter intro: sorted_wrt_filter)

lemma burst_ok_append:
  assumes "burst_ok n w es h now"
  shows "burst_ok n w (es @ [now]) (h @ [now]) now"
  using assms by (fastforce simp: burst_ok_def sorted_append min_def split: if_splits)

lemma burst_ok_trim:
  assumes "burst_ok n w es h now" and "Suc n < length es"
  shows "burst_ok n w (drop (length es - Suc n) es) h now"
  using assms by (auto simp: burst_ok_def since_drop sorted_wrt_drop dest: in_set_dropD)

datatype burst_op = BurstInvite string string string string time | BurstSweep time

fun burst_time :: "burst_op \<Rightarrow> time" where
  "burst_time (BurstInvite ip carrier country direction now) = now"
| "burst_time (BurstSweep now) = now"

fun burst_step :: "burst_tracker \<Rightarrow> burst_op \<Rightarrow> burst_tracker" where
  "burst_step t (BurstInvite ip carrier country direction now) =
     snd (burst_record ip carrier country direction now t)"
| "burst_step t (BurstSweep now) = burst_cleanup now t"

fun invites_from :: "string \<Rightarrow> burst_op list \<Rightarrow> time list" where
  "invites_from ip [] = []"
| "invites_from ip (BurstInvite ip' carrier country direction now # ops) =
     (if ip' = ip then now # invites_from ip ops else invites_from ip ops)"
| "invites_from ip (BurstSweep now # ops) = invites_from ip ops"

definition burst_inv :: "string \<Rightarrow> burst_tracker \<Rightarrow> time list \<Rightarrow> time \<Rightarrow> bool" where
  "burst_inv ip t h seen \<longleftrightarrow>
     0 < bt_threshold t \<and> 0 < bt_window t \<and> mwf (bt_entries t) \<and>
     burst_ok (nat (bt_threshold t)) (bt_window t) (mget_or [] (bt_entries t) ip) h seen"

lemma burst_record_ok:
  assumes inv: "burst_inv ip t h seen" and "seen \<le> now" and "ip \<noteq> []"
  shows "burst_inv ip (snd (burst_record ip ca co d now t)) (h @ [now]) now"
    and "fst (burst_record ip ca co d now t) =
      (if bt_threshold t \<le> int (since (now - bt_window t) (h @ [now])) then [MInviteBurst ca co d] else [])"
proof -
  let ?n = "nat (bt_threshold t)" and ?w = "bt_window t"
  let ?c = "now - ?w"
  define es where "es = expire_times ?c (mget_or [] (bt_entries t) ip) @ [now]"
  define es' where "es' = (if bt_threshold t + 1 < int (length es)
    then drop (length es - ?n - 1) es else es)"
  have thr: "0 < bt_threshold t" "0 < ?w" using inv by (simp_all add: burst_inv_def)
  have old: "burst_ok ?n ?w (mget_or [] (bt_entries t) ip) h now"
    using inv assms(2) by (auto simp: burst_inv_def intro: burst_ok_later)
  then have es: "burst_ok ?n ?w es (h @ [now]) now"
    unfolding es_def by (intro burst_ok_append burst_ok_expire)
  then have ok: "burst_ok ?n ?w es' (h @ [now]) now"
    using burst_ok_trim [of ?n ?w es "h @ [now]" now] thr by (auto simp: es'_def)
  have rec: "burst_record ip ca co d now t =
     (if bt_threshold t \<le> int (length es') then [MInviteBurst ca co d] else [],
      t\<lparr>bt_entries := mput ip es' (bt_entries t)\<rparr>)"
    using assms(3) by (simp add: burst_record_def Let_def es_def es'_def)
  show "burst_inv ip (snd (burst_record ip ca co d now t)) (h @ [now]) now"
    using inv ok by (simp add: rec burst_inv_def)
  have "\<forall>x\<in>set es. ?c \<le> x"
    using old thr by (auto simp: es_def burst_ok_def expire_times_filter)
  then have "\<forall>x\<in>set es'. ?c \<le> x" by (auto simp: es'_def dest: in_set_dropD)
  then have "since ?c es' = length es'" by (rule since_all)
  moreover have "min (Suc ?n) (since ?c es') = min (Suc ?n) (since ?c (h @ [now]))"
    using ok by (simp add: burst_ok_def)
  ultimately have "?n \<le> length es' \<longleftrightarrow> ?n \<le> since ?c (h @ [now])" by linarith
  then have "bt_threshold t \<le> int (length es') \<longleftrightarrow> bt_threshold t \<le> int (since ?c (h @ [now]))"
    using thr by linarith
  then show "fst (burst_record ip ca co d now t) =
      (if bt_threshold t \<le> int (since ?c (h @ [now])) then [MInviteBurst ca co d] else [])"
    by (simp add: rec)
qed

lemma burst_record_other:
  assumes "burst_inv ip t h seen" and "seen \<le> now" and "ip' \<noteq> ip"
  shows "burst_inv ip (snd (burst_record ip' ca co d now t)) h now"
  using assms by (auto simp: burst_inv_def burst_record_def Let_def intro: burst_ok_later)

lemma burst_record_params [simp]:
  "bt_threshold (snd (burst_record ip ca co d now t)) = bt_threshold t"
  "bt_window (snd (burst_record ip ca co d now t)) = bt_window t"
  by (simp_all add: burst_record_def Let_def)

lemma burst_cleanup_ok:
  assumes "burst_inv ip t h seen" and "seen \<le> now"
  shows "burst_inv ip (burst_cleanup now t) h now"
proof -
  have "mget_or [] (bt_entries (burst_cleanup now t)) ip =
      expire_times (now - bt_window t) (mget_or [] (bt_entries t) ip)"
    using assms(1) unfolding burst_inv_def
    by (simp add: burst_cleanup_def Let_def mget_or_map_drop)
      (simp add: mget_or_def expire_times_def split: option.split)
  moreover have "burst_ok (nat (bt_threshold t)) (bt_window t) (mget_or [] (bt_entries t) ip) h now"
    using assms by (auto simp: burst_inv_def intro: burst_ok_later)
  ultimately show ?thesis
    using assms(1) burst_ok_expire by (auto simp: burst_inv_def burst_cleanup_def Let_def mwf_mdrop)
qed

lemma burst_run_ok:
  assumes "burst_inv ip t h seen" and "sorted (seen # map burst_time ops)" and "ip \<noteq> []"
  shows "\<exists>seen'. burst_inv ip (foldl burst_step t ops) (h @ invites_from ip ops) seen' \<and>
      (\<forall>now. (\<forall>x\<in>set (seen # map burst_time ops). x \<le> now) \<longrightarrow> seen' \<le> now) \<and>
      bt_threshold (foldl burst_step t ops) = bt_threshold t \<and>
      bt_window (foldl burst_step t ops) = bt_window t"
  using assms(1,2)
proof (induction ops arbitrary: t h seen)
  case (Cons bop ops)
  obtain h' where h': "burst_inv ip (burst_step t bop) h' (burst_time bop)"
    "h' @ invites_from ip ops = h @ invites_from ip (bop # ops)"
    using Cons.prems burst_record_ok(1) [OF _ _ assms(3)] burst_record_other burst_cleanup_ok
    by (cases bop) (fastforce split: if_splits)+
  from Cons.IH [OF h'(1)] Cons.prems h'(2) show ?case
    by (cases bop) (auto simp: burst_cleanup_def Let_def)
qed auto

text \<open>
  C32: exactness.  However many INVITEs have been dropped from the list kept for an address, the
  detector alerts on an INVITE exactly when the number of INVITEs of that address within the
  window, this one included, has reached the threshold; the clock must not go back.
\<close>

theorem burst_alert_exact:
  assumes "new_invite_burst_tracker threshold window = Some t"
    and "sorted (map burst_time ops @ [now])" and "ip \<noteq> []"
  shows "fst (burst_record ip ca co d now (foldl burst_step t ops)) =
    (if threshold \<le> int (length (filter (\<lambda>x. now - window \<le> x) (invites_from ip ops @ [now])))
     then [MInviteBurst ca co d] else [])"
proof -
  define first where "first = (case ops of [] \<Rightarrow> now | bop # _ \<Rightarrow> burst_time bop)"
  have srt: "sorted (first # map burst_time ops)" and le: "\<forall>x\<in>set (first # map burst_time ops). x \<le> now"
    using assms(2) by (auto simp: first_def sorted_append split: list.splits)
  have "burst_inv ip t [] first"
    using assms(1) by (auto simp: new_invite_burst_tracker_def burst_inv_def burst_ok_def mget_or_def
        split: if_splits)
  from burst_run_ok [OF this srt assms(3)] le obtain seen where
    r: "burst_inv ip (foldl burst_step t ops) (invites_from ip ops) seen" "seen \<le> now"
      "bt_threshold (foldl burst_step t ops) = bt_threshold t"
      "bt_window (foldl burst_step t ops) = bt_window t"
    by auto
  from burst_record_ok(2) [OF r(1,2) assms(3)] r(3,4) assms(1) show ?thesis
    by (auto simp: since_def new_invite_burst_tracker_def split: if_splits)
qed

theorem burst_alert_exact_witness:
  "fst (burst_record ''a'' ''x'' ''y'' ''z'' 30
      (foldl burst_step \<lparr>bt_threshold = 2, bt_window = 12, bt_entries = []\<rparr>
        [BurstInvite ''a'' [] [] [] 10, BurstInvite ''b'' [] [] [] 15, BurstInvite ''a'' [] [] [] 20]))
     = [MInviteBurst ''x'' ''y'' ''z'']"
  using burst_alert_exact [of 2 12 "\<lparr>bt_threshold = 2, bt_window = 12, bt_entries = []\<rparr>"
      "[BurstInvite ''a'' [] [] [] 10, BurstInvite ''b'' [] [] [] 15, BurstInvite ''a'' [] [] [] 20]" 30
      "''a''" "''x''" "''y''" "''z''"]
  by (simp add: new_invite_burst_tracker_def)

section \<open>The scan detector\<close>

datatype scan_op = ScanRegister string string time | ScanSweep time

fun scan_time :: "scan_op \<Rightarrow> time" where
  "scan_time (ScanRegister ip aor now) = now"
| "scan_time (ScanSweep now) = now"

fun scan_step :: "scan_tracker \<Rightarrow> scan_op \<Rightarrow> scan_tracker" where
  "scan_step t (ScanRegister ip aor now) = snd (scan_record ip aor [] [] [] now t)"
| "scan_step t (ScanSweep now) = scan_cleanup now t"

text \<open>The registrations of one address, latest first: \<open>map_of\<close> gives the latest of an AOR.\<close>

fun registers_from :: "string \<Rightarrow> scan_op list \<Rightarrow> (string \<times> time) list" where
  "registers_from ip [] = []"
| "registers_from ip (ScanRegister ip' aor now # ops) =
     registers_from ip ops @ (if ip' = ip \<and> aor \<noteq> [] then [(aor, now)] else [])"
| "registers_from ip (ScanSweep now # ops) = registers_from ip ops"

definition scan_aors :: "string \<Rightarrow> scan_tracker \<Rightarrow> (string, time) gomap" where
  "scan_aors ip t = mget_or [] (sc_entries t) ip"

text \<open>What is kept of the history \<open>h\<close> of an address: every AOR still within the window.\<close>

definition scan_ok :: "duration \<Rightarrow> (string, time) gomap \<Rightarrow> (string \<times> time) list \<Rightarrow> time \<Rightarrow> bool" where
  "scan_ok w m h seen \<longleftrightarrow>
     mwf m \<and> (\<forall>a. mget m a = map_of h a \<or>
       mget m a = None \<and> (\<exists>x. map_of h a = Some x \<and> x < seen - w))"

lemma scan_ok_later: "scan_ok w m h seen \<Longrightarrow> seen \<le> now \<Longrightarrow> scan_ok w m h now"
  unfolding scan_ok_def by (meson diff_right_mono order_less_le_trans)

lemma scan_ok_expire:
  assumes "scan_ok w m h now"
  shows "scan_ok w (mdrop (\<lambda>a ts. ts < now - w) m) h now"
proof -
  have "mget (mdrop (\<lambda>a ts. ts < now - w) m) a = map_of h a \<or>
      mget (mdrop (\<lambda>a ts. ts < now - w) m) a = None \<and> (\<exists>x. map_of h a = Some x \<and> x < now - w)" for a
    using assms unfolding scan_ok_def
    by (cases "mget m a") (auto simp: mget_mdrop dest: spec [of _ a])
  with assms show ?thesis by (simp add: scan_ok_def)
qed

lemma scan_ok_keys: "scan_ok w m h seen \<Longrightarrow> set (mkeys m) \<subseteq> set (mkeys h)"
  unfolding scan_ok_def by (metis mget_None_keys subsetI)

lemma scan_ok_length:
  assumes "scan_ok w m h seen"
  shows "length m \<le> card (set (mkeys h))"
proof -
  have "length m = card (set (mkeys m))"
    using assms distinct_card [of "mkeys m"] by (simp add: scan_ok_def)
  then show ?thesis using card_mono [OF _ scan_ok_keys [OF assms]] by simp
qed

lemma scan_ok_put:
  assumes "scan_ok w m h now"
  shows "scan_ok w (mput a now m) ((a, now) # h) now"
  using assms unfolding scan_ok_def by simp

definition scan_inv :: "string \<Rightarrow> scan_tracker \<Rightarrow> (string \<times> time) list \<Rightarrow> time \<Rightarrow> bool" where
  "scan_inv ip t h seen \<longleftrightarrow>
     0 < sc_window t \<and> mwf (sc_entries t) \<and> scan_ok (sc_window t) (scan_aors ip t) h seen"

lemma scan_record_ok:
  assumes inv: "scan_inv ip t h seen" and "seen \<le> now" and "ip \<noteq> []" and "aor \<noteq> []"
    and cap: "card (set (mkeys h)) < 10000"
  shows "scan_inv ip (snd (scan_record ip aor ca co d now t)) ((aor, now) # h) now"
    and "fst (scan_record ip aor ca co d now t) =
      (if sc_threshold t \<le> int (card {a. \<exists>x. map_of ((aor, now) # h) a = Some x \<and> now - sc_window t \<le> x})
       then [MRegisterScan ca co d] else [])"
proof -
  let ?w = "sc_window t" and ?h = "(aor, now) # h"
  define live where "live = mdrop (\<lambda>a ts. ts < now - ?w) (scan_aors ip t)"
  have old: "scan_ok ?w (scan_aors ip t) h now"
    using inv assms(2) by (auto simp: scan_inv_def intro: scan_ok_later)
  have live: "scan_ok ?w live h now" unfolding live_def by (rule scan_ok_expire [OF old])
  have "length live < 10000" using scan_ok_length [OF live] cap by linarith
  then have rec: "scan_record ip aor ca co d now t =
     (if sc_threshold t \<le> int (length (mput aor now live)) then [MRegisterScan ca co d] else [],
      t\<lparr>sc_entries := mput ip (mput aor now live) (sc_entries t)\<rparr>)"
    using assms(3,4)
    by (simp add: scan_record_def Let_def live_def scan_aors_def register_scan_max_entries_def)
  have new: "scan_ok ?w (mput aor now live) ?h now" by (rule scan_ok_put [OF live])
  show "scan_inv ip (snd (scan_record ip aor ca co d now t)) ?h now"
    using inv new by (simp add: rec scan_inv_def scan_aors_def)
  have w: "0 < ?w" using inv by (simp add: scan_inv_def)
  have kept: "\<exists>x. mget (mput aor now live) a = Some x \<and> now - ?w \<le> x"
    if "a \<in> set (mkeys (mput aor now live))" for a
  proof (cases "a = aor")
    case False
    with that have "mget live a \<noteq> None" by (metis mget_None_keys mget_mput)
    moreover have "mwf (scan_aors ip t)" using old by (simp add: scan_ok_def)
    ultimately show ?thesis using False by (auto simp: live_def mget_mdrop split: option.splits if_splits)
  qed (use w in simp)
  have "\<exists>x. map_of ?h a = Some x \<and> now - ?w \<le> x" if "a \<in> set (mkeys (mput aor now live))" for a
    using kept [OF that] new unfolding scan_ok_def by (metis option.distinct(1))
  moreover have "a \<in> set (mkeys (mput aor now live))"
    if "map_of ?h a = Some x" "now - ?w \<le> x" for a x
    using new that unfolding scan_ok_def by (metis mget_None_keys not_less option.distinct(1) option.inject)
  ultimately have "set (mkeys (mput aor now live)) = {a. \<exists>x. map_of ?h a = Some x \<and> now - ?w \<le> x}"
    by blast
  moreover have "length (mput aor now live) = card (set (mkeys (mput aor now live)))"
    using new distinct_card [of "mkeys (mput aor now live)"] by (simp add: scan_ok_def)
  ultimately show "fst (scan_record ip aor ca co d now t) =
      (if sc_threshold t \<le> int (card {a. \<exists>x. map_of ?h a = Some x \<and> now - ?w \<le> x})
       then [MRegisterScan ca co d] else [])"
    by (simp add: rec)
qed

lemma scan_record_other:
  assumes "scan_inv ip t h seen" and "seen \<le> now" and "ip' \<noteq> ip \<or> aor = [] \<or> ip' = []"
  shows "scan_inv ip (snd (scan_record ip' aor ca co d now t)) h now"
  using assms by (auto simp: scan_inv_def scan_record_def scan_aors_def Let_def intro: scan_ok_later)

lemma scan_cleanup_ok:
  assumes "scan_inv ip t h seen" and "seen \<le> now"
  shows "scan_inv ip (scan_cleanup now t) h now"
proof -
  have "scan_aors ip (scan_cleanup now t) = mdrop (\<lambda>a ts. ts < now - sc_window t) (scan_aors ip t)"
    using assms(1) unfolding scan_inv_def
    by (simp add: scan_cleanup_def Let_def scan_aors_def mget_or_map_drop)
      (simp add: mget_or_def mdrop_def split: option.split)
  moreover have "scan_ok (sc_window t) (scan_aors ip t) h now"
    using assms by (auto simp: scan_inv_def intro: scan_ok_later)
  ultimately show ?thesis
    using assms(1) scan_ok_expire by (auto simp: scan_inv_def scan_cleanup_def Let_def mwf_mdrop)
qed

lemma scan_params [simp]:
  "sc_threshold (scan_step t sop) = sc_threshold t" "sc_window (scan_step t sop) = sc_window t"
  by (cases sop; simp add: scan_record_def scan_cleanup_def Let_def)+

lemma scan_step_ok:
  assumes "scan_inv ip t h seen" and "seen \<le> scan_time sop" and "ip \<noteq> []"
    and "card (set (mkeys h)) < 10000"
  shows "scan_inv ip (scan_step t sop) (registers_from ip [sop] @ h) (scan_time sop)"
  using assms scan_record_ok(1) [OF assms(1) _ assms(3) _ assms(4)] scan_record_other [OF assms(1)]
    scan_cleanup_ok [OF assms(1)]
  by (cases sop) auto

lemma registers_from_append:
  "registers_from ip (xs @ ys) = registers_from ip ys @ registers_from ip xs"
  by (induction xs rule: registers_from.induct) auto

lemma scan_run_ok:
  assumes "scan_inv ip t h seen" and "sorted (seen # map scan_time ops)" and "ip \<noteq> []"
    and "card (set (mkeys (registers_from ip ops @ h))) < 10000"
  shows "\<exists>seen'. scan_inv ip (foldl scan_step t ops) (registers_from ip ops @ h) seen' \<and>
      (\<forall>now. (\<forall>x\<in>set (seen # map scan_time ops). x \<le> now) \<longrightarrow> seen' \<le> now) \<and>
      sc_threshold (foldl scan_step t ops) = sc_threshold t \<and>
      sc_window (foldl scan_step t ops) = sc_window t"
  using assms(1,2,4)
proof (induction ops arbitrary: t h seen)
  case (Cons sop ops)
  have split: "registers_from ip (sop # ops) = registers_from ip ops @ registers_from ip [sop]"
    using registers_from_append [of ip "[sop]" ops] by simp
  have "card (set (mkeys h)) \<le> card (set (mkeys (registers_from ip (sop # ops) @ h)))"
    by (intro card_mono) auto
  with Cons.prems have "scan_inv ip (scan_step t sop) (registers_from ip [sop] @ h) (scan_time sop)"
    by (intro scan_step_ok assms(3)) auto
  from Cons.IH [OF this] Cons.prems show ?case by (simp add: split) force
qed auto

text \<open>
  a register scan is reported exactly when the number of distinct AORs whose latest
  registration from the address lies in the window has reached the threshold, as long as the
  address stays below the cap of 10000 AORs; the clock must not go back.
\<close>

theorem scan_alert_exact:
  assumes "new_register_scan_tracker threshold window = Some t"
    and "sorted (map scan_time ops @ [now])" and "ip \<noteq> []" and "aor \<noteq> []"
    and "card (set (mkeys (registers_from ip ops))) < 10000"
  shows "fst (scan_record ip aor ca co d now (foldl scan_step t ops)) =
    (if threshold \<le> int (card {a. \<exists>x. map_of ((aor, now) # registers_from ip ops) a = Some x \<and>
        now - window \<le> x})
     then [MRegisterScan ca co d] else [])"
proof -
  define first where "first = (case ops of [] \<Rightarrow> now | sop # _ \<Rightarrow> scan_time sop)"
  have srt: "sorted (first # map scan_time ops)" and le: "\<forall>x\<in>set (first # map scan_time ops). x \<le> now"
    using assms(2) by (auto simp: first_def sorted_append split: list.splits)
  have "scan_inv ip t [] first"
    using assms(1) by (auto simp: new_register_scan_tracker_def scan_inv_def scan_ok_def scan_aors_def
        mget_or_def split: if_splits)
  from scan_run_ok [OF this srt assms(3)] assms(5) le obtain seen where
    r: "scan_inv ip (foldl scan_step t ops) (registers_from ip ops) seen" "seen \<le> now"
      "sc_threshold (foldl scan_step t ops) = sc_threshold t"
      "sc_window (foldl scan_step t ops) = sc_window t"
    by auto
  from scan_record_ok(2) [OF r(1,2) assms(3,4,5)] r(3,4) assms(1) show ?thesis
    by (auto simp: new_register_scan_tracker_def split: if_splits)
qed

theorem scan_alert_exact_witness:
  "fst (scan_record ''a'' ''u2'' ''x'' ''y'' ''z'' 30
      (foldl scan_step \<lparr>sc_threshold = 2, sc_window = 12, sc_entries = []\<rparr>
        [ScanRegister ''a'' ''u1'' 10, ScanRegister ''a'' ''u2'' 20])) = []"
proof -
  have "{a. \<exists>x. map_of [(''u2'', 30), (''u2'', 20), (''u1'', 10)] a = Some x \<and> 18 \<le> (x::int)} = {''u2''}"
    by (auto split: if_splits)
  then show ?thesis
    using scan_alert_exact [of 2 12 "\<lparr>sc_threshold = 2, sc_window = 12, sc_entries = []\<rparr>"
        "[ScanRegister ''a'' ''u1'' 10, ScanRegister ''a'' ''u2'' 20]" 30 "''a''" "''u2''"
        "''x''" "''y''" "''z''"]
    by (simp add: new_register_scan_tracker_def)
qed

text \<open>The memory an address can take is bounded by the cap, whatever happens.\<close>

lemma scan_record_bounded:
  assumes "\<forall>ip m. mget (sc_entries t) ip = Some m \<longrightarrow> length m \<le> 10000"
  shows "\<forall>ip m. mget (sc_entries (snd (scan_record ip' aor ca co d now t))) ip = Some m \<longrightarrow> length m \<le> 10000"
proof -
  have "length (mget_or [] (sc_entries t) ip') \<le> 10000"
    using assms by (simp add: mget_or_def split: option.split)
  then have "length (mdrop p (mget_or [] (sc_entries t) ip')) \<le> 10000" for p
    by (meson length_mdrop_le order_trans)
  then show ?thesis
    using assms
    by (auto simp: scan_record_def Let_def register_scan_max_entries_def length_mput)
qed

section \<open>Runs of the FAS detector\<close>

datatype fas_op =
    FasStore string fas_entry "fas_endpoint list" bool time
  | FasUpdateOffer string "fas_endpoint list" bool
  | FasClear string
  | FasMedia string fas_endpoint nat string
  | FasBye string time
  | FasSweep time

fun fas_step :: "fas_tracker \<Rightarrow> fas_op \<Rightarrow> fas_report list \<times> fas_tracker" where
  "fas_step t (FasStore c e offer srtp now) = ([], fas_store c e offer srtp now t)"
| "fas_step t (FasUpdateOffer c offer srtp) = ([], fas_update_offer c offer srtp t)"
| "fas_step t (FasClear c) = ([], fas_clear c t)"
| "fas_step t (FasMedia c ep n by_side) = ([], fas_clear_if_answer_media c ep n by_side t)"
| "fas_step t (FasBye c now) = fas_finalize_on_bye c now t"
| "fas_step t (FasSweep now) = fas_sweep now t"

fun fas_run :: "fas_tracker \<Rightarrow> fas_op list \<Rightarrow> fas_report list \<times> fas_tracker" where
  "fas_run t [] = ([], t)"
| "fas_run t (f # fs) =
     (let (rs, t') = fas_step t f; (rs', t'') = fas_run t' fs in (rs @ rs', t''))"

definition fas_pending :: "string \<Rightarrow> fas_tracker \<Rightarrow> bool" where
  "fas_pending c t \<longleftrightarrow> mget (ft_entries t) c \<noteq> None"

text \<open>The invariant: keys are unique, and every pending entry has its deadlines after its creation.\<close>

definition fas_inv :: "duration \<Rightarrow> fas_tracker \<Rightarrow> bool" where
  "fas_inv thr t \<longleftrightarrow>
     ft_threshold t = thr \<and> mwf (ft_entries t) \<and>
     (\<forall>(c, e) \<in> set (ft_entries t).
        fe_created_at e + thr \<le> fe_deadline e \<and> fe_bye_floor e = fe_created_at e + fas_bye_floor)"

lemma fas_drop_entries [simp]:
  "ft_entries (fas_drop c t) = mdel c (ft_entries t)" "ft_threshold (fas_drop c t) = ft_threshold t"
  by (simp_all add: fas_drop_def)

lemma fas_inv_drop: "fas_inv thr t \<Longrightarrow> fas_inv thr (fas_drop c t)"
  by (auto simp: fas_inv_def set_mdel)

lemma foldl_fas_drop_entries:
  "ft_entries (foldl (\<lambda>t' (c, e). fas_drop c t') t fs) = filter (\<lambda>(c, e). c \<notin> fst ` set fs) (ft_entries t)"
proof (induction fs arbitrary: t)
  case (Cons f fs)
  obtain a b where f: "f = (a, b)" by force
  have "filter (\<lambda>(c, e). c \<notin> fst ` set fs) (mdel a (ft_entries t)) =
      filter (\<lambda>(c, e). c \<notin> fst ` set (f # fs)) (ft_entries t)"
    unfolding AList.delete_eq filter_filter by (rule filter_cong [OF refl]) (auto simp: f)
  with Cons show ?case by (simp add: f)
qed simp

lemma fas_sweep_state: "snd (fas_sweep now t) = foldl (\<lambda>t' (c, e). fas_drop c t') t
    (filter (\<lambda>(c, e). fe_deadline e < now) (ft_entries t))"
  by (simp add: fas_sweep_def Let_def)

lemma fas_sweep_threshold: "ft_threshold (snd (fas_sweep now t)) = ft_threshold t"
proof -
  have "ft_threshold (foldl (\<lambda>t' (c, e). fas_drop c t') t fs) = ft_threshold t" for fs :: "(string \<times> 'a) list"
    by (induction fs arbitrary: t) auto
  then show ?thesis by (simp add: fas_sweep_state)
qed

lemma fas_sweep_entries:
  assumes "mwf (ft_entries t)"
  shows "ft_entries (snd (fas_sweep now t)) = filter (\<lambda>(c, e). now \<le> fe_deadline e) (ft_entries t)"
proof -
  have "c \<notin> fst ` set (filter (\<lambda>(c, e). fe_deadline e < now) (ft_entries t)) \<longleftrightarrow> now \<le> fe_deadline e"
    if "(c, e) \<in> set (ft_entries t)" for c e
    using assms that by (force simp: dest: eq_key_imp_eq_value)
  then show ?thesis
    unfolding fas_sweep_state foldl_fas_drop_entries by (intro filter_cong) auto
qed

lemma fas_inv_step:
  assumes "fas_inv thr t"
  shows "fas_inv thr (snd (fas_step t f))"
proof (cases f)
  case (FasStore c e offer srtp now)
  with assms show ?thesis
    by (auto simp: fas_inv_def fas_store_def Let_def set_mput fas_srtp_grace_def second_def)
next
  case (FasUpdateOffer c offer srtp)
  show ?thesis
  proof (cases "c = [] \<or> mget (ft_entries t) c = None")
    case False
    then obtain e where e: "mget (ft_entries t) c = Some e" by auto
    then have "(c, e) \<in> set (ft_entries t)" by (rule map_of_SomeD)
    with assms FasUpdateOffer False e show ?thesis
      by (auto simp: fas_inv_def fas_update_offer_def Let_def set_mput fas_srtp_grace_def second_def)
  qed (use assms FasUpdateOffer in \<open>auto simp: fas_update_offer_def\<close>)
next
  case (FasClear c)
  with assms show ?thesis by (simp add: fas_clear_def fas_inv_drop)
next
  case (FasMedia c ep n m)
  with assms show ?thesis
    by (auto simp: fas_clear_if_answer_media_def fas_inv_drop split: option.split)
next
  case (FasBye c now)
  with assms show ?thesis by (auto simp: fas_finalize_on_bye_def fas_inv_drop split: option.split)
next
  case (FasSweep now)
  have "mwf (filter P (ft_entries t))" for P using assms by (simp add: fas_inv_def distinct_map_filter)
  with assms FasSweep show ?thesis
    by (auto simp: fas_inv_def fas_sweep_entries fas_sweep_threshold)
qed

lemma fas_inv_new: "new_fas_tracker thr = Some t \<Longrightarrow> fas_inv thr t"
  by (auto simp: new_fas_tracker_def fas_inv_def split: if_splits)

lemma fas_run_inv: "fas_inv thr t \<Longrightarrow> fas_inv thr (snd (fas_run t fs))"
  by (induction fs arbitrary: t) (simp_all add: Let_def case_prod_beta fas_inv_step)

section \<open>What the FAS detector reports\<close>

lemma fas_step_reports:
  assumes "fas_inv thr t" and "r \<in> set (fst (fas_step t f))"
  shows "fr_path r = ''sweep'' \<and> fe_created_at (fr_entry r) + thr < fr_now r \<or>
    fr_path r = ''bye'' \<and> fe_created_at (fr_entry r) + fas_bye_floor < fr_now r"
proof -
  have entry: "fe_created_at e + thr \<le> fe_deadline e \<and> fe_bye_floor e = fe_created_at e + fas_bye_floor"
    if "(c, e) \<in> set (ft_entries t)" for c e
    using assms(1) that by (auto simp: fas_inv_def)
  show ?thesis
  proof (cases f)
    case (FasBye c now)
    then obtain e where "mget (ft_entries t) c = Some e" "fe_bye_floor e < now"
      "r = \<lparr>fr_call_id = c, fr_path = ''bye'', fr_entry = e, fr_now = now\<rparr>"
      using assms(2) by (auto simp: fas_finalize_on_bye_def split: option.splits if_splits)
    with entry [of c e] show ?thesis by (auto dest: map_of_SomeD)
  next
    case (FasSweep now)
    then obtain c e where "(c, e) \<in> set (ft_entries t)" "fe_deadline e < now"
      "r = \<lparr>fr_call_id = c, fr_path = ''sweep'', fr_entry = e, fr_now = now\<rparr>"
      using assms(2) by (auto simp: fas_sweep_def Let_def)
    with entry [of c e] show ?thesis by auto
  qed (use assms(2) in simp_all)
qed

text \<open>
  no early alarm.  Every report of the sweep is of a call answered longer ago than the
  threshold, and every report at a BYE of one answered more than three seconds before it.
\<close>

theorem fas_report_not_early:
  assumes "new_fas_tracker thr = Some t" and "r \<in> set (fst (fas_run t fs))"
  shows "fr_path r = ''sweep'' \<and> thr < fr_now r - fe_created_at (fr_entry r) \<or>
    fr_path r = ''bye'' \<and> 3000000000 < fr_now r - fe_created_at (fr_entry r)"
proof -
  have "fr_path r = ''sweep'' \<and> fe_created_at (fr_entry r) + thr < fr_now r \<or>
      fr_path r = ''bye'' \<and> fe_created_at (fr_entry r) + fas_bye_floor < fr_now r"
    if "fas_inv thr t" "r \<in> set (fst (fas_run t fs))" for t
    using that
  proof (induction fs arbitrary: t)
    case (Cons f fs)
    from Cons.prems(2) consider "r \<in> set (fst (fas_step t f))"
      | "r \<in> set (fst (fas_run (snd (fas_step t f)) fs))"
      by (auto simp: Let_def split: prod.splits)
    then show ?case
      using Cons fas_step_reports fas_inv_step by cases blast+
  qed simp
  from this [OF fas_inv_new [OF assms(1)] assms(2)] show ?thesis
    by (auto simp: fas_bye_floor_def second_def)
qed

definition sample_fas_entry :: fas_entry where
  "sample_fas_entry = \<lparr>fe_created_at = 0, fe_deadline = 0, fe_bye_floor = 0, fe_carrier = ''c'',
     fe_ua_type = ''u'', fe_source_country = ''DE'', fe_direction = ''inbound''\<rparr>"

definition sample_fas_ops :: "fas_op list" where
  "sample_fas_ops = [FasStore ''x'' sample_fas_entry [] False 100, FasSweep 5000000100, FasBye ''x'' 9000000000]"

theorem fas_report_not_early_witness:
  "\<exists>r. fst (fas_run \<lparr>ft_threshold = 4000000000, ft_entries = [], ft_offer = []\<rparr> sample_fas_ops) = [r] \<and>
     fr_path r = ''sweep'' \<and> 4000000000 < fr_now r - fe_created_at (fr_entry r)"
proof -
  obtain r where r: "fst (fas_run \<lparr>ft_threshold = 4000000000, ft_entries = [], ft_offer = []\<rparr> sample_fas_ops) = [r]"
    "fr_path r = ''sweep''"
    by (simp add: sample_fas_ops_def fas_store_def fas_sweep_def fas_finalize_on_bye_def Let_def
        fas_drop_def)
  then show ?thesis
    using fas_report_not_early [of 4000000000 "\<lparr>ft_threshold = 4000000000, ft_entries = [], ft_offer = []\<rparr>" r
        sample_fas_ops]
    by (auto simp: new_fas_tracker_def)
qed

definition reports_of :: "string \<Rightarrow> fas_report list \<Rightarrow> nat" where
  "reports_of c rs = length (filter (\<lambda>r. fr_call_id r = c) rs)"

definition stores_of :: "string \<Rightarrow> fas_op list \<Rightarrow> nat" where
  "stores_of c fs = length (filter (\<lambda>f. case f of FasStore c' e offer srtp now \<Rightarrow> c' = c | _ \<Rightarrow> False) fs)"

lemma reports_of_sweep:
  assumes "mwf (ft_entries t)"
  shows "reports_of c (fst (fas_sweep now t)) =
    (case mget (ft_entries t) c of None \<Rightarrow> 0 | Some e \<Rightarrow> if fe_deadline e < now then 1 else 0)"
proof -
  have "length (filter (\<lambda>x. fst x = c \<and> fe_deadline (snd x) < now) m) =
      (case mget m c of None \<Rightarrow> 0 | Some e \<Rightarrow> if fe_deadline e < now then 1 else 0)" if "mwf m" for m
    using that
  proof (induction m)
    case (Cons x m)
    obtain k e where x: "x = (k, e)" by force
    have "filter (\<lambda>x. fst x = k \<and> fe_deadline (snd x) < now) m = []"
      using Cons.prems x by (force simp: filter_empty_conv)
    with Cons x show ?case by auto
  qed simp
  from this [OF assms] show ?thesis
    by (simp add: reports_of_def fas_sweep_def Let_def filter_map o_def case_prod_beta filter_filter
        conj_commute)
qed

lemma mget_filter_value:
  "mwf m \<Longrightarrow> mget (filter (\<lambda>(k, v). P v) m) c =
     (case mget m c of None \<Rightarrow> None | Some v \<Rightarrow> if P v then Some v else None)"
  using mget_mdrop [of m "\<lambda>k v. \<not> P v" c] by (simp add: mdrop_def split: option.splits)

lemma fas_step_count:
  assumes "fas_inv thr t"
  shows "reports_of c (fst (fas_step t f)) + (if fas_pending c (snd (fas_step t f)) then 1 else 0)
    \<le> stores_of c [f] + (if fas_pending c t then 1 else 0)"
proof (cases f)
  case (FasSweep now)
  have "mwf (ft_entries t)" using assms by (simp add: fas_inv_def)
  then show ?thesis
    using FasSweep
    by (auto simp: fas_pending_def fas_sweep_entries mget_filter_value reports_of_sweep split: option.splits)
qed (auto simp: reports_of_def stores_of_def fas_pending_def fas_store_def fas_update_offer_def fas_clear_def
    fas_clear_if_answer_media_def fas_finalize_on_bye_def Let_def split: option.splits)

lemma fas_run_count:
  "fas_inv thr t \<Longrightarrow>
     reports_of c (fst (fas_run t fs)) + (if fas_pending c (snd (fas_run t fs)) then 1 else 0)
     \<le> stores_of c fs + (if fas_pending c t then 1 else 0)"
proof (induction fs arbitrary: t)
  case (Cons f fs)
  obtain rs t' rs' t'' where s: "fas_step t f = (rs, t')" "fas_run t' fs = (rs', t'')" by fastforce
  have "reports_of c (rs @ rs') = reports_of c rs + reports_of c rs'" by (simp add: reports_of_def)
  moreover have "stores_of c (f # fs) = stores_of c [f] + stores_of c fs" by (simp add: stores_of_def)
  moreover have "fas_inv thr t'" using fas_inv_step [OF Cons.prems, of f] s by simp
  ultimately show ?case
    using Cons.IH [of t'] fas_step_count [OF Cons.prems, of c f] s by (simp add: Let_def)
qed (simp add: reports_of_def stores_of_def)

text \<open>
  C29: a call is reported at most once for each time it was put under watch, by the sweep or at
  its BYE but never by both.
\<close>

theorem fas_report_at_most_once:
  assumes "new_fas_tracker thr = Some t"
  shows "reports_of c (fst (fas_run t fs)) \<le> stores_of c fs"
  using fas_run_count [OF fas_inv_new [OF assms], of c fs] assms
  by (auto simp: new_fas_tracker_def fas_pending_def split: if_splits)

theorem fas_report_at_most_once_witness:
  "reports_of ''x'' (fst (fas_run \<lparr>ft_threshold = 4000000000, ft_entries = [], ft_offer = []\<rparr> sample_fas_ops)) \<le> 1"
  using fas_report_at_most_once [of 4000000000 "\<lparr>ft_threshold = 4000000000, ft_entries = [], ft_offer = []\<rparr>"
      "''x''" sample_fas_ops]
  by (simp add: new_fas_tracker_def sample_fas_ops_def stores_of_def)

text \<open>
  media from the answering side ends the watch.  Once a stream with at least two packets has
  been seen, either while the offering side is unknown or at an offer endpoint matched by its
  destination, the call is never reported unless it is put under watch again.
\<close>

theorem fas_answer_media_clears:
  assumes "new_fas_tracker thr = Some t0" and "c \<noteq> []" and "2 \<le> n"
    and "case mget (ft_offer (snd (fas_run t0 before))) c of
      None \<Rightarrow> True | Some offer \<Rightarrow> offer = [] \<or> ep \<in> set offer \<and> side \<noteq> ''src''"
    and "stores_of c after = 0"
  shows "reports_of c (fst (fas_run (fas_clear_if_answer_media c ep n side (snd (fas_run t0 before))) after)) = 0"
proof -
  define t where "t = snd (fas_run t0 before)"
  define t' where "t' = fas_clear_if_answer_media c ep n side t"
  have "fas_inv thr t" unfolding t_def by (rule fas_run_inv [OF fas_inv_new [OF assms(1)]])
  then have "fas_inv thr t'" using fas_inv_step [of thr t "FasMedia c ep n side"] by (simp add: t'_def)
  moreover have "\<not> fas_pending c t'"
    using assms(2-4) unfolding t_def [symmetric]
    by (auto simp: t'_def fas_clear_if_answer_media_def fas_media_packets_threshold_def fas_pending_def
        split: option.splits)
  ultimately show ?thesis
    using fas_run_count [of thr t' c after] assms(5) unfolding t'_def t_def by simp
qed

definition sample_offer_ep :: fas_endpoint where
  "sample_offer_ep = \<lparr>fep_fallback_ip = [], fep_ip = 10, fep_port = 4000\<rparr>"

theorem fas_answer_media_clears_witness:
  "reports_of ''x'' (fst (fas_run
      (fas_clear_if_answer_media ''x'' sample_offer_ep 2 ''dst''
        (snd (fas_run \<lparr>ft_threshold = 4, ft_entries = [], ft_offer = []\<rparr>
          [FasStore ''x'' sample_fas_entry [sample_offer_ep] True 100])))
      [FasSweep 90000000000, FasBye ''x'' 90000000000])) = 0"
  by (rule fas_answer_media_clears [of 4])
    (simp_all add: new_fas_tracker_def fas_store_def Let_def to_offer_set_def stores_of_def)

text \<open>
  the caller's own media never clears a watched call: while offer endpoints are known, a
  stream that reaches none of them by its destination leaves the detector as it is.
\<close>

theorem fas_own_media_kept:
  assumes "mget (ft_offer t) c = Some offer" and "offer \<noteq> []" and "ep \<notin> set offer \<or> side = ''src''"
  shows "fas_clear_if_answer_media c ep n side t = t"
  using assms by (auto simp: fas_clear_if_answer_media_def)

theorem fas_own_media_kept_witness:
  "fas_clear_if_answer_media ''x'' sample_offer_ep 50 ''src''
     (fas_store ''x'' sample_fas_entry [sample_offer_ep] False 100
        \<lparr>ft_threshold = 4, ft_entries = [], ft_offer = []\<rparr>) =
   fas_store ''x'' sample_fas_entry [sample_offer_ep] False 100
     \<lparr>ft_threshold = 4, ft_entries = [], ft_offer = []\<rparr>"
  by (rule fas_own_media_kept [of _ _ "[sample_offer_ep]"])
    (simp_all add: fas_store_def Let_def to_offer_set_def)

text \<open>A re-INVITE never shortens the watch nor restarts its clock.\<close>

lemma fas_update_offer_deadline:
  assumes "mget (ft_entries t) c = Some e"
  shows "\<exists>e'. mget (ft_entries (fas_update_offer c offer srtp t)) c = Some e' \<and>
    fe_created_at e' = fe_created_at e \<and> fe_bye_floor e' = fe_bye_floor e \<and> fe_deadline e \<le> fe_deadline e'"
  using assms by (auto simp: fas_update_offer_def Let_def)

end
