(* ===== verification/Go_Text.thy ===== *)
theory Go_Text
  imports Prelude
begin

text \<open>
  The parts of Go's \<open>strconv\<close> and \<open>net/netip\<close> the exporter uses on text: decimal numbers, \<open>Atoi\<close>,
  and IPv4 addresses in dotted form, with their round trips.
\<close>

section \<open>Characters and decimal numbers\<close>

abbreviation code :: "char \<Rightarrow> nat" where "code c \<equiv> of_char c"

definition is_digit :: "char \<Rightarrow> bool" where
  "is_digit c \<longleftrightarrow> 48 \<le> code c \<and> code c \<le> 57"

definition digit_val :: "char \<Rightarrow> nat" where
  "digit_val c = code c - 48"

definition digit_char :: "nat \<Rightarrow> char" where
  "digit_char n = char_of (48 + n)"

lemma digit_char [simp]:
  "d < 10 \<Longrightarrow> is_digit (digit_char d)" "d < 10 \<Longrightarrow> digit_val (digit_char d) = d"
  by (simp_all add: digit_char_def is_digit_def digit_val_def)

lemma digit_char_val [simp]: "is_digit c \<Longrightarrow> digit_char (digit_val c) = c"
  by (simp add: digit_char_def is_digit_def digit_val_def)

lemma digit_val_lt: "is_digit c \<Longrightarrow> digit_val c < 10"
  unfolding is_digit_def digit_val_def by arith

text \<open>\<open>strconv.Itoa\<close> on a natural number.\<close>

fun dec :: "nat \<Rightarrow> string" where
  "dec n = (if n < 10 then [digit_char n] else dec (n div 10) @ [digit_char (n mod 10)])"

declare dec.simps [simp del]

lemma dec_small: "n < 10 \<Longrightarrow> dec n = [digit_char n]"
  by (simp add: dec.simps)

lemma dec_snoc: "0 < n \<Longrightarrow> d < 10 \<Longrightarrow> dec (n * 10 + d) = dec n @ [digit_char d]"
  by (subst dec.simps) simp

lemma dec_nonempty [simp]: "dec n \<noteq> []"
  by (subst dec.simps) simp

lemma dec_nonempty' [simp]: "[] \<noteq> dec n"
  using dec_nonempty [of n] by metis

text \<open>
  \<open>strconv.Atoi\<close>: an optional sign, at least one digit, nothing else, within \<open>int64\<close>; \<open>None\<close> is
  its error.
\<close>

definition digits_val :: "string \<Rightarrow> nat" where
  "digits_val s = foldl (\<lambda>v c. v * 10 + digit_val c) 0 s"

definition go_atoi :: "string \<Rightarrow> int option" where
  "go_atoi s =
     (let neg = (s \<noteq> [] \<and> hd s = CHR ''-'');
          ds = (if s \<noteq> [] \<and> hd s \<in> {CHR ''-'', CHR ''+''} then tl s else s);
          v = (if neg then - int (digits_val ds) else int (digits_val ds))
      in if ds = [] \<or> \<not> list_all is_digit ds then None
         else if - (2 ^ 63) \<le> v \<and> v < 2 ^ 63 then Some v else None)"

text \<open>\<open>strconv.ParseUint\<close> in base 10 for 32 bits: digits only.\<close>

definition go_parse_uint32 :: "string \<Rightarrow> u32 option" where
  "go_parse_uint32 s =
     (if s = [] \<or> \<not> list_all is_digit s then None
      else if digits_val s < 2 ^ 32 then Some (of_nat (digits_val s)) else None)"

lemma digits_val_snoc: "digits_val (s @ [c]) = digits_val s * 10 + digit_val c"
  by (simp add: digits_val_def)

lemma dec_digits: "list_all is_digit (dec n)"
proof (induction n rule: dec.induct)
  case (1 n)
  then show ?case by (subst dec.simps) auto
qed

lemma digits_val_dec [simp]: "digits_val (dec n) = n"
proof (induction n rule: dec.induct)
  case (1 n)
  then show ?case
  proof (cases "n < 10")
    case False
    then have "dec n = dec (n div 10) @ [digit_char (n mod 10)]" by (subst dec.simps) simp
    with 1 False show ?thesis by (simp add: digits_val_snoc)
  qed (simp add: dec_small digits_val_def)
qed

lemma digit_not_sign: "is_digit c \<Longrightarrow> c \<noteq> CHR ''-'' \<and> c \<noteq> CHR ''+'' \<and> c \<noteq> CHR ''.''"
  by (auto simp: is_digit_def)

lemma go_atoi_dec:
  assumes "int n < 2 ^ 63"
  shows "go_atoi (dec n) = Some (int n)"
proof -
  obtain c cs where d: "dec n = c # cs" by (cases "dec n") auto
  then have "is_digit c" using dec_digits [of n] by simp
  then have "c \<noteq> CHR ''-''" "c \<noteq> CHR ''+''" by (auto simp: is_digit_def)
  moreover have "list_all is_digit (c # cs)" "digits_val (c # cs) = n"
    using dec_digits [of n] by (simp_all flip: d)
  moreover have "- (2 ^ 63) \<le> int n" by simp
  ultimately show ?thesis using assms unfolding go_atoi_def Let_def d by simp
qed

lemma go_atoi_range: "go_atoi s = Some v \<Longrightarrow> - (2 ^ 63) \<le> v \<and> v < 2 ^ 63"
  by (auto simp: go_atoi_def Let_def split: if_splits)

section \<open>IPv4 addresses\<close>

type_synonym ipv4 = "u8 \<times> u8 \<times> u8 \<times> u8"

text \<open>
  \<open>netip.ParseAddr\<close> on dotted text: the value and the number of digits of the current field, and
  the fields before it.  A leading zero, a field above 255, an empty field or any other character is
  an error.  On every input without a colon or with a dot first, an error here is an error of
  \<open>ParseAddr\<close> or an address for which \<open>Is4\<close> is false.
\<close>

fun ipv4_loop :: "string \<Rightarrow> nat \<Rightarrow> nat \<Rightarrow> nat list \<Rightarrow> nat list option" where
  "ipv4_loop [] val dl fs = (if dl = 0 \<or> length fs \<noteq> 3 then None else Some (fs @ [val]))"
| "ipv4_loop (c # cs) val dl fs =
     (if is_digit c then
        if dl = 1 \<and> val = 0 then None
        else let v = val * 10 + digit_val c
             in if 255 < v then None else ipv4_loop cs v (dl + 1) fs
      else if c = CHR ''.'' then
        if dl = 0 \<or> cs = [] then None
        else if length fs = 3 then None
        else ipv4_loop cs 0 0 (fs @ [val])
      else None)"

fun ipv4_of_fields :: "nat list \<Rightarrow> ipv4 option" where
  "ipv4_of_fields [a, b, c, d] = Some (of_nat a, of_nat b, of_nat c, of_nat d)"
| "ipv4_of_fields _ = None"

definition parse_ipv4 :: "string \<Rightarrow> ipv4 option" where
  "parse_ipv4 s = Option.bind (ipv4_loop s 0 0 []) ipv4_of_fields"

text \<open>\<open>netip.AddrFrom4(b).String()\<close>.\<close>

definition ipv4_string :: "ipv4 \<Rightarrow> string" where
  "ipv4_string = (\<lambda>(a, b, c, d).
     dec (unat a) @ ''.'' @ dec (unat b) @ ''.'' @ dec (unat c) @ ''.'' @ dec (unat d))"

definition dotted :: "nat list \<Rightarrow> string" where
  "dotted fs = concat (map (\<lambda>f. dec f @ ''.'') fs)"

lemma ipv4_loop_dec:
  "n \<le> 255 \<Longrightarrow> ipv4_loop (dec n @ cs) 0 0 fs = ipv4_loop cs n (length (dec n)) fs"
proof (induction n arbitrary: cs rule: dec.induct)
  case (1 n)
  show ?case
  proof (cases "n < 10")
    case True
    then show ?thesis by (simp add: dec_small)
  next
    case False
    then have d: "dec n = dec (n div 10) @ [digit_char (n mod 10)]" by (subst dec.simps) simp
    have "ipv4_loop (dec (n div 10) @ digit_char (n mod 10) # cs) 0 0 fs =
        ipv4_loop (digit_char (n mod 10) # cs) (n div 10) (length (dec (n div 10))) fs"
      using 1 False by simp
    moreover have "n div 10 \<noteq> 0" using False by linarith
    ultimately show ?thesis using 1(2) d by simp
  qed
qed

lemma ipv4_loop_inv:
  assumes "ipv4_loop cs v dl fs = Some gs" and "dl = length cur"
    and "cur = [] \<and> v = 0 \<or> cur = dec v" and "v \<le> 255" and "\<forall>f\<in>set fs. f \<le> 255"
  shows "\<exists>hs l. gs = hs @ [l] \<and> length hs = 3 \<and> (\<forall>f\<in>set gs. f \<le> 255) \<and>
    dotted fs @ cur @ cs = dotted hs @ dec l"
  using assms
proof (induction cs v dl fs arbitrary: cur rule: ipv4_loop.induct)
  case (1 val dl fs)
  then show ?case by (auto split: if_splits)
next
  case (2 c cs val dl fs)
  show ?case
  proof (cases "is_digit c")
    case True
    let ?v = "val * 10 + digit_val c"
    have nz: "\<not> (dl = 1 \<and> val = 0)" and le: "?v \<le> 255"
      and r: "ipv4_loop cs ?v (dl + 1) fs = Some gs"
      using 2 True by (auto simp: Let_def split: if_splits)
    have "cur @ [c] = dec ?v"
    proof (cases "cur = []")
      case True
      with 2 \<open>is_digit c\<close> show ?thesis by (auto simp: dec_small digit_val_lt)
    next
      case False
      with 2 have cur: "cur = dec val" by simp
      with nz 2 have "0 < val" by (cases "val = 0") (auto simp: dec_small)
      with cur \<open>is_digit c\<close> show ?thesis by (simp add: dec_snoc digit_val_lt)
    qed
    moreover have "\<not> 255 < ?v" "dl + 1 = length (cur @ [c])" using le "2.prems"(2) by simp_all
    ultimately have "\<exists>hs l. gs = hs @ [l] \<and> length hs = 3 \<and> (\<forall>f\<in>set gs. f \<le> 255) \<and>
        dotted fs @ (cur @ [c]) @ cs = dotted hs @ dec l"
      using "2.IH"(1) [OF True nz refl _ r] le "2.prems"(5) by blast
    then show ?thesis by simp
  next
    case False
    have c: "c = CHR ''.''" and dl: "dl \<noteq> 0" and cs: "cs \<noteq> []"
      and r: "ipv4_loop cs 0 0 (fs @ [val]) = Some gs"
      using 2 False by (auto split: if_splits)
    have cur: "cur = dec val" using 2 dl by auto
    have "\<not> (dl = 0 \<or> cs = [])" "length fs \<noteq> 3" using 2 False dl cs c by (auto split: if_splits)
    then have "\<exists>hs l. gs = hs @ [l] \<and> length hs = 3 \<and> (\<forall>f\<in>set gs. f \<le> 255) \<and>
        dotted (fs @ [val]) @ [] @ cs = dotted hs @ dec l"
      using "2.prems"(4,5) by (intro "2.IH"(2) [OF False c _ _ r]) auto
    then show ?thesis by (simp add: dotted_def cur c)
  qed
qed

lemma ipv4_print_parse [simp]: "parse_ipv4 (ipv4_string ip) = Some ip"
proof -
  obtain a b c d where ip: "ip = (a, b, c, d)" by (cases ip) auto
  have le: "unat (x :: u8) \<le> 255" for x
  proof -
    have "unat x < 2 ^ LENGTH(8)" by (rule unsigned_less)
    then show ?thesis by simp
  qed
  have dl: "length (dec n) \<noteq> 0" for n by simp
  have dot: "\<not> is_digit CHR ''.''" by (simp add: is_digit_def)
  have "ipv4_loop (ipv4_string ip) 0 0 [] = Some [unat a, unat b, unat c, unat d]"
    using ipv4_loop_dec [OF le [of d], of "[]"]
    by (simp add: ip ipv4_string_def ipv4_loop_dec le dot)
  then show ?thesis by (simp add: parse_ipv4_def ip)
qed

lemma ipv4_parse_print:
  assumes "parse_ipv4 s = Some ip"
  shows "ipv4_string ip = s"
proof -
  obtain gs where gs: "ipv4_loop s 0 0 [] = Some gs" "ipv4_of_fields gs = Some ip"
    using assms by (auto simp: parse_ipv4_def split: Option.bind_splits)
  from ipv4_loop_inv [OF gs(1), of "[]"] obtain hs l where
    h: "gs = hs @ [l]" "length hs = 3" "\<forall>f\<in>set gs. f \<le> 255" "s = dotted hs @ dec l"
    by (auto simp: dotted_def)
  from h(2) obtain a b c where abc: "hs = [a, b, c]" by (auto simp: numeral_3_eq_3 length_Suc_conv)
  have "unat (of_nat f :: u8) = f" if "f \<in> set gs" for f
    using h(3) that by (auto simp: unat_of_nat take_bit_nat_eq_self)
  then have "unat (of_nat a :: u8) = a" "unat (of_nat b :: u8) = b" "unat (of_nat c :: u8) = c"
    "unat (of_nat l :: u8) = l"
    using h(1) abc by simp_all
  moreover have "ip = (of_nat a, of_nat b, of_nat c, of_nat l)" using gs(2) h(1) abc by simp
  ultimately show ?thesis using h(4) abc by (simp add: ipv4_string_def dotted_def)
qed

lemma parse_ipv4_inj: "parse_ipv4 s = Some ip \<Longrightarrow> parse_ipv4 s' = Some ip \<Longrightarrow> s = s'"
  using ipv4_parse_print by metis

section \<open>IPv6 text\<close>

text \<open>
  \<open>netip.ParseAddr\<close> on text with a colon: groups of one to four hexadecimal digits, one ellipsis, and
  a dotted tail.  The bytes read so far and the place of the ellipsis are the state of its loop, which
  adds at least two of the sixteen bytes a turn, so a fuel of eight turns is what the code allows.
\<close>

definition hex_val :: "char \<Rightarrow> nat option" where
  "hex_val c =
     (if is_digit c then Some (digit_val c)
      else if 97 \<le> code c \<and> code c \<le> 102 then Some (code c - 87)
      else if 65 \<le> code c \<and> code c \<le> 70 then Some (code c - 55) else None)"

definition hex_number :: "string \<Rightarrow> nat" where
  "hex_number s = foldl (\<lambda>v c. v * 16 + (case hex_val c of None \<Rightarrow> 0 | Some d \<Rightarrow> d)) 0 s"

fun ipv6_loop :: "nat \<Rightarrow> string \<Rightarrow> nat list \<Rightarrow> nat option \<Rightarrow> (nat list \<times> nat option) option" where
  "ipv6_loop 0 s bs e = (if s = [] then Some (bs, e) else None)"
| "ipv6_loop (Suc n) s bs e =
     (let ds = takeWhile (\<lambda>c. hex_val c \<noteq> None) s; rest = dropWhile (\<lambda>c. hex_val c \<noteq> None) s in
      if ds = [] \<or> 4 < length ds then None
      else if rest \<noteq> [] \<and> hd rest = CHR ''.'' then
        (if e = None \<and> length bs \<noteq> 12 \<or> 16 < length bs + 4 then None
         else map_option (\<lambda>fs. (bs @ fs, e)) (ipv4_loop s 0 0 []))
      else
        let bs' = bs @ [hex_number ds div 256, hex_number ds mod 256] in
        if rest = [] then Some (bs', e)
        else if hd rest \<noteq> CHR '':'' \<or> length rest = 1 then None
        else
          let s' = tl rest in
          if hd s' = CHR '':'' then
            (if e \<noteq> None then None
             else if tl s' = [] then Some (bs', Some (length bs'))
             else ipv6_loop n (tl s') bs' (Some (length bs')))
          else ipv6_loop n s' bs' e)"

definition ipv6_expand :: "nat list \<times> nat option \<Rightarrow> nat list option" where
  "ipv6_expand = (\<lambda>(bs, e).
     if length bs < 16
     then map_option (\<lambda>k. take k bs @ replicate (16 - length bs) 0 @ drop k bs) e
     else if e \<noteq> None then None else Some bs)"

definition parse_ipv6 :: "string \<Rightarrow> nat list option" where
  "parse_ipv6 s =
     (if take 2 s = ''::'' then
        (if length s = 2 then Some (replicate 16 0)
         else Option.bind (ipv6_loop 8 (drop 2 s) [] (Some 0)) ipv6_expand)
      else Option.bind (ipv6_loop 8 s [] None) ipv6_expand)"

text \<open>
  \<open>net.ParseIP(s).To4()\<close>: dotted text, or IPv6 text for an IPv4-mapped address; a zone is refused.
\<close>

definition parse_ip_to4 :: "string \<Rightarrow> ipv4 option" where
  "parse_ip_to4 s =
     (case find (\<lambda>c. c = CHR ''.'' \<or> c = CHR '':'' \<or> c = CHR ''%'') s of
        None \<Rightarrow> None
      | Some c \<Rightarrow>
          if c = CHR ''.'' then parse_ipv4 s
          else if c = CHR ''%'' \<or> CHR ''%'' \<in> set s then None
          else case parse_ipv6 s of
            None \<Rightarrow> None
          | Some bs \<Rightarrow>
              if take 12 bs = replicate 10 0 @ [255, 255] then ipv4_of_fields (drop 12 bs) else None)"

lemma ipv4_loop_dot: "ipv4_loop s v d fs \<noteq> None \<Longrightarrow> length fs < 3 \<Longrightarrow>
    find (\<lambda>c. c = CHR ''.'' \<or> c = CHR '':'' \<or> c = CHR ''%'') s = Some CHR ''.''"
  by (induction s v d fs rule: ipv4_loop.induct)
    (auto simp: Let_def is_digit_def split: if_splits)

text \<open>On the text of an IPv4 address the two parsers agree.\<close>

lemma parse_ip_to4_ipv4: "parse_ipv4 s = Some a \<Longrightarrow> parse_ip_to4 s = Some a"
  using ipv4_loop_dot [of s 0 0 "[]"]
  by (simp add: parse_ip_to4_def parse_ipv4_def split: Option.bind_splits)

end
