(* ===== verification/Go_Bytes.thy ===== *)
theory Go_Bytes
  imports Go_Text
begin

text \<open>
  The functions of Go's \<open>bytes\<close>, \<open>strings\<close>, \<open>unicode\<close> and \<open>unicode/utf8\<close> packages that the SIP and SDP
  parsers use, on byte strings: searching, splitting, trimming, fields, case folding against ASCII
  names, and \<open>ToLower\<close> with the UTF-8 decoding that can change the length of its argument.
\<close>

section \<open>Searching and splitting\<close>

definition has_prefix :: "string \<Rightarrow> string \<Rightarrow> bool" where
  "has_prefix pre s \<longleftrightarrow> take (length pre) s = pre"

definition trim_prefix :: "string \<Rightarrow> string \<Rightarrow> string" where
  "trim_prefix pre s = (if has_prefix pre s then drop (length pre) s else s)"

fun index_byte :: "char \<Rightarrow> string \<Rightarrow> nat option" where
  "index_byte c [] = None"
| "index_byte c (x # xs) = (if x = c then Some 0 else map_option Suc (index_byte c xs))"

fun index_sub :: "string \<Rightarrow> string \<Rightarrow> nat option" where
  "index_sub pat [] = (if pat = [] then Some 0 else None)"
| "index_sub pat (x # xs) =
     (if has_prefix pat (x # xs) then Some 0 else map_option Suc (index_sub pat xs))"

definition go_contains :: "string \<Rightarrow> string \<Rightarrow> bool" where
  "go_contains s pat \<longleftrightarrow> index_sub pat s \<noteq> None"

lemma index_byte_Some:
  "index_byte c s = Some i \<Longrightarrow> i < length s \<and> s ! i = c \<and> c \<notin> set (take i s)"
  by (induction s arbitrary: i) (auto split: if_splits)

lemma index_byte_None: "index_byte c s = None \<longleftrightarrow> c \<notin> set s"
  by (induction s) auto

lemma index_byte_app: "c \<notin> set xs \<Longrightarrow> index_byte c (xs @ c # ys) = Some (length xs)"
  by (induction xs) auto

lemma index_byte_app_other:
  "c \<notin> set xs \<Longrightarrow> index_byte c (xs @ ys) = map_option (\<lambda>i. length xs + i) (index_byte c ys)"
  by (induction xs; cases "index_byte c ys") auto

lemma index_sub_bound: "index_sub pat s = Some i \<Longrightarrow> i + length pat \<le> length s"
proof (induction s arbitrary: i)
  case (Cons x xs)
  show ?case
  proof (cases "has_prefix pat (x # xs)")
    case True
    then have "length pat \<le> length (x # xs)" by (metis has_prefix_def length_take min.cobounded1 min.commute)
    with True Cons.prems show ?thesis by simp
  qed (use Cons in auto)
qed (auto split: if_splits)

text \<open>\<open>bytes.Split\<close> and \<open>SplitN\<close> with a non-empty separator.\<close>

fun split_fuel :: "nat \<Rightarrow> string \<Rightarrow> string \<Rightarrow> string list" where
  "split_fuel 0 sep s = [s]"
| "split_fuel (Suc n) sep s =
     (case index_sub sep s of
        None \<Rightarrow> [s]
      | Some i \<Rightarrow> take i s # split_fuel n sep (drop (i + length sep) s))"

text \<open>A text has fewer pieces than characters plus two, so this fuel never runs out.\<close>

definition go_split :: "string \<Rightarrow> string \<Rightarrow> string list" where
  "go_split s sep = split_fuel (Suc (length s)) sep s"

definition go_split_n :: "string \<Rightarrow> string \<Rightarrow> nat \<Rightarrow> string list" where
  "go_split_n s sep n = split_fuel (n - 1) sep s"

lemma split_fuel_nonempty [simp]: "split_fuel n sep s \<noteq> []"
  by (cases n) (auto split: option.split)

lemma go_split_nonempty [simp]: "go_split s sep \<noteq> []"
  unfolding go_split_def by (rule split_fuel_nonempty)

lemma split_fuel_enough:
  "sep \<noteq> [] \<Longrightarrow> length s < n \<Longrightarrow> split_fuel (n + k) sep s = split_fuel n sep s"
proof (induction n arbitrary: s)
  case (Suc n)
  show ?case
  proof (cases "index_sub sep s")
    case (Some i)
    have "i + length sep \<le> length s" using index_sub_bound [OF Some] .
    moreover have "0 < length sep" using Suc.prems by simp
    ultimately have "length (drop (i + length sep) s) < n"
      using Suc.prems(2) unfolding length_drop by linarith
    with Some Suc show ?thesis by simp
  qed simp
qed simp

section \<open>White space\<close>

text \<open>The UTF-8 encodings of the characters for which \<open>unicode.IsSpace\<close> holds.\<close>

definition space_encodings :: "string list" where
  "space_encodings = map (map char_of)
    [[9], [10], [11], [12], [13], [32], [194, 133], [194, 160], [225, 154, 128], [226, 128, 128],
     [226, 128, 129], [226, 128, 130], [226, 128, 131], [226, 128, 132], [226, 128, 133], [226,
     128, 134], [226, 128, 135], [226, 128, 136], [226, 128, 137], [226, 128, 138], [226, 128,
     168], [226, 128, 169], [226, 128, 175], [226, 129, 159], [227, 128, 128] :: nat list]"

definition space_prefix :: "string list \<Rightarrow> string \<Rightarrow> nat option" where
  "space_prefix encs s = map_option length (find (\<lambda>e. e \<noteq> [] \<and> has_prefix e s) encs)"

lemma space_prefix_pos: "space_prefix encs s = Some n \<Longrightarrow> 0 < n \<and> n \<le> length s"
proof -
  assume "space_prefix encs s = Some n"
  then obtain e where "e \<noteq> []" "has_prefix e s" "n = length e"
    by (auto simp: space_prefix_def find_Some_iff)
  then show ?thesis by (metis has_prefix_def length_greater_0_conv length_take min.cobounded1 min.commute)
qed

function trim_with :: "string list \<Rightarrow> string \<Rightarrow> string" where
  "trim_with encs s =
     (case space_prefix encs s of None \<Rightarrow> s | Some n \<Rightarrow> trim_with encs (drop n s))"
  by pat_completeness auto
termination
  by (relation "measure (\<lambda>(encs, s). length s)") (auto dest: space_prefix_pos)

declare trim_with.simps [simp del]

definition trim_left_space :: "string \<Rightarrow> string" where
  "trim_left_space s = trim_with space_encodings s"

definition trim_right_space :: "string \<Rightarrow> string" where
  "trim_right_space s = rev (trim_with (map rev space_encodings) (rev s))"

definition trim_space :: "string \<Rightarrow> string" where
  "trim_space s = trim_right_space (trim_left_space s)"

function fields_loop :: "string \<Rightarrow> string \<Rightarrow> string list" where
  "fields_loop cur s =
     (if s = [] then (if cur = [] then [] else [cur])
      else case space_prefix space_encodings s of
        Some n \<Rightarrow> (if cur = [] then [] else [cur]) @ fields_loop [] (drop n s)
      | None \<Rightarrow> fields_loop (cur @ [hd s]) (tl s))"
  by pat_completeness auto
termination
  by (relation "measure (\<lambda>(cur, s). length s)") (auto dest: space_prefix_pos)

declare fields_loop.simps [simp del]

definition go_fields :: "string \<Rightarrow> string list" where
  "go_fields s = fields_loop [] s"

text \<open>\<open>bytes.TrimLeft(s, " \t")\<close>.\<close>

definition trim_left_blank :: "string \<Rightarrow> string" where
  "trim_left_blank s = dropWhile (\<lambda>c. c = CHR '' '' \<or> c = CHR 0x09) s"

lemma trim_with_suffix: "\<exists>pre. s = pre @ trim_with encs s"
proof (induction encs s rule: trim_with.induct)
  case (1 encs s)
  show ?case
  proof (cases "space_prefix encs s")
    case None
    then show ?thesis by (subst trim_with.simps) simp
  next
    case (Some n)
    from 1 [OF Some] obtain pre where "drop n s = pre @ trim_with encs (drop n s)" ..
    then have "s = (take n s @ pre) @ trim_with encs (drop n s)" by (metis append_assoc append_take_drop_id)
    moreover have "trim_with encs s = trim_with encs (drop n s)"
      using Some by (subst trim_with.simps) simp
    ultimately show ?thesis by metis
  qed
qed

lemma trim_space_part: "\<exists>pre post. s = pre @ trim_space s @ post"
proof -
  obtain pre where "s = pre @ trim_left_space s" using trim_with_suffix unfolding trim_left_space_def by blast
  moreover obtain post where "rev (trim_left_space s) = post @ rev (trim_space s)"
    using trim_with_suffix unfolding trim_space_def trim_right_space_def by (metis rev_rev_ident)
  then have "trim_left_space s = trim_space s @ rev post" by (metis rev_append rev_rev_ident)
  ultimately show ?thesis by metis
qed

lemma trim_space_set: "set (trim_space s) \<subseteq> set s"
  using trim_space_part [of s] by (metis Un_upper1 Un_upper2 set_append sup.coboundedI2)

text \<open>Text that starts and ends with a visible ASCII character is not trimmed.\<close>

definition visible :: "char \<Rightarrow> bool" where
  "visible c \<longleftrightarrow> 32 < code c \<and> code c < 127"

lemma space_encodings_invisible:
  "list_all (\<lambda>e. \<not> visible (hd e)) space_encodings"
  "list_all (\<lambda>e. \<not> visible (hd e)) (map rev space_encodings)"
  by (simp_all add: space_encodings_def visible_def)

lemma no_space_prefix:
  assumes "list_all (\<lambda>e. \<not> visible (hd e)) encs" and "visible (hd s)"
  shows "space_prefix encs s = None"
proof -
  have "\<not> (e \<noteq> [] \<and> has_prefix e s)" if "e \<in> set encs" for e
  proof
    assume e: "e \<noteq> [] \<and> has_prefix e s"
    then have "hd e = hd s" by (metis has_prefix_def hd_take take_eq_Nil zero_less_iff_neq_zero length_0_conv)
    with assms that show False by (auto simp: list_all_iff)
  qed
  then show ?thesis unfolding space_prefix_def find_None_iff option.map_disc_iff by blast
qed

lemmas space_prefix_visible = no_space_prefix [OF space_encodings_invisible(1)]
lemmas space_suffix_visible = no_space_prefix [OF space_encodings_invisible(2)]

lemma trim_space_visible:
  assumes "s \<noteq> []" and "visible (hd s)" and "visible (last s)"
  shows "trim_space s = s"
proof -
  have "trim_left_space s = s"
    unfolding trim_left_space_def using assms(2) by (subst trim_with.simps) (simp add: space_prefix_visible)
  moreover have "visible (hd (rev s))" using assms by (simp add: hd_rev)
  then have "trim_with (map rev space_encodings) (rev s) = rev s"
    by (subst trim_with.simps) (simp add: space_suffix_visible)
  ultimately show ?thesis by (simp add: trim_space_def trim_right_space_def)
qed

section \<open>UTF-8 and lower case\<close>

definition cont_byte :: "nat \<Rightarrow> nat \<Rightarrow> nat \<Rightarrow> bool" where
  "cont_byte lo hi b \<longleftrightarrow> lo \<le> b \<and> b \<le> hi"

text \<open>\<open>utf8.DecodeRune\<close> on the bytes of a non-empty text: the rune and its width; an invalid byte is the
  replacement character with width 1.\<close>

fun decode_rune :: "nat list \<Rightarrow> nat \<times> nat" where
  "decode_rune [] = (65533, 1)"
| "decode_rune (p # bs) =
     (if p < 128 then (p, 1)
      else case bs of
        b1 # bs1 \<Rightarrow>
          if 194 \<le> p \<and> p \<le> 223 \<and> cont_byte 128 191 b1
          then ((p - 192) * 64 + (b1 - 128), 2)
          else if 224 \<le> p \<and> p \<le> 239 \<and>
                  cont_byte (if p = 224 then 160 else 128) (if p = 237 then 159 else 191) b1
          then (case bs1 of
                  b2 # _ \<Rightarrow> if cont_byte 128 191 b2
                             then ((p - 224) * 4096 + (b1 - 128) * 64 + (b2 - 128), 3) else (65533, 1)
                | [] \<Rightarrow> (65533, 1))
          else if 240 \<le> p \<and> p \<le> 244 \<and>
                  cont_byte (if p = 240 then 144 else 128) (if p = 244 then 143 else 191) b1
          then (case bs1 of
                  b2 # b3 # _ \<Rightarrow> if cont_byte 128 191 b2 \<and> cont_byte 128 191 b3
                             then ((p - 240) * 262144 + (b1 - 128) * 4096 + (b2 - 128) * 64 + (b3 - 128), 4)
                             else (65533, 1)
                | _ \<Rightarrow> (65533, 1))
          else (65533, 1)
      | [] \<Rightarrow> (65533, 1))"

definition encode_rune :: "nat \<Rightarrow> nat list" where
  "encode_rune r =
     (if r < 128 then [r]
      else if r < 2048 then [192 + r div 64, 128 + r mod 64]
      else if 1114111 < r \<or> 55296 \<le> r \<and> r \<le> 57343 then [239, 191, 189]
      else if r < 65536 then [224 + r div 4096, 128 + r div 64 mod 64, 128 + r mod 64]
      else [240 + r div 262144, 128 + r div 4096 mod 64, 128 + r div 64 mod 64, 128 + r mod 64])"

text \<open>
  \<open>unicode.ToLower\<close>: the simple lower-case mappings of Unicode as ranges \<open>(first, last, stride, delta)\<close>.
\<close>

definition lower_ranges :: "(nat \<times> nat \<times> nat \<times> int) list" where
  "lower_ranges =
    [(192, 214, 1, 32), (216, 222, 1, 32), (256, 302, 2, 1), (304, 304, 1, - 199),
      (306, 310, 2, 1), (313, 327, 2, 1), (330, 374, 2, 1), (376, 376, 1, - 121), (377, 381, 2, 1),
      (385, 385, 1, 210), (386, 388, 2, 1), (390, 390, 1, 206), (391, 391, 1, 1),
      (393, 394, 1, 205), (395, 395, 1, 1), (398, 398, 1, 79), (399, 399, 1, 202),
      (400, 400, 1, 203), (401, 401, 1, 1), (403, 403, 1, 205), (404, 404, 1, 207),
      (406, 406, 1, 211), (407, 407, 1, 209), (408, 408, 1, 1), (412, 412, 1, 211),
      (413, 413, 1, 213), (415, 415, 1, 214), (416, 420, 2, 1), (422, 422, 1, 218),
      (423, 423, 1, 1), (425, 425, 1, 218), (428, 428, 1, 1), (430, 430, 1, 218), (431, 431, 1, 1),
      (433, 434, 1, 217), (435, 437, 2, 1), (439, 439, 1, 219), (440, 440, 1, 1), (444, 444, 1, 1),
      (452, 452, 1, 2), (453, 453, 1, 1), (455, 455, 1, 2), (456, 456, 1, 1), (458, 458, 1, 2),
      (459, 475, 2, 1), (478, 494, 2, 1), (497, 497, 1, 2), (498, 500, 2, 1), (502, 502, 1, - 97),
      (503, 503, 1, - 56), (504, 542, 2, 1), (544, 544, 1, - 130), (546, 562, 2, 1),
      (570, 570, 1, 10795), (571, 571, 1, 1), (573, 573, 1, - 163), (574, 574, 1, 10792),
      (577, 577, 1, 1), (579, 579, 1, - 195), (580, 580, 1, 69), (581, 581, 1, 71),
      (582, 590, 2, 1), (880, 882, 2, 1), (886, 886, 1, 1), (895, 895, 1, 116), (902, 902, 1, 38),
      (904, 906, 1, 37), (908, 908, 1, 64), (910, 911, 1, 63), (913, 929, 1, 32),
      (931, 939, 1, 32), (975, 975, 1, 8), (984, 1006, 2, 1), (1012, 1012, 1, - 60),
      (1015, 1015, 1, 1), (1017, 1017, 1, - 7), (1018, 1018, 1, 1), (1021, 1023, 1, - 130),
      (1024, 1039, 1, 80), (1040, 1071, 1, 32), (1120, 1152, 2, 1), (1162, 1214, 2, 1),
      (1216, 1216, 1, 15), (1217, 1229, 2, 1), (1232, 1326, 2, 1), (1329, 1366, 1, 48),
      (4256, 4293, 1, 7264), (4295, 4295, 1, 7264), (4301, 4301, 1, 7264), (5024, 5103, 1, 38864),
      (5104, 5109, 1, 8), (7312, 7354, 1, - 3008), (7357, 7359, 1, - 3008), (7680, 7828, 2, 1),
      (7838, 7838, 1, - 7615), (7840, 7934, 2, 1), (7944, 7951, 1, - 8), (7960, 7965, 1, - 8),
      (7976, 7983, 1, - 8), (7992, 7999, 1, - 8), (8008, 8013, 1, - 8), (8025, 8031, 2, - 8),
      (8040, 8047, 1, - 8), (8072, 8079, 1, - 8), (8088, 8095, 1, - 8), (8104, 8111, 1, - 8),
      (8120, 8121, 1, - 8), (8122, 8123, 1, - 74), (8124, 8124, 1, - 9), (8136, 8139, 1, - 86),
      (8140, 8140, 1, - 9), (8152, 8153, 1, - 8), (8154, 8155, 1, - 100), (8168, 8169, 1, - 8),
      (8170, 8171, 1, - 112), (8172, 8172, 1, - 7), (8184, 8185, 1, - 128), (8186, 8187, 1, - 126),
      (8188, 8188, 1, - 9), (8486, 8486, 1, - 7517), (8490, 8490, 1, - 8383),
      (8491, 8491, 1, - 8262), (8498, 8498, 1, 28), (8544, 8559, 1, 16), (8579, 8579, 1, 1),
      (9398, 9423, 1, 26), (11264, 11311, 1, 48), (11360, 11360, 1, 1), (11362, 11362, 1, - 10743),
      (11363, 11363, 1, - 3814), (11364, 11364, 1, - 10727), (11367, 11371, 2, 1),
      (11373, 11373, 1, - 10780), (11374, 11374, 1, - 10749), (11375, 11375, 1, - 10783),
      (11376, 11376, 1, - 10782), (11378, 11378, 1, 1), (11381, 11381, 1, 1),
      (11390, 11391, 1, - 10815), (11392, 11490, 2, 1), (11499, 11501, 2, 1), (11506, 11506, 1, 1),
      (42560, 42604, 2, 1), (42624, 42650, 2, 1), (42786, 42798, 2, 1), (42802, 42862, 2, 1),
      (42873, 42875, 2, 1), (42877, 42877, 1, - 35332), (42878, 42886, 2, 1), (42891, 42891, 1, 1),
      (42893, 42893, 1, - 42280), (42896, 42898, 2, 1), (42902, 42920, 2, 1),
      (42922, 42922, 1, - 42308), (42923, 42923, 1, - 42319), (42924, 42924, 1, - 42315),
      (42925, 42925, 1, - 42305), (42926, 42926, 1, - 42308), (42928, 42928, 1, - 42258),
      (42929, 42929, 1, - 42282), (42930, 42930, 1, - 42261), (42931, 42931, 1, 928),
      (42932, 42946, 2, 1), (42948, 42948, 1, - 48), (42949, 42949, 1, - 42307),
      (42950, 42950, 1, - 35384), (42951, 42953, 2, 1), (42960, 42960, 1, 1), (42966, 42968, 2, 1),
      (42997, 42997, 1, 1), (65313, 65338, 1, 32), (66560, 66599, 1, 40), (66736, 66771, 1, 40),
      (66928, 66938, 1, 39), (66940, 66954, 1, 39), (66956, 66962, 1, 39), (66964, 66965, 1, 39),
      (68736, 68786, 1, 64), (71840, 71871, 1, 32), (93760, 93791, 1, 32), (125184, 125217, 1, 34)]"

definition lower_rune :: "nat \<Rightarrow> nat" where
  "lower_rune r =
     (if r < 128 then (if 65 \<le> r \<and> r \<le> 90 then r + 32 else r)
      else case find (\<lambda>(lo, hi, st, d). lo \<le> r \<and> r \<le> hi \<and> (r - lo) mod st = 0) lower_ranges of
        None \<Rightarrow> r
      | Some (lo, hi, st, d) \<Rightarrow> nat (int r + d))"

lemma decode_rune_width: "0 < snd (decode_rune bs)"
  by (induction bs rule: decode_rune.induct) (auto split: list.split)

function lower_bytes :: "nat list \<Rightarrow> nat list" where
  "lower_bytes bs =
     (if bs = [] then []
      else encode_rune (lower_rune (fst (decode_rune bs))) @ lower_bytes (drop (snd (decode_rune bs)) bs))"
  by pat_completeness auto
termination
  by (relation "measure length") (use decode_rune_width in auto)

declare lower_bytes.simps [simp del]

text \<open>\<open>bytes.ToLower\<close>.\<close>

definition go_to_lower :: "string \<Rightarrow> string" where
  "go_to_lower s = map char_of (lower_bytes (map of_char s))"

lemma lower_bytes_ascii:
  "list_all (\<lambda>b. b < 128) bs \<Longrightarrow> lower_bytes bs = map lower_rune bs"
proof (induction bs)
  case Nil
  show ?case by (subst lower_bytes.simps) simp
next
  case (Cons b bs)
  have "lower_rune b < 128" using Cons.prems by (simp add: lower_rune_def)
  with Cons show ?case by (subst lower_bytes.simps) (simp add: encode_rune_def)
qed

definition ascii :: "string \<Rightarrow> bool" where
  "ascii s \<longleftrightarrow> list_all (\<lambda>c. code c < 128) s"

definition lower_char :: "char \<Rightarrow> char" where
  "lower_char c = (if 65 \<le> code c \<and> code c \<le> 90 then char_of (code c + 32) else c)"

lemma go_to_lower_ascii: "ascii s \<Longrightarrow> go_to_lower s = map lower_char s"
  by (auto simp: go_to_lower_def ascii_def lower_bytes_ascii list_all_iff lower_rune_def lower_char_def)

text \<open>\<open>bytes.EqualFold\<close> against an ASCII name: the long s and the Kelvin sign fold to \<open>s\<close> and \<open>k\<close>.\<close>

fun equal_fold :: "string \<Rightarrow> string \<Rightarrow> bool" where
  "equal_fold [] [] \<longleftrightarrow> True"
| "equal_fold [] (n # ns) \<longleftrightarrow> False"
| "equal_fold (x # xs) [] \<longleftrightarrow> False"
| "equal_fold (x # xs) (n # ns) \<longleftrightarrow>
     (lower_char x = lower_char n \<and> equal_fold xs ns) \<or>
     (lower_char n = CHR ''s'' \<and> code x = 197 \<and> xs \<noteq> [] \<and> code (hd xs) = 191 \<and> equal_fold (tl xs) ns) \<or>
     (lower_char n = CHR ''k'' \<and> code x = 226 \<and> 2 \<le> length xs \<and> code (xs ! 0) = 132 \<and>
        code (xs ! 1) = 170 \<and> equal_fold (drop 2 xs) ns)"

lemma equal_fold_refl: "equal_fold s s"
  by (induction s) simp_all

end
