(* ===== verification/Media_Tracker.thy ===== *)
theory Media_Tracker
  imports Go_Text Rtp_Stream Mos_Model
begin

text \<open>
  Package \<open>internal/mediatracker\<close>, files \<open>tracker.go\<close> and \<open>endpoint.go\<close>: the tracker that correlates
  RTP and RTCP packets with SIP dialogs through the media endpoints of their SDP.  The mutex makes
  each operation one step on the state.  Endpoints registered by several dialogs are kept by an
  ownership registry (\<open>owned\<close>), used once for media and once for RTCP endpoints, as the code does
  with its two groups of maps.  The stream entries are reached only through the \<open>streams\<close> map, so
  the pointer the code updates through is an update of that map.
\<close>

section \<open>Endpoint keys\<close>

record endpoint_key =
  ek_fallback_ip :: string
  ek_ipv4 :: ipv4
  ek_port :: u16
  ek_is_ipv4 :: bool

definition zero_ipv4 :: ipv4 where "zero_ipv4 = (0, 0, 0, 0)"

definition new_binary_endpoint_key :: "string \<Rightarrow> u16 \<Rightarrow> endpoint_key" where
  "new_binary_endpoint_key ip port =
     (case parse_ipv4 ip of
        None \<Rightarrow> \<lparr>ek_fallback_ip = ip, ek_ipv4 = zero_ipv4, ek_port = port, ek_is_ipv4 = False\<rparr>
      | Some b \<Rightarrow> \<lparr>ek_fallback_ip = [], ek_ipv4 = b, ek_port = port, ek_is_ipv4 = True\<rparr>)"

definition new_ipv4_endpoint_key :: "ipv4 \<Rightarrow> u16 \<Rightarrow> endpoint_key" where
  "new_ipv4_endpoint_key ip port =
     \<lparr>ek_fallback_ip = [], ek_ipv4 = ip, ek_port = port, ek_is_ipv4 = True\<rparr>"

definition ip_string :: "endpoint_key \<Rightarrow> string" where
  "ip_string k = (if \<not> ek_is_ipv4 k then ek_fallback_ip k else ipv4_string (ek_ipv4 k))"

definition same_ip :: "endpoint_key \<Rightarrow> endpoint_key \<Rightarrow> bool" where
  "same_ip k k' =
     (if ek_is_ipv4 k \<noteq> ek_is_ipv4 k' then False
      else if ek_is_ipv4 k then ek_ipv4 k = ek_ipv4 k'
      else ek_fallback_ip k = ek_fallback_ip k')"

section \<open>The tracker's data\<close>

record media_labels =
  ml_carrier :: string
  ml_ua_type :: string
  ml_source_country :: string
  ml_direction :: string
  ml_call_id :: string
  ml_sdp_codecs :: "(u8, string) gomap"
  ml_clock_rates :: "(u8, u32) gomap"

definition zero_media_labels :: media_labels where
  "zero_media_labels = \<lparr>ml_carrier = [], ml_ua_type = [], ml_source_country = [], ml_direction = [],
     ml_call_id = [], ml_sdp_codecs = [], ml_clock_rates = []\<rparr>"

record media_endpoint =
  me_ip :: string
  me_port :: u16

definition endpoint_of :: "endpoint_key \<Rightarrow> media_endpoint" where
  "endpoint_of k = \<lparr>me_ip = ip_string k, me_port = ek_port k\<rparr>"

record rtcp_media_entry =
  re_call_id :: string
  re_rtp_endpoint :: endpoint_key

definition zero_endpoint_key :: endpoint_key where
  "zero_endpoint_key = \<lparr>ek_fallback_ip = [], ek_ipv4 = zero_ipv4, ek_port = 0, ek_is_ipv4 = False\<rparr>"

definition zero_rtcp_entry :: rtcp_media_entry where
  "zero_rtcp_entry = \<lparr>re_call_id = [], re_rtp_endpoint = zero_endpoint_key\<rparr>"

record stream_key =
  sk_endpoint :: endpoint_key
  sk_ssrc :: u32

record stream_entry =
  se_state :: stream_state
  se_labels :: media_labels
  se_codec :: string
  se_last_rtcp :: time
  se_rtcp_prev_loss :: int
  se_rtcp_loss_seen :: bool

text \<open>
  The ownership registry: who owns an endpoint, in order of registration; what each dialog
  registered; and the entry that is current for an endpoint.  It stands for \<open>mediaOwners\<close>,
  \<open>callMedia\<close>, \<open>media\<close> and for \<open>rtcpOwners\<close>, \<open>callRTCP\<close>, \<open>rtcpMedia\<close>.
\<close>

record 'v owned =
  ow_owners :: "(endpoint_key, string list) gomap"
  ow_calls :: "(string, (endpoint_key, 'v) gomap) gomap"
  ow_current :: "(endpoint_key, 'v) gomap"

record tracker =
  tk_streams :: "(stream_key, stream_entry) gomap"
  tk_media :: "media_labels owned"
  tk_call_media_order :: "(string, endpoint_key list) gomap"
  tk_source_aliases :: "(string, (endpoint_key, endpoint_key) gomap) gomap"
  tk_media_aliases :: "(endpoint_key, media_labels) gomap"
  tk_rtcp :: "rtcp_media_entry owned"
  tk_call_rtp :: "(string, endpoint_key list) gomap"
  tk_dialog_rtp_observed :: "(string, bool) gomap"
  tk_ssrc_index :: "(u32, stream_key list) gomap"
  tk_ttl :: duration

definition no_owned :: "'v owned" where
  "no_owned = \<lparr>ow_owners = [], ow_calls = [], ow_current = []\<rparr>"

definition new_tracker :: "duration \<Rightarrow> tracker" where
  "new_tracker ttl = \<lparr>tk_streams = [], tk_media = no_owned, tk_call_media_order = [],
     tk_source_aliases = [], tk_media_aliases = [], tk_rtcp = no_owned, tk_call_rtp = [],
     tk_dialog_rtp_observed = [], tk_ssrc_index = [], tk_ttl = ttl\<rparr>"

definition set_ttl :: "duration \<Rightarrow> tracker \<Rightarrow> tracker" where
  "set_ttl ttl t = t\<lparr>tk_ttl := ttl\<rparr>"

section \<open>The ownership registry\<close>

definition own_entries :: "string \<Rightarrow> 'v owned \<Rightarrow> (endpoint_key, 'v) gomap" where
  "own_entries c s = mget_or [] (ow_calls s) c"

text \<open>Register an endpoint for a dialog; the flag says that the dialog did not own it before.\<close>

definition own_add :: "string \<Rightarrow> endpoint_key \<Rightarrow> 'v \<Rightarrow> 'v owned \<Rightarrow> bool \<times> 'v owned" where
  "own_add c k v s =
     (let owned_before = (mget (own_entries c s) k \<noteq> None);
          s1 = s\<lparr>ow_calls := mput c (mput k v (own_entries c s)) (ow_calls s)\<rparr>;
          s2 = (if \<not> owned_before
                then s1\<lparr>ow_owners := mput k (mget_or [] (ow_owners s1) k @ [c]) (ow_owners s1)\<rparr> else s1)
      in (\<not> owned_before, s2\<lparr>ow_current := mput k v (ow_current s2)\<rparr>))"

text \<open>\<open>removeOwner\<close>: the first occurrence goes.\<close>

definition remove_owner :: "string list \<Rightarrow> string \<Rightarrow> string list" where
  "remove_owner owners c = remove1 c owners"

text \<open>One endpoint of a dialog being removed: the latest remaining owner's entry becomes current.\<close>

definition own_release :: "string \<Rightarrow> 'v \<Rightarrow> 'v owned \<Rightarrow> endpoint_key \<Rightarrow> 'v owned" where
  "own_release c z s k =
     (let owners = remove_owner (mget_or [] (ow_owners s) k) c
      in if owners = [] then
           s\<lparr>ow_owners := mdel k (ow_owners s), ow_current := mdel k (ow_current s)\<rparr>
         else
           s\<lparr>ow_owners := mput k owners (ow_owners s),
             ow_current := mput k (mget_or z (own_entries (last owners) s) k) (ow_current s)\<rparr>)"

definition own_remove_call :: "string \<Rightarrow> 'v \<Rightarrow> 'v owned \<Rightarrow> 'v owned" where
  "own_remove_call c z s =
     (let s' = foldl (own_release c z) s (mkeys (own_entries c s))
      in s'\<lparr>ow_calls := mdel c (ow_calls s')\<rparr>)"

section \<open>Registration\<close>

definition remove_ssrc_index :: "stream_key \<Rightarrow> tracker \<Rightarrow> tracker" where
  "remove_ssrc_index key t =
     (let keys = mget_or [] (tk_ssrc_index t) (sk_ssrc key)
      in if key \<in> set keys then
           if length keys = 1 then t\<lparr>tk_ssrc_index := mdel (sk_ssrc key) (tk_ssrc_index t)\<rparr>
           else t\<lparr>tk_ssrc_index := mput (sk_ssrc key) (remove1 key keys) (tk_ssrc_index t)\<rparr>
         else t)"

definition delete_stream :: "tracker \<Rightarrow> stream_key \<Rightarrow> tracker" where
  "delete_stream t key =
     (let t' = remove_ssrc_index key t in t'\<lparr>tk_streams := mdel key (tk_streams t')\<rparr>)"

text \<open>The loops that delete the streams with a property while they range over the map.\<close>

definition delete_streams_if :: "(stream_key \<Rightarrow> stream_entry \<Rightarrow> bool) \<Rightarrow> tracker \<Rightarrow> tracker" where
  "delete_streams_if p t = foldl delete_stream t (mkeys (filter (\<lambda>(k, e). p k e) (tk_streams t)))"

text \<open>Delete one peer whose alias is the key (the loop breaks after the first).\<close>

fun delete_alias_value :: "endpoint_key \<Rightarrow> (endpoint_key, endpoint_key) gomap \<Rightarrow> (endpoint_key, endpoint_key) gomap" where
  "delete_alias_value key [] = []"
| "delete_alias_value key ((peer, alias) # m) =
     (if alias = key then m else (peer, alias) # delete_alias_value key m)"

definition displace_alias :: "endpoint_key \<Rightarrow> media_labels \<Rightarrow> tracker \<Rightarrow> tracker" where
  "displace_alias key alias_labels t =
     (let c = ml_call_id alias_labels;
          inner = delete_alias_value key (mget_or [] (tk_source_aliases t) c);
          t1 = t\<lparr>tk_source_aliases :=
                 (if inner = [] then mdel c (tk_source_aliases t) else mput c inner (tk_source_aliases t))\<rparr>;
          t2 = t1\<lparr>tk_media_aliases := mdel key (tk_media_aliases t1)\<rparr>
      in delete_streams_if (\<lambda>k e. sk_endpoint k = key \<and> ml_call_id (se_labels e) = c) t2)"

record register_result =
  rr_added :: bool
  rr_displaced_alias :: "(media_endpoint \<times> string) option"

definition tracker_register :: "string \<Rightarrow> u16 \<Rightarrow> media_labels \<Rightarrow> tracker \<Rightarrow> register_result \<times> tracker" where
  "tracker_register ip port labels t =
     (let key = new_binary_endpoint_key ip port;
          c = ml_call_id labels;
          (displaced, t1) =
            (case mget (tk_media_aliases t) key of
               None \<Rightarrow> (None, t)
             | Some al \<Rightarrow> (Some (\<lparr>me_ip = ip, me_port = port\<rparr>, ml_call_id al), displace_alias key al t));
          (added, media) = own_add c key labels (tk_media t1);
          t2 = t1\<lparr>tk_media := media\<rparr>;
          t3 = (if added
                then t2\<lparr>tk_call_media_order :=
                      mput c (mget_or [] (tk_call_media_order t2) c @ [key]) (tk_call_media_order t2)\<rparr>
                else t2)
      in (\<lparr>rr_added = added, rr_displaced_alias = displaced\<rparr>, t3))"

definition tracker_register_rtcp :: "string \<Rightarrow> u16 \<Rightarrow> string \<Rightarrow> u16 \<Rightarrow> string \<Rightarrow> tracker
    \<Rightarrow> bool \<times> tracker" where
  "tracker_register_rtcp ip port rtp_ip rtp_port call_id t =
     (let key = new_binary_endpoint_key ip port;
          entry = \<lparr>re_call_id = call_id, re_rtp_endpoint = new_binary_endpoint_key rtp_ip rtp_port\<rparr>;
          (added, rtcp) = own_add call_id key entry (tk_rtcp t)
      in (added, t\<lparr>tk_rtcp := rtcp\<rparr>))"

section \<open>Removal\<close>

definition owned_endpoints :: "string \<Rightarrow> tracker \<Rightarrow> media_endpoint list" where
  "owned_endpoints c t =
     map (\<lambda>(k, v). endpoint_of k) (own_entries c (tk_media t)) @
     map (\<lambda>(peer, alias). endpoint_of alias) (mget_or [] (tk_source_aliases t) c) @
     map (\<lambda>(k, v). endpoint_of k) (own_entries c (tk_rtcp t))"

definition remove_call_media :: "string \<Rightarrow> tracker \<Rightarrow> media_endpoint list \<times> tracker" where
  "remove_call_media c t =
     (let deleted_media = map endpoint_of (mkeys (own_entries c (tk_media t)));
          t1 = t\<lparr>tk_media := own_remove_call c zero_media_labels (tk_media t)\<rparr>;
          t2 = t1\<lparr>tk_call_media_order := mdel c (tk_call_media_order t1)\<rparr>;
          aliases = map snd (mget_or [] (tk_source_aliases t2) c);
          deleted_aliases = map endpoint_of aliases;
          t3 = t2\<lparr>tk_media_aliases := foldl (\<lambda>m a. mdel a m) (tk_media_aliases t2) aliases\<rparr>;
          t4 = t3\<lparr>tk_source_aliases := mdel c (tk_source_aliases t3)\<rparr>;
          deleted_rtcp = map endpoint_of (mkeys (own_entries c (tk_rtcp t4)));
          t5 = t4\<lparr>tk_rtcp := own_remove_call c zero_rtcp_entry (tk_rtcp t4)\<rparr>;
          t6 = t5\<lparr>tk_call_rtp := mdel c (tk_call_rtp t5)\<rparr>
      in (deleted_media @ deleted_aliases @ deleted_rtcp,
          delete_streams_if (\<lambda>k e. ml_call_id (se_labels e) = c) t6))"

record rtp_dialog_result =
  rd_media_expected :: bool
  rd_rtp_observed :: bool
  rd_one_way :: bool

definition tracker_unregister :: "string \<Rightarrow> tracker
    \<Rightarrow> (rtp_dialog_result \<times> media_endpoint list) \<times> tracker" where
  "tracker_unregister c t =
     (let media_count = length (own_entries c (tk_media t));
          rtp_count = length (mget_or [] (tk_call_rtp t) c);
          observed = mget_or False (tk_dialog_rtp_observed t) c;
          (deleted, t1) = remove_call_media c t;
          t2 = t1\<lparr>tk_dialog_rtp_observed := mdel c (tk_dialog_rtp_observed t1)\<rparr>
      in ((\<lparr>rd_media_expected = (0 < media_count), rd_rtp_observed = observed,
            rd_one_way = (2 \<le> media_count \<and> rtp_count = 1)\<rparr>, deleted), t2))"

definition tracker_replace :: "string \<Rightarrow> tracker \<Rightarrow> media_endpoint list \<times> tracker" where
  "tracker_replace c t = remove_call_media c t"

section \<open>Source aliases\<close>

definition can_learn_source_alias :: "string \<Rightarrow> endpoint_key \<Rightarrow> tracker \<Rightarrow> bool" where
  "can_learn_source_alias c matched t \<longleftrightarrow> mget_or [] (ow_owners (tk_media t)) matched = [c]"

text \<open>The peer of the matched endpoint in a dialog with exactly two endpoints.\<close>

fun alias_peer :: "endpoint_key list \<Rightarrow> endpoint_key \<Rightarrow> endpoint_key option" where
  "alias_peer [a, b] matched =
     (if a = matched then Some b else if b \<noteq> matched then None else Some a)"
| "alias_peer _ matched = None"

definition learn_source_alias :: "string \<Rightarrow> endpoint_key \<Rightarrow> endpoint_key \<Rightarrow> tracker
    \<Rightarrow> media_endpoint option \<times> tracker" where
  "learn_source_alias c matched source t =
     (let endpoints = mget_or [] (tk_call_media_order t) c
      in if length endpoints \<noteq> 2 \<or> \<not> can_learn_source_alias c matched t then (None, t)
         else case alias_peer endpoints matched of
           None \<Rightarrow> (None, t)
         | Some peer \<Rightarrow>
             if \<not> same_ip peer source \<or> ek_port peer = ek_port source then (None, t)
             else if mget (ow_current (tk_media t)) source \<noteq> None then (None, t)
             else if mget (tk_media_aliases t) source \<noteq> None then (None, t)
             else if mget (mget_or [] (tk_source_aliases t) c) peer \<noteq> None then (None, t)
             else
               (Some (endpoint_of source),
                t\<lparr>tk_source_aliases :=
                    mput c (mput peer source (mget_or [] (tk_source_aliases t) c)) (tk_source_aliases t),
                  tk_media_aliases :=
                    mput source (mget_or zero_media_labels (own_entries c (tk_media t)) peer)
                      (tk_media_aliases t)\<rparr>))"

definition tracker_learn_source_alias :: "string \<Rightarrow> string \<Rightarrow> u16 \<Rightarrow> string \<Rightarrow> u16 \<Rightarrow> tracker
    \<Rightarrow> media_endpoint option \<times> tracker" where
  "tracker_learn_source_alias c matched_ip matched_port source_ip source_port t =
     learn_source_alias c (new_binary_endpoint_key matched_ip matched_port)
       (new_binary_endpoint_key source_ip source_port) t"

section \<open>Lookup and observation\<close>

definition labels_at :: "endpoint_key \<Rightarrow> tracker \<Rightarrow> media_labels option" where
  "labels_at k t =
     (case mget (ow_current (tk_media t)) k of
        Some l \<Rightarrow> Some l
      | None \<Rightarrow> mget (tk_media_aliases t) k)"

definition tracker_lookup :: "string \<Rightarrow> u16 \<Rightarrow> tracker \<Rightarrow> media_labels option" where
  "tracker_lookup ip port t = labels_at (new_binary_endpoint_key ip port) t"

definition lookup_labels :: "endpoint_key \<Rightarrow> endpoint_key \<Rightarrow> tracker
    \<Rightarrow> (media_labels \<times> endpoint_key \<times> string) option" where
  "lookup_labels src dst t =
     (case mget (ow_current (tk_media t)) dst of
        Some l \<Rightarrow> Some (l, dst, ''dst'')
      | None \<Rightarrow>
     (case mget (tk_media_aliases t) dst of
        Some l \<Rightarrow> Some (l, dst, ''dst'')
      | None \<Rightarrow>
     (case mget (ow_current (tk_media t)) src of
        Some l \<Rightarrow> Some (l, src, ''src'')
      | None \<Rightarrow>
     (case mget (tk_media_aliases t) src of
        Some l \<Rightarrow> Some (l, src, ''src'')
      | None \<Rightarrow> None))))"

record observe_result =
  or_counted :: bool
  or_duplicate :: bool
  or_reorder :: bool
  or_lost :: nat
  or_delay_variation_ms :: real
  or_stream_packets_total :: nat
  or_matched_ip :: string
  or_matched_ipv4 :: ipv4
  or_matched_port :: u16
  or_matched_by :: string
  or_codec :: string
  or_labels :: media_labels
  or_learned_endpoint :: "media_endpoint option"

definition default_clock_rate :: u32 where "default_clock_rate = 8000"

definition clock_rate_for :: "media_labels \<Rightarrow> u8 \<Rightarrow> u32" where
  "clock_rate_for labels pt =
     (case mget (ml_clock_rates labels) pt of
        Some cr \<Rightarrow> if 0 < cr then cr else default_clock_rate
      | None \<Rightarrow> default_clock_rate)"

text \<open>The stream entry of the packet, created on the first packet of the flow.\<close>

definition ensure_stream :: "stream_key \<Rightarrow> media_labels \<Rightarrow> string \<Rightarrow> u32 \<Rightarrow> time \<Rightarrow> tracker \<Rightarrow> tracker" where
  "ensure_stream key labels codec rate arrival t =
     (if mget (tk_streams t) key \<noteq> None then t
      else
        let c = ml_call_id labels;
            entry = \<lparr>se_state = new_stream_state (sk_ssrc key) codec rate arrival, se_labels = labels,
                     se_codec = codec, se_last_rtcp = zero_time, se_rtcp_prev_loss = 0,
                     se_rtcp_loss_seen = False\<rparr>
        in t\<lparr>tk_streams := mput key entry (tk_streams t),
             tk_ssrc_index :=
               mput (sk_ssrc key) (mget_or [] (tk_ssrc_index t) (sk_ssrc key) @ [key]) (tk_ssrc_index t),
             tk_call_rtp :=
               mput c (List.insert (sk_endpoint key) (mget_or [] (tk_call_rtp t) c)) (tk_call_rtp t),
             tk_dialog_rtp_observed := mput c True (tk_dialog_rtp_observed t)\<rparr>)"

definition tracker_observe_keys :: "endpoint_key \<Rightarrow> endpoint_key \<Rightarrow> rtp_header \<Rightarrow> time \<Rightarrow> tracker
    \<Rightarrow> observe_result option \<times> tracker" where
  "tracker_observe_keys src dst h arrival t =
     (case lookup_labels src dst t of
        None \<Rightarrow> (None, t)
      | Some (labels, ep, matched_by) \<Rightarrow>
          let codec = codec_name (h_payload_type h) (ml_sdp_codecs labels);
              key = \<lparr>sk_endpoint = ep, sk_ssrc = h_ssrc h\<rparr>;
              t1 = ensure_stream key labels codec (clock_rate_for labels (h_payload_type h)) arrival t
          in case mget (tk_streams t1) key of
               None \<Rightarrow> (None, t1)
             | Some entry \<Rightarrow>
                 let old = se_state entry;
                     new = (if is_audio_codec codec then observe_audio h arrival old
                            else observe_non_audio h arrival old);
                     t2 = t1\<lparr>tk_streams := mput key (entry\<lparr>se_state := new\<rparr>) (tk_streams t1)\<rparr>;
                     counted = (st_total old < st_total new);
                     (learned, t3) = (if counted \<and> matched_by = ''dst''
                                      then learn_source_alias (ml_call_id labels) ep src t2
                                      else (None, t2))
                 in (Some \<lparr>or_counted = counted,
                           or_duplicate = (st_duplicate old < st_duplicate new),
                           or_reorder = (st_reorder old < st_reorder new),
                           or_lost = (if st_lost old \<le> st_lost new then st_lost new - st_lost old else 0),
                           or_delay_variation_ms = st_last_pdv_ms new,
                           or_stream_packets_total = st_total new,
                           or_matched_ip = [],
                           or_matched_ipv4 = ek_ipv4 ep,
                           or_matched_port = ek_port ep,
                           or_matched_by = matched_by,
                           or_codec = codec,
                           or_labels = labels,
                           or_learned_endpoint = learned\<rparr>, t3))"

definition tracker_observe :: "string \<Rightarrow> u16 \<Rightarrow> string \<Rightarrow> u16 \<Rightarrow> rtp_header \<Rightarrow> time \<Rightarrow> tracker
    \<Rightarrow> observe_result option \<times> tracker" where
  "tracker_observe src_ip src_port dst_ip dst_port h arrival t =
     (case tracker_observe_keys (new_binary_endpoint_key src_ip src_port)
             (new_binary_endpoint_key dst_ip dst_port) h arrival t of
        (None, t') \<Rightarrow> (None, t')
      | (Some r, t') \<Rightarrow>
          (Some (r\<lparr>or_matched_ip := (if or_matched_by r = ''src'' then src_ip else dst_ip)\<rparr>), t'))"

definition tracker_observe_ipv4 :: "ipv4 \<Rightarrow> u16 \<Rightarrow> ipv4 \<Rightarrow> u16 \<Rightarrow> rtp_header \<Rightarrow> time \<Rightarrow> tracker
    \<Rightarrow> observe_result option \<times> tracker" where
  "tracker_observe_ipv4 src_ip src_port dst_ip dst_port h arrival t =
     tracker_observe_keys (new_ipv4_endpoint_key src_ip src_port)
       (new_ipv4_endpoint_key dst_ip dst_port) h arrival t"

section \<open>Snapshot and expiry\<close>

record stream_stats =
  ss_ssrc :: u32
  ss_codec :: string
  ss_labels :: media_labels
  ss_packets_total :: nat
  ss_packets_lost :: nat
  ss_packets_duplicate :: nat
  ss_jitter_ms :: real
  ss_mos :: real
  ss_mos_f1 :: real
  ss_mos_f2 :: real
  ss_mos_adaptive :: real
  ss_r_factor :: real
  ss_burst_loss_density :: real
  ss_gap_loss_density :: real
  ss_last_seen :: time

definition stats_of :: "stream_entry \<Rightarrow> stream_stats" where
  "stats_of e =
     (let s = se_state e;
          expected = st_total s + st_lost s;
          lr = (if 0 < expected then real (st_lost s) / real expected else 0);
          j = jitter_ms s;
          r = compute_r_factor (se_codec e) lr j
      in \<lparr>ss_ssrc = st_ssrc s, ss_codec = se_codec e, ss_labels = se_labels e,
          ss_packets_total = st_total s, ss_packets_lost = st_lost s,
          ss_packets_duplicate = st_duplicate s, ss_jitter_ms = j,
          ss_mos = mos_from_r r, ss_mos_f1 = compute_mos_f1 (se_codec e) lr j,
          ss_mos_f2 = compute_mos_f2 (se_codec e) lr j,
          ss_mos_adaptive = compute_mos_adaptive (se_codec e) lr j, ss_r_factor = r,
          ss_burst_loss_density = burst_loss_density s, ss_gap_loss_density = gap_loss_density s,
          ss_last_seen = st_last_arrival s\<rparr>)"

definition tracker_snapshot :: "tracker \<Rightarrow> stream_stats list \<times> tracker" where
  "tracker_snapshot t =
     (let streams = map (\<lambda>(k, e). (k, e\<lparr>se_state := classify_loss_run (se_state e)\<rparr>)) (tk_streams t)
      in (map (\<lambda>(k, e). stats_of e) streams, t\<lparr>tk_streams := streams\<rparr>))"

definition stream_last_seen :: "stream_entry \<Rightarrow> time" where
  "stream_last_seen e =
     (if st_last_arrival (se_state e) < se_last_rtcp e then se_last_rtcp e
      else st_last_arrival (se_state e))"

definition tracker_cleanup :: "time \<Rightarrow> tracker \<Rightarrow> tracker" where
  "tracker_cleanup now t =
     delete_streams_if (\<lambda>k e. tk_ttl t < time_sub now (stream_last_seen e)) t"

definition stream_count :: "tracker \<Rightarrow> nat" where
  "stream_count t = length (tk_streams t)"

section \<open>RTCP\<close>

record rtcp_context =
  rc_labels :: media_labels
  rc_codec :: string
  rc_clock_rate :: u32

definition rtcp_context_of :: "stream_entry \<Rightarrow> rtcp_context" where
  "rtcp_context_of e = \<lparr>rc_labels = se_labels e, rc_codec = se_codec e,
     rc_clock_rate = st_clock_rate (se_state e)\<rparr>"

text \<open>An RTCP endpoint stands for the RTP endpoint it was registered with.\<close>

definition rtcp_to_rtp :: "tracker \<Rightarrow> endpoint_key \<Rightarrow> endpoint_key" where
  "rtcp_to_rtp t ep =
     (case mget (ow_current (tk_rtcp t)) ep of None \<Rightarrow> ep | Some r \<Rightarrow> re_rtp_endpoint r)"

text \<open>\<open>selectStream\<close>: the key of the stream the report is about.\<close>

definition select_stream :: "u32 \<Rightarrow> endpoint_key \<Rightarrow> endpoint_key \<Rightarrow> tracker \<Rightarrow> stream_key option" where
  "select_stream ssrc src dst t =
     (let keys = mget_or [] (tk_ssrc_index t) ssrc;
          found = (\<lambda>ep. find (\<lambda>k. sk_endpoint k = rtcp_to_rtp t ep \<and> mget (tk_streams t) k \<noteq> None) keys)
      in if keys = [] then None
         else case found dst of
           Some k \<Rightarrow> Some k
         | None \<Rightarrow>
         (case found src of
            Some k \<Rightarrow> Some k
          | None \<Rightarrow>
              if length keys = 1 \<and> mget (tk_streams t) (hd keys) \<noteq> None then Some (hd keys) else None))"

definition lookup_by_ssrc :: "u32 \<Rightarrow> string \<Rightarrow> u16 \<Rightarrow> string \<Rightarrow> u16 \<Rightarrow> tracker \<Rightarrow> rtcp_context option" where
  "lookup_by_ssrc ssrc src_ip src_port dst_ip dst_port t =
     (case select_stream ssrc (new_binary_endpoint_key src_ip src_port)
             (new_binary_endpoint_key dst_ip dst_port) t of
        None \<Rightarrow> None
      | Some k \<Rightarrow> map_option rtcp_context_of (mget (tk_streams t) k))"

text \<open>The loss baseline of a stream: the entry after a report, and the delta to count.\<close>

definition rtcp_loss_delta :: "int \<Rightarrow> stream_entry \<Rightarrow> nat \<times> stream_entry" where
  "rtcp_loss_delta cumulative e =
     (if cumulative < 0 then
        (0, if \<not> se_rtcp_loss_seen e
            then e\<lparr>se_rtcp_loss_seen := True, se_rtcp_prev_loss := cumulative\<rparr> else e)
      else
        let (delta, e') =
          (if \<not> se_rtcp_loss_seen e then (0, e\<lparr>se_rtcp_loss_seen := True\<rparr>)
           else if se_rtcp_prev_loss e \<le> cumulative then (nat (cumulative - se_rtcp_prev_loss e), e)
           else (nat cumulative, e))
        in (delta, e'\<lparr>se_rtcp_prev_loss := cumulative\<rparr>))"

definition record_rtcp_keys :: "u32 \<Rightarrow> int \<Rightarrow> endpoint_key \<Rightarrow> endpoint_key \<Rightarrow> time \<Rightarrow> tracker
    \<Rightarrow> (rtcp_context \<times> nat) option \<times> tracker" where
  "record_rtcp_keys ssrc cumulative src dst now t =
     (case select_stream ssrc src dst t of
        None \<Rightarrow> (None, t)
      | Some k \<Rightarrow>
          (case mget (tk_streams t) k of
             None \<Rightarrow> (None, t)
           | Some e \<Rightarrow>
               let (delta, e') = rtcp_loss_delta cumulative (e\<lparr>se_last_rtcp := now\<rparr>)
               in (Some (rtcp_context_of e', delta), t\<lparr>tk_streams := mput k e' (tk_streams t)\<rparr>)))"

definition record_rtcp :: "u32 \<Rightarrow> int \<Rightarrow> string \<Rightarrow> u16 \<Rightarrow> string \<Rightarrow> u16 \<Rightarrow> time \<Rightarrow> tracker
    \<Rightarrow> (rtcp_context \<times> nat) option \<times> tracker" where
  "record_rtcp ssrc cumulative src_ip src_port dst_ip dst_port now t =
     record_rtcp_keys ssrc cumulative (new_binary_endpoint_key src_ip src_port)
       (new_binary_endpoint_key dst_ip dst_port) now t"

definition record_rtcp_ipv4 :: "u32 \<Rightarrow> int \<Rightarrow> ipv4 \<Rightarrow> u16 \<Rightarrow> ipv4 \<Rightarrow> u16 \<Rightarrow> time \<Rightarrow> tracker
    \<Rightarrow> (rtcp_context \<times> nat) option \<times> tracker" where
  "record_rtcp_ipv4 ssrc cumulative src_ip src_port dst_ip dst_port now t =
     record_rtcp_keys ssrc cumulative (new_ipv4_endpoint_key src_ip src_port)
       (new_ipv4_endpoint_key dst_ip dst_port) now t"

end
