(* ===== verification/Tracker_Registry.thy ===== *)
theory Tracker_Registry
  imports Media_Tracker
begin

text \<open>
  The contract of the tracker's ownership registries as a locale, and its proof for the two
  registries of the tracker (media and RTCP endpoints): who owns an endpoint after registering and
  after removing a dialog, and that the entry current for an endpoint always belongs to one of the
  endpoint's owners.  Also the faithfulness of the binary endpoint keys.
\<close>

section \<open>Endpoint keys\<close>

text \<open>
  an endpoint key renders back to the address text it was made from, whatever the text, so
  two endpoints share a key exactly when address text and port are the same.
\<close>

theorem endpoint_key_faithful:
  "ip_string (new_binary_endpoint_key ip port) = ip \<and>
   (new_binary_endpoint_key ip port = new_binary_endpoint_key ip' port' \<longleftrightarrow> ip = ip' \<and> port = port')"
proof -
  have str: "ip_string (new_binary_endpoint_key ip port) = ip" for ip port
    by (simp add: ip_string_def new_binary_endpoint_key_def ipv4_parse_print split: option.split)
  have "ek_port (new_binary_endpoint_key ip port) = port" for ip port
    by (simp add: new_binary_endpoint_key_def split: option.split)
  with str show ?thesis by metis
qed

text \<open>The packet path builds its keys from bytes, SDP from text: they meet.\<close>

lemma ipv4_key_string: "new_ipv4_endpoint_key ip port = new_binary_endpoint_key (ipv4_string ip) port"
  by (simp add: new_ipv4_endpoint_key_def new_binary_endpoint_key_def)

section \<open>The contract\<close>

locale endpoint_registry =
  fixes inv :: "'s \<Rightarrow> bool"
    and owns :: "'s \<Rightarrow> string \<Rightarrow> endpoint_key \<Rightarrow> bool"
    and current :: "'s \<Rightarrow> endpoint_key \<Rightarrow> 'v option"
    and tag :: "'v \<Rightarrow> string"
    and add :: "string \<Rightarrow> endpoint_key \<Rightarrow> 'v \<Rightarrow> 's \<Rightarrow> bool \<times> 's"
    and remove :: "string \<Rightarrow> 's \<Rightarrow> 's"
  assumes inv_add: "inv s \<Longrightarrow> tag v = c \<Longrightarrow> inv (snd (add c k v s))"
    and inv_remove: "inv s \<Longrightarrow> inv (remove c s)"
    and add_new: "inv s \<Longrightarrow> fst (add c k v s) \<longleftrightarrow> \<not> owns s c k"
    and owns_add: "inv s \<Longrightarrow> owns (snd (add c k v s)) c' k' \<longleftrightarrow> owns s c' k' \<or> c' = c \<and> k' = k"
    and owns_remove: "inv s \<Longrightarrow> owns (remove c s) c' k \<longleftrightarrow> owns s c' k \<and> c' \<noteq> c"
    and current_add: "inv s \<Longrightarrow> current (snd (add c k v s)) k' = (if k' = k then Some v else current s k')"
    and current_owner: "inv s \<Longrightarrow> current s k = Some v \<Longrightarrow> owns s (tag v) k"
    and current_some: "inv s \<Longrightarrow> owns s c k \<Longrightarrow> current s k \<noteq> None"

context endpoint_registry begin

text \<open>Once a dialog is removed no endpoint resolves to it.\<close>

lemma removed_not_current: "inv s \<Longrightarrow> current (remove c s) k = Some v \<Longrightarrow> tag v \<noteq> c"
  using current_owner inv_remove owns_remove by blast

text \<open>An endpoint another dialog still owns keeps resolving, to one of its owners.\<close>

lemma shared_stays:
  assumes "inv s" and "owns s c' k" and "c' \<noteq> c"
  shows "\<exists>v. current (remove c s) k = Some v \<and> owns s (tag v) k \<and> tag v \<noteq> c"
proof -
  have "owns (remove c s) c' k" using assms owns_remove by blast
  then obtain v where "current (remove c s) k = Some v"
    using current_some inv_remove assms(1) by blast
  then show ?thesis using current_owner inv_remove owns_remove assms(1) by blast
qed

text \<open>An endpoint only the removed dialog owned resolves no more.\<close>

lemma sole_gone:
  assumes "inv s" and "\<And>c'. owns s c' k \<Longrightarrow> c' = c"
  shows "current (remove c s) k = None"
  using assms current_owner inv_remove owns_remove by (metis not_None_eq)

end

section \<open>The tracker's registries satisfy it\<close>

definition owners_of :: "'v owned \<Rightarrow> endpoint_key \<Rightarrow> string list" where
  "owners_of s k = mget_or [] (ow_owners s) k"

definition own_owns :: "'v owned \<Rightarrow> string \<Rightarrow> endpoint_key \<Rightarrow> bool" where
  "own_owns s c k \<longleftrightarrow> mget (own_entries c s) k \<noteq> None"

definition own_inv :: "('v \<Rightarrow> string) \<Rightarrow> 'v owned \<Rightarrow> bool" where
  "own_inv tag s \<longleftrightarrow>
     mwf (ow_owners s) \<and> mwf (ow_calls s) \<and> mwf (ow_current s) \<and>
     (\<forall>c. mwf (own_entries c s)) \<and>
     (\<forall>k. distinct (owners_of s k) \<and> mget (ow_owners s) k \<noteq> Some []) \<and>
     (\<forall>c k. c \<in> set (owners_of s k) \<longleftrightarrow> own_owns s c k) \<and>
     (\<forall>c k v. mget (own_entries c s) k = Some v \<longrightarrow> tag v = c) \<and>
     (\<forall>k. mget (ow_current s) k = None \<longleftrightarrow> owners_of s k = []) \<and>
     (\<forall>k v. mget (ow_current s) k = Some v \<longrightarrow> mget (own_entries (tag v) s) k = Some v)"

lemma own_add_entries:
  "own_entries c' (snd (own_add c k v s)) = (if c' = c then mput k v (own_entries c s) else own_entries c' s)"
  by (simp add: own_add_def own_entries_def Let_def)

lemma own_add_owners:
  "owners_of (snd (own_add c k v s)) k' =
     (if k' = k \<and> \<not> own_owns s c k then owners_of s k @ [c] else owners_of s k')"
  by (simp add: own_add_def owners_of_def own_owns_def Let_def)

lemma own_add_current:
  "mget (ow_current (snd (own_add c k v s))) k' = (if k' = k then Some v else mget (ow_current s) k')"
  by (simp add: own_add_def Let_def)

lemma own_add_owns: "own_owns (snd (own_add c k v s)) c' k' \<longleftrightarrow> own_owns s c' k' \<or> c' = c \<and> k' = k"
  by (auto simp: own_owns_def own_add_entries)

lemma own_add_inv:
  assumes "own_inv tag s" and "tag v = c"
  shows "own_inv tag (snd (own_add c k v s))"
proof -
  let ?s = "snd (own_add c k v s)"
  note i = assms(1) [unfolded own_inv_def]
  have "mwf (ow_owners ?s)" "mwf (ow_calls ?s)" "mwf (ow_current ?s)"
    using i by (auto simp: own_add_def Let_def)
  moreover have "mwf (own_entries c' ?s)" for c' using i by (simp add: own_add_entries)
  moreover have "distinct (owners_of ?s k')" for k' using i by (auto simp: own_add_owners)
  moreover have "mget (ow_owners ?s) k' \<noteq> Some []" for k'
    using i by (auto simp: own_add_def Let_def)
  moreover have "c' \<in> set (owners_of ?s k') \<longleftrightarrow> own_owns ?s c' k'" for c' k'
    using i by (auto simp: own_add_owners own_add_owns)
  moreover have "tag v' = c'" if "mget (own_entries c' ?s) k' = Some v'" for c' k' v'
    using i that assms(2) by (auto simp: own_add_entries split: if_splits)
  moreover have "mget (ow_current ?s) k' = None \<longleftrightarrow> owners_of ?s k' = []" for k'
  proof (cases "k' = k")
    case True
    have "owners_of ?s k \<noteq> []"
    proof (cases "own_owns s c k")
      case True
      then have "c \<in> set (owners_of s k)" using i by blast
      then show ?thesis using True by (auto simp: own_add_owners)
    qed (simp add: own_add_owners)
    with True show ?thesis by (simp add: own_add_current)
  qed (use i in \<open>simp add: own_add_current own_add_owners\<close>)
  moreover have "mget (own_entries (tag v') ?s) k' = Some v'" if "mget (ow_current ?s) k' = Some v'" for k' v'
  proof (cases "k' = k")
    case False
    with that have "mget (own_entries (tag v') s) k' = Some v'" using i by (simp add: own_add_current)
    with False show ?thesis by (auto simp: own_add_entries)
  qed (use that assms(2) in \<open>simp add: own_add_current own_add_entries\<close>)
  ultimately show ?thesis unfolding own_inv_def by blast
qed

text \<open>The loop over the endpoints of the dialog being removed.\<close>

lemma own_release_effect:
  "ow_calls (own_release c z s k) = ow_calls s"
  "own_entries c' (own_release c z s k) = own_entries c' s"
  "owners_of (own_release c z s k) k' = (if k' = k then remove1 c (owners_of s k) else owners_of s k')"
  "mget (ow_current (own_release c z s k)) k' =
     (if k' = k then
        if remove1 c (owners_of s k) = [] then None
        else Some (mget_or z (own_entries (last (remove1 c (owners_of s k))) s) k)
      else mget (ow_current s) k')"
  by (simp_all add: own_release_def remove_owner_def Let_def owners_of_def own_entries_def)

lemma own_release_wf:
  assumes "mwf (ow_owners s)" and "mwf (ow_current s)" and "\<forall>k. mget (ow_owners s) k \<noteq> Some []"
  shows "mwf (ow_owners (own_release c z s k))" "mwf (ow_current (own_release c z s k))"
    "\<forall>k'. mget (ow_owners (own_release c z s k)) k' \<noteq> Some []"
  using assms by (auto simp: own_release_def Let_def)

lemma own_release_loop:
  assumes "distinct ks"
  shows "ow_calls (foldl (own_release c z) s ks) = ow_calls s"
    "own_entries c' (foldl (own_release c z) s ks) = own_entries c' s"
    "owners_of (foldl (own_release c z) s ks) k' =
       (if k' \<in> set ks then remove1 c (owners_of s k') else owners_of s k')"
    "mget (ow_current (foldl (own_release c z) s ks)) k' =
       (if k' \<in> set ks then
          if remove1 c (owners_of s k') = [] then None
          else Some (mget_or z (own_entries (last (remove1 c (owners_of s k'))) s) k')
        else mget (ow_current s) k')"
  using assms by (induction ks arbitrary: s) (auto simp: own_release_effect)

lemma own_release_loop_wf:
  assumes "mwf (ow_owners s)" and "mwf (ow_current s)" and "\<forall>k. mget (ow_owners s) k \<noteq> Some []"
  shows "mwf (ow_owners (foldl (own_release c z) s ks)) \<and> mwf (ow_current (foldl (own_release c z) s ks)) \<and>
    (\<forall>k. mget (ow_owners (foldl (own_release c z) s ks)) k \<noteq> Some [])"
  using assms
proof (induction ks arbitrary: s)
  case (Cons k ks)
  from Cons.IH [OF own_release_wf [OF Cons.prems]] show ?case by simp
qed simp

lemma own_remove_effect:
  assumes "own_inv tag s"
  shows "own_entries c' (own_remove_call c z s) = (if c' = c then [] else own_entries c' s)"
    and "owners_of (own_remove_call c z s) k = remove1 c (owners_of s k)"
    and "mget (ow_current (own_remove_call c z s)) k =
      (if own_owns s c k then
         if remove1 c (owners_of s k) = [] then None
         else Some (mget_or z (own_entries (last (remove1 c (owners_of s k))) s) k)
       else mget (ow_current s) k)"
proof -
  note i = assms [unfolded own_inv_def]
  have d: "distinct (mkeys (own_entries c s))" using i by blast
  have mem: "k \<in> set (mkeys (own_entries c s)) \<longleftrightarrow> own_owns s c k"
    unfolding own_owns_def mget_None_keys by simp
  show "own_entries c' (own_remove_call c z s) = (if c' = c then [] else own_entries c' s)"
    using own_release_loop(2) [OF d, of c' c z s]
    by (simp add: own_remove_call_def Let_def) (simp add: own_entries_def)
  have "\<not> own_owns s c k \<Longrightarrow> remove1 c (owners_of s k) = owners_of s k"
    using i by (metis remove1_idem)
  then show "owners_of (own_remove_call c z s) k = remove1 c (owners_of s k)"
    using own_release_loop(3) [OF d, of c z s k] mem
    by (auto simp: own_remove_call_def Let_def owners_of_def)
  show "mget (ow_current (own_remove_call c z s)) k =
      (if own_owns s c k then
         if remove1 c (owners_of s k) = [] then None
         else Some (mget_or z (own_entries (last (remove1 c (owners_of s k))) s) k)
       else mget (ow_current s) k)"
    using own_release_loop(4) [OF d, of c z s k] mem by (simp add: own_remove_call_def Let_def)
qed

lemma own_remove_owns:
  "own_inv tag s \<Longrightarrow> own_owns (own_remove_call c z s) c' k \<longleftrightarrow> own_owns s c' k \<and> c' \<noteq> c"
  by (simp add: own_owns_def own_remove_effect)

lemma own_remove_inv:
  assumes "own_inv tag s"
  shows "own_inv tag (own_remove_call c z s)"
proof -
  let ?s = "own_remove_call c z s"
  note i = assms [unfolded own_inv_def]
  note e = own_remove_effect [OF assms] own_remove_owns [OF assms]
  have wf: "mwf (ow_owners ?s)" "mwf (ow_current ?s)" "\<forall>k. mget (ow_owners ?s) k \<noteq> Some []"
    using own_release_loop_wf [of s c z "mkeys (own_entries c s)"] i
    by (simp_all add: own_remove_call_def Let_def)
  have "mwf (ow_calls ?s)"
    using i own_release_loop(1) [of "mkeys (own_entries c s)" c z s]
    by (simp add: own_remove_call_def Let_def)
  moreover have "mwf (own_entries c' ?s)" for c' using i by (simp add: e)
  moreover have "distinct (owners_of ?s k)" for k using i by (simp add: e)
  moreover have own: "c' \<in> set (owners_of ?s k) \<longleftrightarrow> own_owns ?s c' k" for c' k
    using i by (auto simp: e set_remove1_eq)
  moreover have "tag v = c'" if "mget (own_entries c' ?s) k = Some v" for c' k v
    using i that by (auto simp: e split: if_splits)
  moreover have "mget (ow_current ?s) k = None \<longleftrightarrow> owners_of ?s k = []" for k
  proof (cases "own_owns s c k")
    case False
    then have "remove1 c (owners_of s k) = owners_of s k" using i by (metis remove1_idem)
    with False i show ?thesis by (simp add: e)
  qed (simp add: e)
  moreover have "mget (own_entries (tag v) ?s) k = Some v" if cur: "mget (ow_current ?s) k = Some v" for k v
  proof (cases "own_owns s c k")
    case True
    let ?os = "remove1 c (owners_of s k)"
    from True cur have os: "?os \<noteq> []" "v = mget_or z (own_entries (last ?os) s) k"
      by (auto simp: e split: if_splits)
    have "last ?os \<in> set (owners_of ?s k)" using os(1) by (simp add: e)
    then have "own_owns s (last ?os) k" "last ?os \<noteq> c" using own e(4) by blast+
    then obtain v' where v': "mget (own_entries (last ?os) s) k = Some v'" by (auto simp: own_owns_def)
    with os(2) have "v = v'" by (simp add: mget_or_def)
    moreover have "tag v' = last ?os" using i v' by blast
    ultimately show ?thesis using v' \<open>last ?os \<noteq> c\<close> by (simp add: e)
  next
    case False
    with cur have "mget (ow_current s) k = Some v" by (simp add: e)
    then have v: "mget (own_entries (tag v) s) k = Some v" using i by blast
    with False have "tag v \<noteq> c" by (auto simp: own_owns_def)
    with v show ?thesis by (simp add: e)
  qed
  ultimately show ?thesis using wf unfolding own_inv_def by blast
qed

lemma own_inv_empty: "own_inv tag no_owned"
  by (simp add: own_inv_def no_owned_def owners_of_def own_owns_def own_entries_def mget_or_def)

lemma own_current_owner: "own_inv tag s \<Longrightarrow> mget (ow_current s) k = Some v \<Longrightarrow> own_owns s (tag v) k"
  unfolding own_inv_def own_owns_def by (metis option.distinct(1))

lemma own_current_some: "own_inv tag s \<Longrightarrow> own_owns s c k \<Longrightarrow> mget (ow_current s) k \<noteq> None"
  unfolding own_inv_def by (metis empty_iff empty_set)

lemma own_add_flag: "fst (own_add c k v s) \<longleftrightarrow> \<not> own_owns s c k"
  by (simp add: own_add_def own_owns_def Let_def)

text \<open>Both registries of the tracker are instances.\<close>

interpretation med: endpoint_registry "own_inv ml_call_id" own_owns "\<lambda>s. mget (ow_current s)" ml_call_id
  own_add "\<lambda>c. own_remove_call c zero_media_labels"
  by unfold_locales
    (simp_all add: own_add_inv own_remove_inv own_add_flag own_add_owns own_remove_owns own_add_current
      own_current_owner own_current_some)

interpretation rtc: endpoint_registry "own_inv re_call_id" own_owns "\<lambda>s. mget (ow_current s)" re_call_id
  own_add "\<lambda>c. own_remove_call c zero_rtcp_entry"
  by unfold_locales
    (simp_all add: own_add_inv own_remove_inv own_add_flag own_add_owns own_remove_owns own_add_current
      own_current_owner own_current_some)

end
