(* ===== verification/Tracker_Invariant.thy ===== *)
theory Tracker_Invariant
  imports Tracker_Registry
begin

text \<open>
  The invariant of the media tracker and its preservation by every operation: the two registries
  are consistent, the learned source aliases are one-to-one with their inverse map and disjoint
  from the SDP endpoints, the per-dialog endpoint order lists exactly the owned endpoints, and the
  SSRC index lists exactly the tracked streams.  From it: nothing of a dialog is left after
  \<open>Unregister\<close>, and what other dialogs share stays.
\<close>

section \<open>The invariant\<close>

definition sa_of :: "tracker \<Rightarrow> string \<Rightarrow> (endpoint_key, endpoint_key) gomap" where
  "sa_of t c = mget_or [] (tk_source_aliases t) c"

definition alias_inv :: "tracker \<Rightarrow> bool" where
  "alias_inv t \<longleftrightarrow>
     (\<forall>c. mwf (sa_of t c)) \<and> mwf (tk_media_aliases t) \<and>
     (\<forall>a l. mget (tk_media_aliases t) a = Some l \<longrightarrow> (\<exists>p. mget (sa_of t (ml_call_id l)) p = Some a)) \<and>
     (\<forall>c p a. mget (sa_of t c) p = Some a \<longrightarrow>
        (\<exists>l. mget (tk_media_aliases t) a = Some l \<and> ml_call_id l = c)) \<and>
     (\<forall>c p p' a. mget (sa_of t c) p = Some a \<and> mget (sa_of t c) p' = Some a \<longrightarrow> p = p') \<and>
     (\<forall>a. mget (tk_media_aliases t) a \<noteq> None \<longrightarrow> mget (ow_current (tk_media t)) a = None)"

definition order_inv :: "tracker \<Rightarrow> bool" where
  "order_inv t \<longleftrightarrow>
     (\<forall>c. distinct (mget_or [] (tk_call_media_order t) c) \<and>
       set (mget_or [] (tk_call_media_order t) c) = {k. own_owns (tk_media t) c k})"

definition index_of :: "tracker \<Rightarrow> u32 \<Rightarrow> stream_key list" where
  "index_of t s = mget_or [] (tk_ssrc_index t) s"

definition stream_inv :: "tracker \<Rightarrow> bool" where
  "stream_inv t \<longleftrightarrow>
     mwf (tk_streams t) \<and>
     (\<forall>s. distinct (index_of t s)) \<and>
     (\<forall>s k. k \<in> set (index_of t s) \<longleftrightarrow> sk_ssrc k = s \<and> mget (tk_streams t) k \<noteq> None) \<and>
     (\<forall>k e. mget (tk_streams t) k = Some e \<longrightarrow> stream_wf (se_state e))"

definition tracker_inv :: "tracker \<Rightarrow> bool" where
  "tracker_inv t \<longleftrightarrow>
     own_inv ml_call_id (tk_media t) \<and> own_inv re_call_id (tk_rtcp t) \<and>
     alias_inv t \<and> order_inv t \<and> stream_inv t"

lemma tracker_inv_new: "tracker_inv (new_tracker ttl)"
proof -
  have "own_inv ml_call_id (tk_media (new_tracker ttl))" "own_inv re_call_id (tk_rtcp (new_tracker ttl))"
    by (simp_all add: new_tracker_def own_inv_empty)
  then show ?thesis
    by (simp add: tracker_inv_def) (simp add: new_tracker_def alias_inv_def order_inv_def stream_inv_def
        sa_of_def index_of_def mget_or_def no_owned_def own_owns_def own_entries_def)
qed

section \<open>Deleting streams\<close>

lemma delete_stream_frame [simp]:
  "tk_media (delete_stream t k) = tk_media t"
  "tk_call_media_order (delete_stream t k) = tk_call_media_order t"
  "tk_source_aliases (delete_stream t k) = tk_source_aliases t"
  "tk_media_aliases (delete_stream t k) = tk_media_aliases t"
  "tk_rtcp (delete_stream t k) = tk_rtcp t"
  "tk_streams (delete_stream t k) = mdel k (tk_streams t)"
  by (simp_all add: delete_stream_def remove_ssrc_index_def Let_def)

lemma delete_stream_index:
  "index_of (delete_stream t k) s = (if s = sk_ssrc k then remove1 k (index_of t s) else index_of t s)"
proof -
  have "remove1 k ks = []" if "k \<in> set ks" "length ks = 1" for ks :: "stream_key list"
    using that by (cases ks) auto
  then show ?thesis
    by (auto simp: delete_stream_def remove_ssrc_index_def Let_def index_of_def remove1_idem)
qed

lemma stream_inv_delete:
  assumes "stream_inv t"
  shows "stream_inv (delete_stream t k)"
proof -
  note i = assms [unfolded stream_inv_def]
  have "mwf (tk_streams (delete_stream t k))" using i by simp
  moreover have "distinct (index_of (delete_stream t k) s)" for s
    using i by (simp add: delete_stream_index)
  moreover have "k' \<in> set (index_of (delete_stream t k) s) \<longleftrightarrow>
      sk_ssrc k' = s \<and> mget (tk_streams (delete_stream t k)) k' \<noteq> None" for k' s
    using i by (auto simp: delete_stream_index set_remove1_eq)
  moreover have "stream_wf (se_state e)" if "mget (tk_streams (delete_stream t k)) k' = Some e" for k' e
    using i that by (auto split: if_splits)
  ultimately show ?thesis unfolding stream_inv_def by blast
qed

lemma foldl_delete_frame [simp]:
  "tk_media (foldl delete_stream t ks) = tk_media t"
  "tk_call_media_order (foldl delete_stream t ks) = tk_call_media_order t"
  "tk_source_aliases (foldl delete_stream t ks) = tk_source_aliases t"
  "tk_media_aliases (foldl delete_stream t ks) = tk_media_aliases t"
  "tk_rtcp (foldl delete_stream t ks) = tk_rtcp t"
  by (induction ks arbitrary: t) simp_all

lemma foldl_delete_streams:
  "mget (tk_streams (foldl delete_stream t ks)) k = (if k \<in> set ks then None else mget (tk_streams t) k)"
  by (induction ks arbitrary: t) simp_all

lemma delete_streams_frame [simp]:
  "tk_media (delete_streams_if p t) = tk_media t"
  "tk_call_media_order (delete_streams_if p t) = tk_call_media_order t"
  "tk_source_aliases (delete_streams_if p t) = tk_source_aliases t"
  "tk_media_aliases (delete_streams_if p t) = tk_media_aliases t"
  "tk_rtcp (delete_streams_if p t) = tk_rtcp t"
  by (simp_all add: delete_streams_if_def)

lemma stream_inv_delete_if: "stream_inv t \<Longrightarrow> stream_inv (delete_streams_if p t)"
proof -
  have "stream_inv (foldl delete_stream t ks)" if "stream_inv t" for t ks
    using that by (induction ks arbitrary: t) (simp_all add: stream_inv_delete)
  then show "stream_inv t \<Longrightarrow> stream_inv (delete_streams_if p t)" by (simp add: delete_streams_if_def)
qed

lemma delete_streams_lookup:
  assumes "mwf (tk_streams t)"
  shows "mget (tk_streams (delete_streams_if p t)) k =
    (case mget (tk_streams t) k of None \<Rightarrow> None | Some e \<Rightarrow> if p k e then None else Some e)"
proof -
  have "k \<in> set (mkeys (filter (\<lambda>(k, e). p k e) (tk_streams t))) \<longleftrightarrow>
      (\<exists>e. mget (tk_streams t) k = Some e \<and> p k e)"
    using mget_Some_set [OF assms] by force
  then show ?thesis
    by (auto simp: delete_streams_if_def foldl_delete_streams split: option.split)
qed

section \<open>Aliases\<close>

lemma alias_inv_cong:
  "tk_source_aliases t' = tk_source_aliases t \<Longrightarrow> tk_media_aliases t' = tk_media_aliases t \<Longrightarrow>
   ow_current (tk_media t') = ow_current (tk_media t) \<Longrightarrow> alias_inv t \<Longrightarrow> alias_inv t'"
  by (simp add: alias_inv_def sa_of_def)

lemma order_inv_cong:
  "tk_call_media_order t' = tk_call_media_order t \<Longrightarrow> tk_media t' = tk_media t \<Longrightarrow>
   order_inv t \<Longrightarrow> order_inv t'"
  by (simp add: order_inv_def)

lemma stream_inv_cong:
  "tk_streams t' = tk_streams t \<Longrightarrow> tk_ssrc_index t' = tk_ssrc_index t \<Longrightarrow> stream_inv t \<Longrightarrow> stream_inv t'"
  by (simp add: stream_inv_def index_of_def)

lemma delete_alias_value_keys: "set (mkeys (delete_alias_value key m)) \<subseteq> set (mkeys m)"
  by (induction key m rule: delete_alias_value.induct) auto

lemma mwf_delete_alias_value: "mwf m \<Longrightarrow> mwf (delete_alias_value key m)"
proof (induction key m rule: delete_alias_value.induct)
  case (2 key peer al m)
  then show ?case using delete_alias_value_keys [of key m] by auto
qed simp

lemma delete_alias_value_get:
  assumes "mwf m" and "\<And>p p'. mget m p = Some key \<Longrightarrow> mget m p' = Some key \<Longrightarrow> p = p'"
  shows "mget (delete_alias_value key m) p = (if mget m p = Some key then None else mget m p)"
  using assms
proof (induction key m rule: delete_alias_value.induct)
  case (2 key peer al m)
  have new: "mget m peer = None" using 2(2) by (simp add: mget_None_keys)
  show ?case
  proof (cases "al = key")
    case True
    have "mget m p \<noteq> Some key" if "p \<noteq> peer"
      using 2(3) [of p peer] True that by auto
    with True new show ?thesis by auto
  next
    case False
    have inj: "q = q'" if "mget m q = Some key" "mget m q' = Some key" for q q'
    proof -
      have "q \<noteq> peer" "q' \<noteq> peer" using that new by auto
      with that show ?thesis using 2(3) [of q q'] by simp
    qed
    have wf: "mwf m" using 2(2) by simp
    have "mget (delete_alias_value key m) p = (if mget m p = Some key then None else mget m p)"
      by (rule 2(1) [OF False wf]) (erule inj, assumption)
    then show ?thesis using False new by simp
  qed
qed simp

lemma displace_alias_frame [simp]:
  "tk_media (displace_alias key al t) = tk_media t"
  "tk_rtcp (displace_alias key al t) = tk_rtcp t"
  "tk_call_media_order (displace_alias key al t) = tk_call_media_order t"
  "tk_media_aliases (displace_alias key al t) = mdel key (tk_media_aliases t)"
  by (simp_all add: displace_alias_def Let_def)

lemma displace_alias_sa:
  "sa_of (displace_alias key al t) c =
     (if c = ml_call_id al then delete_alias_value key (sa_of t c) else sa_of t c)"
  by (auto simp: displace_alias_def Let_def sa_of_def mget_or_def)

lemma alias_inv_displace:
  assumes "alias_inv t" and al: "mget (tk_media_aliases t) key = Some al"
  shows "alias_inv (displace_alias key al t)"
proof -
  let ?t = "displace_alias key al t" and ?c = "ml_call_id al"
  note i = assms(1) [unfolded alias_inv_def]
  have get: "mget (sa_of ?t c) p = (if c = ?c \<and> mget (sa_of t c) p = Some key then None else mget (sa_of t c) p)"
    for c p
  proof (cases "c = ?c")
    case True
    have "mget (delete_alias_value key (sa_of t ?c)) p =
        (if mget (sa_of t ?c) p = Some key then None else mget (sa_of t ?c) p)"
      using i by (intro delete_alias_value_get) blast+
    with True show ?thesis by (simp add: displace_alias_sa)
  qed (simp add: displace_alias_sa)
  have "mwf (sa_of ?t c)" for c
    using i by (simp add: displace_alias_sa mwf_delete_alias_value)
  moreover have "mwf (tk_media_aliases ?t)" using i by simp
  moreover have "\<exists>p. mget (sa_of ?t (ml_call_id l)) p = Some a"
    if l: "mget (tk_media_aliases ?t) a = Some l" for a l
  proof -
    from l have a: "a \<noteq> key" "mget (tk_media_aliases t) a = Some l" by (auto split: if_splits)
    then obtain p where "mget (sa_of t (ml_call_id l)) p = Some a" using i by blast
    with a(1) have "mget (sa_of ?t (ml_call_id l)) p = Some a" by (simp add: get)
    then show ?thesis by blast
  qed
  moreover have "\<exists>l. mget (tk_media_aliases ?t) a = Some l \<and> ml_call_id l = c"
    if p: "mget (sa_of ?t c) p = Some a" for c p a
  proof -
    from p have old: "mget (sa_of t c) p = Some a" "\<not> (c = ?c \<and> a = key)" by (auto simp: get split: if_splits)
    then obtain l where l: "mget (tk_media_aliases t) a = Some l" "ml_call_id l = c" using i by blast
    with old(2) al have "a \<noteq> key" by auto
    with l show ?thesis by simp
  qed
  moreover have "p = p'" if "mget (sa_of ?t c) p = Some a" "mget (sa_of ?t c) p' = Some a" for c p p' a
  proof -
    have "mget (sa_of t c) p = Some a" "mget (sa_of t c) p' = Some a"
      using that by (auto simp: get split: if_splits)
    then show ?thesis using i by blast
  qed
  moreover have "mget (ow_current (tk_media ?t)) a = None" if "mget (tk_media_aliases ?t) a \<noteq> None" for a
    using i that by (auto split: if_splits)
  ultimately show ?thesis unfolding alias_inv_def by blast
qed

lemma stream_inv_displace: "stream_inv t \<Longrightarrow> stream_inv (displace_alias key al t)"
  unfolding displace_alias_def Let_def
  by (intro stream_inv_delete_if, rule stream_inv_cong [of _ t]) simp_all

section \<open>Registration and learning\<close>

lemma order_after_add:
  assumes "order_inv t" and "own_inv ml_call_id (tk_media t)" and "tk_call_media_order t1 = tk_call_media_order t"
    and "tk_media t1 = tk_media t"
  shows "order_inv ((if fst (own_add c k v (tk_media t1))
      then t1\<lparr>tk_media := snd (own_add c k v (tk_media t1)),
            tk_call_media_order := mput c (mget_or [] (tk_call_media_order t1) c @ [k]) (tk_call_media_order t1)\<rparr>
      else t1\<lparr>tk_media := snd (own_add c k v (tk_media t1))\<rparr>))"
proof (cases "own_owns (tk_media t) c k")
  case True
  then have "own_owns (snd (own_add c k v (tk_media t))) c' k' \<longleftrightarrow> own_owns (tk_media t) c' k'" for c' k'
    by (auto simp: own_add_owns)
  with True assms show ?thesis by (simp add: order_inv_def own_add_flag)
next
  case False
  let ?o = "mget_or [] (tk_call_media_order t)"
  have "distinct (?o c @ [k])" "set (?o c @ [k]) = {k'. own_owns (tk_media t) c k' \<or> k' = k}"
    using assms(1) False by (auto simp: order_inv_def)
  with False assms show ?thesis by (simp add: order_inv_def own_add_flag own_add_owns)
qed

lemma tracker_register_inv:
  assumes "tracker_inv t"
  shows "tracker_inv (snd (tracker_register ip port labels t))"
proof -
  let ?k = "new_binary_endpoint_key ip port" and ?c = "ml_call_id labels"
  define t1 where "t1 = (case mget (tk_media_aliases t) ?k of None \<Rightarrow> t | Some al \<Rightarrow> displace_alias ?k al t)"
  note i = assms [unfolded tracker_inv_def]
  have t1: "alias_inv t1" "stream_inv t1" "tk_media t1 = tk_media t" "tk_rtcp t1 = tk_rtcp t"
    "tk_call_media_order t1 = tk_call_media_order t" "mget (tk_media_aliases t1) ?k = None"
    using i by (auto simp: t1_def alias_inv_displace stream_inv_displace split: option.split)
  define t2 where "t2 = (if fst (own_add ?c ?k labels (tk_media t1))
      then t1\<lparr>tk_media := snd (own_add ?c ?k labels (tk_media t1)),
            tk_call_media_order := mput ?c (mget_or [] (tk_call_media_order t1) ?c @ [?k]) (tk_call_media_order t1)\<rparr>
      else t1\<lparr>tk_media := snd (own_add ?c ?k labels (tk_media t1))\<rparr>)"
  have t2: "snd (tracker_register ip port labels t) = t2"
    by (auto simp: tracker_register_def Let_def t1_def t2_def case_prod_beta split: option.split)
  have f: "tk_media t2 = snd (own_add ?c ?k labels (tk_media t))" "tk_rtcp t2 = tk_rtcp t"
    "tk_source_aliases t2 = tk_source_aliases t1" "tk_media_aliases t2 = tk_media_aliases t1"
    "tk_streams t2 = tk_streams t1" "tk_ssrc_index t2 = tk_ssrc_index t1"
    by (simp_all add: t2_def t1)
  have "order_inv t2" unfolding t2_def by (rule order_after_add) (use i t1 in simp_all)
  moreover have "alias_inv t2"
    using t1(1,3,6) unfolding alias_inv_def sa_of_def f by (auto simp: own_add_current)
  moreover have "stream_inv t2" by (rule stream_inv_cong [OF _ _ t1(2)]) (simp_all add: f)
  moreover have "own_inv ml_call_id (tk_media t2)" using i by (simp add: f own_add_inv)
  ultimately show ?thesis using i by (simp add: t2 tracker_inv_def f)
qed

lemma tracker_register_rtcp_inv:
  assumes "tracker_inv t"
  shows "tracker_inv (snd (tracker_register_rtcp ip port rip rport c t))"
proof -
  have "snd (tracker_register_rtcp ip port rip rport c t) =
      t\<lparr>tk_rtcp := snd (own_add c (new_binary_endpoint_key ip port)
        \<lparr>re_call_id = c, re_rtp_endpoint = new_binary_endpoint_key rip rport\<rparr> (tk_rtcp t))\<rparr>"
    by (simp add: tracker_register_rtcp_def Let_def case_prod_beta)
  with assms show ?thesis
    by (auto simp: tracker_inv_def own_add_inv intro: alias_inv_cong order_inv_cong stream_inv_cong)
qed

lemma alias_peer_mem: "alias_peer es m = Some p \<Longrightarrow> p \<in> set es"
  by (induction es m rule: alias_peer.induct) (auto split: if_splits)

lemma learn_cases:
  obtains (Same) "learn_source_alias c matched source t = (None, t)"
  | (New) peer where "alias_peer (mget_or [] (tk_call_media_order t) c) matched = Some peer"
      "same_ip peer source" "ek_port peer \<noteq> ek_port source"
      "mget (ow_current (tk_media t)) source = None" "mget (tk_media_aliases t) source = None"
      "mget (sa_of t c) peer = None" "owners_of (tk_media t) matched = [c]"
      "learn_source_alias c matched source t =
        (Some (endpoint_of source),
         t\<lparr>tk_source_aliases := mput c (mput peer source (sa_of t c)) (tk_source_aliases t),
           tk_media_aliases := mput source (mget_or zero_media_labels (own_entries c (tk_media t)) peer)
             (tk_media_aliases t)\<rparr>)"
proof (cases "alias_peer (mget_or [] (tk_call_media_order t) c) matched")
  case None
  with Same show thesis by (simp add: learn_source_alias_def Let_def)
next
  case (Some peer)
  show thesis
  proof (cases "length (mget_or [] (tk_call_media_order t) c) = 2 \<and> can_learn_source_alias c matched t \<and>
      same_ip peer source \<and> ek_port peer \<noteq> ek_port source \<and>
      mget (ow_current (tk_media t)) source = None \<and> mget (tk_media_aliases t) source = None \<and>
      mget (sa_of t c) peer = None")
    case True
    with Some New show thesis
      by (simp add: learn_source_alias_def Let_def sa_of_def can_learn_source_alias_def owners_of_def)
  next
    case False
    with Some have "learn_source_alias c matched source t = (None, t)"
      unfolding learn_source_alias_def Let_def sa_of_def by auto
    with Same show thesis .
  qed
qed

lemma learn_source_alias_inv:
  assumes "tracker_inv t"
  shows "tracker_inv (snd (learn_source_alias c matched source t))"
proof (cases rule: learn_cases [where c = c and matched = matched and source = source and t = t])
  case Same
  with assms show ?thesis by simp
next
  case (New peer)
  note i = assms [unfolded tracker_inv_def]
  let ?l = "mget_or zero_media_labels (own_entries c (tk_media t)) peer"
  let ?t = "snd (learn_source_alias c matched source t)"
  have "own_owns (tk_media t) c peer"
    using alias_peer_mem [OF New(1)] i by (auto simp: order_inv_def)
  then obtain l where "mget (own_entries c (tk_media t)) peer = Some l" by (auto simp: own_owns_def)
  then have call: "ml_call_id ?l = c" using i by (auto simp: own_inv_def mget_or_def)
  have sa: "sa_of ?t c' = (if c' = c then mput peer source (sa_of t c) else sa_of t c')" for c'
    by (simp add: New(8) sa_of_def)
  have ma: "tk_media_aliases ?t = mput source ?l (tk_media_aliases t)" by (simp add: New(8))
  have med: "tk_media ?t = tk_media t" by (simp add: New(8))
  note a = i [THEN conjunct2, THEN conjunct2, THEN conjunct1, unfolded alias_inv_def]
  have nosrc: "mget (sa_of t c') p \<noteq> Some source" for c' p
    using a New(5) by (metis option.distinct(1))
  have "alias_inv ?t"
    unfolding alias_inv_def
  proof (intro conjI allI impI)
    show "mwf (sa_of ?t c')" for c' using a by (simp add: sa)
    show "mwf (tk_media_aliases ?t)" using a by (simp add: ma)
    show "\<exists>p. mget (sa_of ?t (ml_call_id l')) p = Some x"
      if "mget (tk_media_aliases ?t) x = Some l'" for x l'
    proof (cases "x = source")
      case True
      with that have "l' = ?l" by (simp add: ma)
      with True call show ?thesis by (auto simp: sa)
    next
      case False
      with that have "mget (tk_media_aliases t) x = Some l'" by (simp add: ma)
      then obtain p where p: "mget (sa_of t (ml_call_id l')) p = Some x" using a by blast
      then have "\<not> (ml_call_id l' = c \<and> p = peer)" using New(6) by auto
      with p show ?thesis by (intro exI [of _ p]) (auto simp: sa)
    qed
    show "\<exists>l'. mget (tk_media_aliases ?t) x = Some l' \<and> ml_call_id l' = c'"
      if p: "mget (sa_of ?t c') p = Some x" for c' p x
    proof (cases "c' = c \<and> p = peer")
      case True
      with p have x: "x = source" by (simp add: sa)
      show ?thesis unfolding x using True call by (simp add: ma)
    next
      case False
      with p have old: "mget (sa_of t c') p = Some x" by (auto simp: sa split: if_splits)
      with nosrc have "x \<noteq> source" by metis
      moreover from old obtain l' where "mget (tk_media_aliases t) x = Some l'" "ml_call_id l' = c'"
        using a by blast
      ultimately show ?thesis by (simp add: ma)
    qed
    show "p = p'" if "mget (sa_of ?t c') p = Some x \<and> mget (sa_of ?t c') p' = Some x" for c' p p' x
    proof -
      from a have inj: "\<And>q q'. mget (sa_of t c') q = Some x \<Longrightarrow> mget (sa_of t c') q' = Some x \<Longrightarrow> q = q'"
        by blast
      from that inj [of p p'] nosrc show ?thesis by (auto simp: sa split: if_splits)
    qed
    show "mget (ow_current (tk_media ?t)) x = None" if "mget (tk_media_aliases ?t) x \<noteq> None" for x
      using that a New(4) by (auto simp: ma med split: if_splits)
  qed
  moreover have "order_inv ?t" "stream_inv ?t"
    using i by (auto simp: New(8) intro: order_inv_cong stream_inv_cong)
  ultimately show ?thesis using i by (simp add: tracker_inv_def New(8))
qed

section \<open>Removal\<close>

lemma foldl_mdel: "mget (foldl (\<lambda>m a. mdel a m) m as) k = (if k \<in> set as then None else mget m k)"
  by (induction as arbitrary: m) auto

lemma foldl_mdel_wf: "mwf m \<Longrightarrow> mwf (foldl (\<lambda>m a. mdel a m) m as)"
  by (induction as arbitrary: m) simp_all

lemma remove_call_frame:
  "tk_media (snd (remove_call_media c t)) = own_remove_call c zero_media_labels (tk_media t)"
  "tk_rtcp (snd (remove_call_media c t)) = own_remove_call c zero_rtcp_entry (tk_rtcp t)"
  "tk_call_media_order (snd (remove_call_media c t)) = mdel c (tk_call_media_order t)"
  "tk_media_aliases (snd (remove_call_media c t)) =
     foldl (\<lambda>m a. mdel a m) (tk_media_aliases t) (map snd (sa_of t c))"
  "sa_of (snd (remove_call_media c t)) c' = (if c' = c then [] else sa_of t c')"
  by (simp_all add: remove_call_media_def Let_def sa_of_def)

lemma alias_values:
  assumes "mwf m"
  shows "a \<in> set (map snd m) \<longleftrightarrow> (\<exists>p. mget m p = Some a)"
  using mget_Some_set [OF assms] by force

lemma remove_call_alias_inv:
  assumes "alias_inv t" and "own_inv ml_call_id (tk_media t)"
  shows "alias_inv (snd (remove_call_media c t))"
proof -
  let ?t = "snd (remove_call_media c t)"
  note i = assms(1) [unfolded alias_inv_def]
  have ma: "mget (tk_media_aliases ?t) a =
      (if \<exists>p. mget (sa_of t c) p = Some a then None else mget (tk_media_aliases t) a)" for a
    using i by (simp only: remove_call_frame foldl_mdel alias_values)
  show ?thesis
    unfolding alias_inv_def
  proof (intro conjI allI impI)
    show "mwf (sa_of ?t c')" for c' using i by (simp add: remove_call_frame)
    show "mwf (tk_media_aliases ?t)" using i by (simp add: remove_call_frame foldl_mdel_wf)
    show "\<exists>p. mget (sa_of ?t (ml_call_id l)) p = Some a" if "mget (tk_media_aliases ?t) a = Some l" for a l
    proof -
      have a: "mget (tk_media_aliases t) a = Some l" "\<not> (\<exists>p. mget (sa_of t c) p = Some a)"
        using that by (auto simp: ma split: if_splits)
      then obtain p where "mget (sa_of t (ml_call_id l)) p = Some a" using i by blast
      moreover from this a(2) have "ml_call_id l \<noteq> c" by metis
      ultimately show ?thesis by (auto simp: remove_call_frame)
    qed
    show "\<exists>l. mget (tk_media_aliases ?t) a = Some l \<and> ml_call_id l = c'"
      if p: "mget (sa_of ?t c') p = Some a" for c' p a
    proof -
      have c': "c' \<noteq> c" "mget (sa_of t c') p = Some a"
        using p by (auto simp: remove_call_frame split: if_splits)
      then obtain l where l: "mget (tk_media_aliases t) a = Some l" "ml_call_id l = c'" using i by blast
      have "\<not> (\<exists>p. mget (sa_of t c) p = Some a)" using i l c'(1) by (metis option.inject)
      with l show ?thesis by (simp add: ma)
    qed
    show "p = p'" if "mget (sa_of ?t c') p = Some a \<and> mget (sa_of ?t c') p' = Some a" for c' p p' a
    proof -
      have "mget (sa_of t c') p = Some a \<and> mget (sa_of t c') p' = Some a"
        using that by (simp add: remove_call_frame split: if_splits)
      then show ?thesis using i by blast
    qed
    show "mget (ow_current (tk_media ?t)) a = None" if "mget (tk_media_aliases ?t) a \<noteq> None" for a
    proof -
      have "mget (ow_current (tk_media t)) a = None" using that i by (auto simp: ma split: if_splits)
      then have none: "\<not> own_owns (tk_media t) c' a" for c'
        using med.current_some [OF assms(2), of c' a] by auto
      then show ?thesis
        using med.sole_gone [OF assms(2), of a c] by (simp add: remove_call_frame)
    qed
  qed
qed

lemma remove_call_inv:
  assumes "tracker_inv t"
  shows "tracker_inv (snd (remove_call_media c t))"
proof -
  note i = assms [unfolded tracker_inv_def]
  have "order_inv (snd (remove_call_media c t))"
    using i by (auto simp: order_inv_def remove_call_frame own_remove_owns)
  moreover have "stream_inv (snd (remove_call_media c t))"
    using i unfolding remove_call_media_def Let_def
    by (auto intro!: stream_inv_delete_if intro: stream_inv_cong)
  ultimately show ?thesis
    using i by (simp add: tracker_inv_def remove_call_frame own_remove_inv)
      (simp add: remove_call_alias_inv)
qed

lemma tracker_unregister_inv: "tracker_inv t \<Longrightarrow> tracker_inv (snd (tracker_unregister c t))"
proof -
  assume "tracker_inv t"
  from remove_call_inv [OF this, of c] show ?thesis
    by (auto simp: tracker_unregister_def Let_def case_prod_beta tracker_inv_def
        intro: alias_inv_cong order_inv_cong stream_inv_cong)
qed

section \<open>Observation, snapshot, expiry, RTCP\<close>

lemma stream_inv_update:
  assumes "stream_inv t" and "mget (tk_streams t) k = Some e" and "stream_wf (se_state e')"
  shows "stream_inv (t\<lparr>tk_streams := mput k e' (tk_streams t)\<rparr>)"
  using assms unfolding stream_inv_def index_of_def by (auto split: if_splits)

lemma ensure_stream_frame [simp]:
  "tk_media (ensure_stream key l codec rate a t) = tk_media t"
  "tk_rtcp (ensure_stream key l codec rate a t) = tk_rtcp t"
  "tk_call_media_order (ensure_stream key l codec rate a t) = tk_call_media_order t"
  "tk_source_aliases (ensure_stream key l codec rate a t) = tk_source_aliases t"
  "tk_media_aliases (ensure_stream key l codec rate a t) = tk_media_aliases t"
  by (simp_all add: ensure_stream_def Let_def)

lemma ensure_stream_inv:
  assumes "stream_inv t"
  shows "stream_inv (ensure_stream key l codec rate a t)"
proof (cases "mget (tk_streams t) key")
  case None
  note i = assms [unfolded stream_inv_def]
  let ?t = "ensure_stream key l codec rate a t"
  have str: "mget (tk_streams ?t) k =
      (if k = key then Some \<lparr>se_state = new_stream_state (sk_ssrc key) codec rate a, se_labels = l,
         se_codec = codec, se_last_rtcp = zero_time, se_rtcp_prev_loss = 0, se_rtcp_loss_seen = False\<rparr>
       else mget (tk_streams t) k)" for k
    using None by (simp add: ensure_stream_def Let_def)
  have idx: "index_of ?t s = (if s = sk_ssrc key then index_of t s @ [key] else index_of t s)" for s
    using None by (simp add: ensure_stream_def Let_def index_of_def)
  have new: "key \<notin> set (index_of t (sk_ssrc key))" using i None by blast
  have "mwf (tk_streams ?t)" using i None by (simp add: ensure_stream_def Let_def)
  moreover have "distinct (index_of ?t s)" for s using i new by (auto simp: idx)
  moreover have "k \<in> set (index_of ?t s) \<longleftrightarrow> sk_ssrc k = s \<and> mget (tk_streams ?t) k \<noteq> None" for k s
    using i by (auto simp: idx str)
  moreover have "stream_wf (se_state e)" if "mget (tk_streams ?t) k = Some e" for k e
    using i that by (auto simp: str stream_wf_new split: if_splits)
  ultimately show ?thesis unfolding stream_inv_def by blast
qed (use assms in \<open>simp add: ensure_stream_def\<close>)

lemma tracker_inv_streams:
  assumes "tracker_inv t" and "stream_inv t'" and "tk_media t' = tk_media t" and "tk_rtcp t' = tk_rtcp t"
    and "tk_call_media_order t' = tk_call_media_order t" and "tk_source_aliases t' = tk_source_aliases t"
    and "tk_media_aliases t' = tk_media_aliases t"
  shows "tracker_inv t'"
  using assms by (auto simp: tracker_inv_def intro: alias_inv_cong order_inv_cong)

lemma tracker_observe_keys_inv:
  assumes "tracker_inv t"
  shows "tracker_inv (snd (tracker_observe_keys src dst h arrival t))"
proof (cases "lookup_labels src dst t")
  case None
  with assms show ?thesis by (simp add: tracker_observe_keys_def)
next
  case (Some lab)
  obtain labels ep side where lab: "lab = (labels, ep, side)" by (cases lab) auto
  let ?codec = "codec_name (h_payload_type h) (ml_sdp_codecs labels)"
  let ?key = "\<lparr>sk_endpoint = ep, sk_ssrc = h_ssrc h\<rparr>"
  define t1 where "t1 = ensure_stream ?key labels ?codec (clock_rate_for labels (h_payload_type h)) arrival t"
  have s1: "stream_inv t1" using assms by (simp add: t1_def tracker_inv_def ensure_stream_inv)
  have t1: "tracker_inv t1" by (rule tracker_inv_streams [OF assms s1]) (simp_all add: t1_def)
  show ?thesis
  proof (cases "mget (tk_streams t1) ?key")
    case None
    with Some lab t1 show ?thesis by (simp add: tracker_observe_keys_def Let_def t1_def)
  next
    case (Some entry)
    define new where "new = (if is_audio_codec ?codec then observe_audio h arrival (se_state entry)
      else observe_non_audio h arrival (se_state entry))"
    define t2 where "t2 = t1\<lparr>tk_streams := mput ?key (entry\<lparr>se_state := new\<rparr>) (tk_streams t1)\<rparr>"
    have "stream_wf (se_state entry)" using s1 Some by (simp add: stream_inv_def)
    then have "stream_wf (se_state (entry\<lparr>se_state := new\<rparr>))"
      by (simp add: new_def observe_audio_def observe_non_audio_def stream_wf_observe)
    then have "stream_inv t2" unfolding t2_def by (rule stream_inv_update [OF s1 Some])
    then have t2: "tracker_inv t2" by (rule tracker_inv_streams [OF t1]) (simp_all add: t2_def)
    have "snd (tracker_observe_keys src dst h arrival t) =
        (if st_total (se_state entry) < st_total new \<and> side = ''dst''
         then snd (learn_source_alias (ml_call_id labels) ep src t2) else t2)"
      using \<open>lookup_labels src dst t = Some lab\<close> Some lab
      unfolding tracker_observe_keys_def Let_def
      by (simp add: t1_def [symmetric] new_def [symmetric] t2_def [symmetric] case_prod_beta)
    with t2 show ?thesis by (simp add: learn_source_alias_inv)
  qed
qed

lemma stream_wf_classify: "stream_wf s \<Longrightarrow> stream_wf (classify_loss_run s)"
  by (auto simp: stream_wf_def)

lemma tracker_snapshot_inv:
  assumes "tracker_inv t"
  shows "tracker_inv (snd (tracker_snapshot t))"
proof -
  have "stream_inv (snd (tracker_snapshot t))"
    using assms unfolding tracker_inv_def stream_inv_def
    by (auto simp: tracker_snapshot_def Let_def index_of_def map_of_map o_def case_prod_beta
        stream_wf_classify)
  then show ?thesis
    by (rule tracker_inv_streams [OF assms]) (simp_all add: tracker_snapshot_def Let_def)
qed

lemma tracker_cleanup_inv: "tracker_inv t \<Longrightarrow> tracker_inv (tracker_cleanup now t)"
  unfolding tracker_cleanup_def
  by (rule tracker_inv_streams) (simp_all add: stream_inv_delete_if tracker_inv_def)

lemma rtcp_loss_delta_state: "se_state (snd (rtcp_loss_delta n e)) = se_state e"
  by (simp add: rtcp_loss_delta_def Let_def)

lemma record_rtcp_keys_inv:
  assumes "tracker_inv t"
  shows "tracker_inv (snd (record_rtcp_keys ssrc n src dst now t))"
proof (cases "select_stream ssrc src dst t")
  case (Some k)
  show ?thesis
  proof (cases "mget (tk_streams t) k")
    case (Some e)
    let ?e = "snd (rtcp_loss_delta n (e\<lparr>se_last_rtcp := now\<rparr>))"
    have st: "snd (record_rtcp_keys ssrc n src dst now t) = t\<lparr>tk_streams := mput k ?e (tk_streams t)\<rparr>"
      using \<open>select_stream ssrc src dst t = Some k\<close> Some
      by (simp add: record_rtcp_keys_def case_prod_beta)
    have "stream_inv t" using assms by (simp add: tracker_inv_def)
    moreover from this have "stream_wf (se_state ?e)" using Some by (simp add: rtcp_loss_delta_state stream_inv_def)
    ultimately have "stream_inv (t\<lparr>tk_streams := mput k ?e (tk_streams t)\<rparr>)"
      using stream_inv_update Some by blast
    then show ?thesis unfolding st by (rule tracker_inv_streams [OF assms]) simp_all
  qed (use assms \<open>select_stream ssrc src dst t = Some k\<close> in \<open>simp add: record_rtcp_keys_def\<close>)
qed (use assms in \<open>simp add: record_rtcp_keys_def\<close>)

section \<open>Runs\<close>

datatype tracker_op =
    TRegister string u16 media_labels
  | TRegisterRTCP string u16 string u16 string
  | TUnregister string
  | TReplace string
  | TLearn string string u16 string u16
  | TObserve string u16 string u16 rtp_header time
  | TObserveIPv4 ipv4 u16 ipv4 u16 rtp_header time
  | TRecordRTCP u32 int string u16 string u16 time
  | TRecordRTCPIPv4 u32 int ipv4 u16 ipv4 u16 time
  | TSnapshot
  | TCleanup time
  | TSetTTL duration

fun tracker_step :: "tracker \<Rightarrow> tracker_op \<Rightarrow> tracker" where
  "tracker_step t (TRegister ip port l) = snd (tracker_register ip port l t)"
| "tracker_step t (TRegisterRTCP ip port rip rport c) = snd (tracker_register_rtcp ip port rip rport c t)"
| "tracker_step t (TUnregister c) = snd (tracker_unregister c t)"
| "tracker_step t (TReplace c) = snd (tracker_replace c t)"
| "tracker_step t (TLearn c mip mport sip sport) = snd (tracker_learn_source_alias c mip mport sip sport t)"
| "tracker_step t (TObserve sip sport dip dport h a) = snd (tracker_observe sip sport dip dport h a t)"
| "tracker_step t (TObserveIPv4 sip sport dip dport h a) = snd (tracker_observe_ipv4 sip sport dip dport h a t)"
| "tracker_step t (TRecordRTCP ssrc n sip sport dip dport now) =
     snd (record_rtcp ssrc n sip sport dip dport now t)"
| "tracker_step t (TRecordRTCPIPv4 ssrc n sip sport dip dport now) =
     snd (record_rtcp_ipv4 ssrc n sip sport dip dport now t)"
| "tracker_step t TSnapshot = snd (tracker_snapshot t)"
| "tracker_step t (TCleanup now) = tracker_cleanup now t"
| "tracker_step t (TSetTTL ttl) = set_ttl ttl t"

lemma tracker_observe_snd:
  "snd (tracker_observe sip sport dip dport h a t) =
     snd (tracker_observe_keys (new_binary_endpoint_key sip sport) (new_binary_endpoint_key dip dport) h a t)"
  by (simp add: tracker_observe_def split: prod.split option.split)

lemma set_ttl_inv: "tracker_inv t \<Longrightarrow> tracker_inv (set_ttl ttl t)"
proof -
  assume t: "tracker_inv t"
  then have "stream_inv (t\<lparr>tk_ttl := ttl\<rparr>)" by (simp add: tracker_inv_def stream_inv_def index_of_def)
  then have "tracker_inv (t\<lparr>tk_ttl := ttl\<rparr>)" by (rule tracker_inv_streams [OF t]) simp_all
  then show ?thesis by (simp add: set_ttl_def)
qed

lemmas tracker_op_inv = tracker_register_inv tracker_register_rtcp_inv tracker_unregister_inv
  remove_call_inv learn_source_alias_inv tracker_observe_keys_inv record_rtcp_keys_inv
  tracker_snapshot_inv tracker_cleanup_inv set_ttl_inv

lemma tracker_step_inv: "tracker_inv t \<Longrightarrow> tracker_inv (tracker_step t x)"
  by (cases x; simp only: tracker_step.simps tracker_replace_def tracker_learn_source_alias_def
      tracker_observe_snd tracker_observe_ipv4_def record_rtcp_def record_rtcp_ipv4_def; rule tracker_op_inv)

abbreviation tracker_run :: "duration \<Rightarrow> tracker_op list \<Rightarrow> tracker" where
  "tracker_run ttl ops \<equiv> foldl tracker_step (new_tracker ttl) ops"

lemma tracker_run_inv: "tracker_inv (tracker_run ttl ops)"
proof -
  have "tracker_inv t \<Longrightarrow> tracker_inv (foldl tracker_step t ops)" for t
    by (induction ops arbitrary: t) (simp_all add: tracker_step_inv)
  then show ?thesis by (simp add: tracker_inv_new)
qed

section \<open>Properties\<close>

definition tracked :: "u32 \<Rightarrow> tracker \<Rightarrow> stream_key set" where
  "tracked ssrc t = {k. sk_ssrc k = ssrc \<and> mget (tk_streams t) k \<noteq> None}"



text \<open>
  an endpoint another dialog has registered too keeps resolving after the removal of a dialog,
  to labels of one of its remaining owners.
\<close>

theorem tracker_shared_endpoint_kept:
  assumes "own_owns (tk_media (tracker_run ttl ops)) c' k" and "c' \<noteq> c"
  shows "\<exists>l. labels_at k (snd (tracker_unregister c (tracker_run ttl ops))) = Some l \<and>
    ml_call_id l \<noteq> c \<and> own_owns (tk_media (tracker_run ttl ops)) (ml_call_id l) k"
proof -
  let ?t = "tracker_run ttl ops"
  have inv: "own_inv ml_call_id (tk_media ?t)" using tracker_run_inv by (simp add: tracker_inv_def)
  have "tk_media (snd (tracker_unregister c ?t)) = own_remove_call c zero_media_labels (tk_media ?t)"
    by (simp add: tracker_unregister_def Let_def case_prod_beta remove_call_frame)
  with med.shared_stays [OF inv assms] show ?thesis by (auto simp: labels_at_def)
qed

definition sample_labels :: "string \<Rightarrow> media_labels" where
  "sample_labels c = \<lparr>ml_carrier = ''c'', ml_ua_type = ''u'', ml_source_country = ''DE'',
     ml_direction = ''inbound'', ml_call_id = c, ml_sdp_codecs = [], ml_clock_rates = []\<rparr>"

lemma own_owns_register:
  "own_owns (tk_media (snd (tracker_register ip port l t))) c k \<longleftrightarrow>
     own_owns (tk_media t) c k \<or> c = ml_call_id l \<and> k = new_binary_endpoint_key ip port"
  by (auto simp: tracker_register_def Let_def case_prod_beta own_add_owns split: option.split)

theorem tracker_shared_endpoint_kept_witness:
  "\<exists>l. labels_at (new_binary_endpoint_key ''10.0.0.1'' 4000)
      (snd (tracker_unregister ''b''
        (tracker_run 5 [TRegister ''10.0.0.1'' 4000 (sample_labels ''a''),
                        TRegister ''10.0.0.1'' 4000 (sample_labels ''b'')]))) = Some l \<and> ml_call_id l \<noteq> ''b''"
proof -
  have "own_owns (tk_media (tracker_run 5 [TRegister ''10.0.0.1'' 4000 (sample_labels ''a''),
      TRegister ''10.0.0.1'' 4000 (sample_labels ''b'')])) ''a'' (new_binary_endpoint_key ''10.0.0.1'' 4000)"
    by (simp add: own_owns_register sample_labels_def)
  from tracker_shared_endpoint_kept [OF this, of "''b''"] show ?thesis by auto
qed


text \<open>
  an RTCP report block is attributed to a tracked stream of its SSRC at one of the packet's
  endpoints (an RTCP endpoint standing for its RTP endpoint), or to the only stream of that SSRC;
  it is not attributed exactly when the SSRC has no stream at these endpoints and is not unique.
\<close>

theorem select_stream_exact:
  "let t = tracker_run ttl ops;
       near = {k \<in> tracked ssrc t. sk_endpoint k = rtcp_to_rtp t dst \<or> sk_endpoint k = rtcp_to_rtp t src}
   in case select_stream ssrc src dst t of
        None \<Rightarrow> near = {} \<and> card (tracked ssrc t) \<noteq> 1
      | Some k \<Rightarrow> k \<in> tracked ssrc t \<and> (k \<in> near \<or> tracked ssrc t = {k})"
proof -
  define t where "t = tracker_run ttl ops"
  define near where
    "near = {k \<in> tracked ssrc t. sk_endpoint k = rtcp_to_rtp t dst \<or> sk_endpoint k = rtcp_to_rtp t src}"
  let ?P = "\<lambda>ep k. sk_endpoint k = rtcp_to_rtp t ep \<and> mget (tk_streams t) k \<noteq> None"
  let ?ks = "index_of t ssrc"
  have "tracker_inv t" unfolding t_def by (rule tracker_run_inv)
  then have ks: "set ?ks = tracked ssrc t" "distinct ?ks"
    unfolding tracker_inv_def stream_inv_def tracked_def by blast+
  have sel: "select_stream ssrc src dst t =
      (if ?ks = [] then None
       else case find (?P dst) ?ks of Some k \<Rightarrow> Some k
       | None \<Rightarrow> (case find (?P src) ?ks of Some k \<Rightarrow> Some k
       | None \<Rightarrow> if length ?ks = 1 \<and> mget (tk_streams t) (hd ?ks) \<noteq> None then Some (hd ?ks) else None))"
    unfolding select_stream_def Let_def index_of_def by (rule refl)
  have at: "k \<in> near" if "find (?P ep) ?ks = Some k" "ep = dst \<or> ep = src" for ep k
  proof -
    have "k \<in> set ?ks" "?P ep k" using that(1) by (auto simp: find_Some_iff)
    then show ?thesis using that(2) ks(1) by (auto simp: near_def)
  qed
  have away: "near = {}" if "find (?P dst) ?ks = None" "find (?P src) ?ks = None"
    using that ks(1) by (auto simp: find_None_iff near_def tracked_def)
  have one: "tracked ssrc t = {hd ?ks}" if "length ?ks = 1"
    using that by (cases ?ks) (auto simp flip: ks(1))
  have card: "card (tracked ssrc t) = length ?ks" using distinct_card [OF ks(2)] ks(1) by simp
  have empty: "near = {}" if "?ks = []" using that ks(1) by (auto simp: near_def)
  have tr: "mget (tk_streams t) (hd ?ks) \<noteq> None" if "?ks \<noteq> []"
    using that ks(1) hd_in_set [of ?ks] by (auto simp: tracked_def)
  have "case select_stream ssrc src dst t of
        None \<Rightarrow> near = {} \<and> card (tracked ssrc t) \<noteq> 1
      | Some k \<Rightarrow> k \<in> tracked ssrc t \<and> (k \<in> near \<or> tracked ssrc t = {k})"
  proof (cases "?ks = []")
    case True
    then show ?thesis using empty card by (simp add: sel)
  next
    case False
    show ?thesis
    proof (cases "find (?P dst) ?ks")
      case (Some k)
      with at [OF Some] False show ?thesis by (simp add: sel near_def)
    next
      case None
      note d = None
      show ?thesis
      proof (cases "find (?P src) ?ks")
        case (Some k)
        with at [OF Some] d False show ?thesis by (simp add: sel near_def)
      next
        case None
        show ?thesis
        proof (cases "length ?ks = 1")
          case True
          with one [OF True] tr False d None show ?thesis by (simp add: sel)
        next
          case neq: False
          with away [OF d None] card False d None show ?thesis by (simp add: sel)
        qed
      qed
    qed
  qed
  then show ?thesis unfolding Let_def t_def [symmetric] near_def .
qed

section \<open>Loss reported by RTCP\<close>

fun rtcp_loss_sum :: "stream_entry \<Rightarrow> int list \<Rightarrow> nat" where
  "rtcp_loss_sum e [] = 0"
| "rtcp_loss_sum e (n # ns) = (let (d, e') = rtcp_loss_delta n e in d + rtcp_loss_sum e' ns)"

lemma rtcp_loss_sum_seen:
  "se_rtcp_loss_seen e \<Longrightarrow> 0 \<le> se_rtcp_prev_loss e \<Longrightarrow> sorted (se_rtcp_prev_loss e # ns) \<Longrightarrow>
     int (rtcp_loss_sum e ns) = last (se_rtcp_prev_loss e # ns) - se_rtcp_prev_loss e"
proof (induction ns arbitrary: e)
  case (Cons n ns)
  let ?e = "e\<lparr>se_rtcp_prev_loss := n\<rparr>"
  have d: "rtcp_loss_delta n e = (nat (n - se_rtcp_prev_loss e), ?e)"
    using Cons.prems by (simp add: rtcp_loss_delta_def Let_def)
  have "int (rtcp_loss_sum ?e ns) = last (n # ns) - n"
    using Cons.IH [of ?e] Cons.prems by simp
  with d Cons.prems show ?case by simp
qed simp

text \<open>
  the deltas counted for a stream telescope.  From its first report on, as long as the reported
  cumulative loss does not decrease, the counted losses add up to the last value minus the first:
  nothing is counted twice and the value at the start is not counted as a burst.
\<close>

theorem rtcp_loss_telescopes:
  assumes "\<not> se_rtcp_loss_seen e" and "0 \<le> n" and "sorted (n # ns)"
  shows "int (rtcp_loss_sum e (n # ns)) = last (n # ns) - n"
proof -
  have "rtcp_loss_delta n e = (0, e\<lparr>se_rtcp_loss_seen := True, se_rtcp_prev_loss := n\<rparr>)"
    using assms by (simp add: rtcp_loss_delta_def Let_def)
  with rtcp_loss_sum_seen [of "e\<lparr>se_rtcp_loss_seen := True, se_rtcp_prev_loss := n\<rparr>" ns] assms
  show ?thesis by simp
qed

theorem rtcp_loss_telescopes_witness:
  "int (rtcp_loss_sum \<lparr>se_state = new_stream_state 7 [] 8000 0, se_labels = zero_media_labels,
       se_codec = [], se_last_rtcp = zero_time, se_rtcp_prev_loss = 0, se_rtcp_loss_seen = False\<rparr>
     [900, 905, 905, 921]) = 21"
  using rtcp_loss_telescopes [of "\<lparr>se_state = new_stream_state 7 [] 8000 0, se_labels = zero_media_labels,
       se_codec = [], se_last_rtcp = zero_time, se_rtcp_prev_loss = 0, se_rtcp_loss_seen = False\<rparr>" 900
       "[905, 905, 921]"]
  by simp

end
