(* ===== verification/Sip_Message.thy ===== *)
theory Sip_Message
  imports Go_Bytes
begin

text \<open>
  The SIP message parser of \<open>internal/exporter\<close> (\<open>exporter.go\<close>: \<open>isSIPMethod\<close>, \<open>sipPacketParse\<close>,
  \<open>parseHeaders\<close> and the functions under it; \<open>sipuri.go\<close>) and the packet type of \<open>internal/dto\<close>.

  A header value that the code compares with \<open>nil\<close> is an \<open>option\<close>, or, where nil and the empty slice
  cannot be told apart by what follows (\<open>TrimSpace\<close> returns nil exactly for an empty result), the
  empty string.  \<open>extractTag\<close> slices its argument at a position found in the lower-cased copy: when
  that position lies beyond the value the model returns \<open>None\<close>.  (Go's slice expression reaches up
  to the capacity, so the code panics unless enough blanks were trimmed off the value's end.)
\<close>

section \<open>Packets\<close>

record sip_party =
  sp_user :: string
  sp_addr :: string
  sp_tag :: string

record sip_packet =
  pk_is_response :: bool
  pk_response_status :: string
  pk_method :: string
  pk_from :: sip_party
  pk_to :: sip_party
  pk_call_id :: string
  pk_cseq_id :: string
  pk_cseq_method :: string
  pk_session_expires :: int
  pk_expires :: int
  pk_user_agent :: string
  pk_content_type :: string
  pk_body :: string
  pk_source_ip :: string

definition zero_party :: sip_party where
  "zero_party = \<lparr>sp_user = [], sp_addr = [], sp_tag = []\<rparr>"

definition zero_packet :: sip_packet where
  "zero_packet = \<lparr>pk_is_response = False, pk_response_status = [], pk_method = [],
     pk_from = zero_party, pk_to = zero_party, pk_call_id = [], pk_cseq_id = [], pk_cseq_method = [],
     pk_session_expires = 0, pk_expires = 0, pk_user_agent = [], pk_content_type = [], pk_body = [],
     pk_source_ip = []\<rparr>"

datatype sip_error =
    ErrStatusLine string | ErrRequestLine string | ErrNoTag string | ErrCSeq string | ErrNoCallID

definition crlf :: string where "crlf = [CHR 0x0D, CHR 0x0A]"

section \<open>Methods and content types\<close>

definition has_method_prefix :: "string \<Rightarrow> string \<Rightarrow> bool" where
  "has_method_prefix data m \<longleftrightarrow>
     has_prefix m data \<and> length m < length data \<and> data ! length m = CHR '' ''"

definition sip_methods :: "string list" where
  "sip_methods = [''INVITE'', ''ACK'', ''BYE'', ''CANCEL'', ''OPTIONS'', ''REGISTER'', ''SUBSCRIBE'',
     ''NOTIFY'', ''PUBLISH'', ''INFO'', ''PRACK'', ''UPDATE'', ''MESSAGE'', ''REFER'', ''SIP/2.0'']"

definition is_sip_method :: "string \<Rightarrow> bool" where
  "is_sip_method data \<longleftrightarrow> list_ex (has_method_prefix data) sip_methods"

definition is_sdp_content_type :: "string \<Rightarrow> bool" where
  "is_sdp_content_type ct \<longleftrightarrow> go_contains (go_to_lower ct) ''application/sdp''"

definition is_vq_content_type :: "string \<Rightarrow> bool" where
  "is_vq_content_type ct \<longleftrightarrow> go_contains (go_to_lower ct) ''application/vq-rtcpxr''"

section \<open>SIP URIs\<close>

definition strip_scheme :: "string \<Rightarrow> string" where
  "strip_scheme uri =
     (if 5 \<le> length uri \<and> equal_fold (take 5 uri) ''sips:'' then drop 5 uri
      else if 4 \<le> length uri \<and> equal_fold (take 4 uri) ''sip:'' then drop 4 uri
      else uri)"

definition cut_at :: "char \<Rightarrow> string \<Rightarrow> string" where
  "cut_at c part = (case index_byte c part of None \<Rightarrow> part | Some i \<Rightarrow> take i part)"

definition strip_params :: "string \<Rightarrow> string" where
  "strip_params part = cut_at CHR '';'' part"

definition extract_user :: "string \<Rightarrow> string" where
  "extract_user part =
     (let p = trim_space (cut_at CHR '':'' (strip_params part))
      in if 2 \<le> length p \<and> hd p = CHR 0x22 \<and> last p = CHR 0x22 then butlast (tl p) else p)"

definition extract_host :: "string \<Rightarrow> string" where
  "extract_host part =
     (let p = strip_params part
      in case (if p \<noteq> [] \<and> hd p = CHR ''['' then index_byte CHR '']'' p else None) of
           Some rb \<Rightarrow> drop 1 (take rb p)
         | None \<Rightarrow> cut_at CHR '':'' p)"

definition parse_uri :: "string \<Rightarrow> string \<times> string" where
  "parse_uri value =
     (let uri =
        (case index_byte CHR ''<'' value of
           Some lt \<Rightarrow>
             (case index_byte CHR ''>'' value of
                Some gt \<Rightarrow> if lt < gt then drop (lt + 1) (take gt value) else value
              | None \<Rightarrow> value)
         | None \<Rightarrow> cut_at CHR '';'' value);
          u = strip_scheme uri
      in case index_byte CHR ''@'' u of
           None \<Rightarrow> ([], extract_host u)
         | Some at_pos \<Rightarrow> (extract_user (take at_pos u), extract_host (drop (at_pos + 1) u)))"

section \<open>Headers\<close>

definition split_header :: "string \<Rightarrow> string \<times> string" where
  "split_header line =
     (case index_byte CHR '':'' line of
        None \<Rightarrow> ([], [])
      | Some i \<Rightarrow> (trim_space (take i line), trim_space (drop (i + 1) line)))"

definition normalize_header_name :: "string \<Rightarrow> string" where
  "normalize_header_name header =
     (if length header \<noteq> 1 then header
      else if hd header \<in> {CHR ''f'', CHR ''F''} then ''From''
      else if hd header \<in> {CHR ''t'', CHR ''T''} then ''To''
      else if hd header \<in> {CHR ''i'', CHR ''I''} then ''Call-ID''
      else if hd header \<in> {CHR ''c'', CHR ''C''} then ''Content-Type''
      else header)"

fun unfold_loop :: "string list \<Rightarrow> string list \<Rightarrow> string list" where
  "unfold_loop result [] = result"
| "unfold_loop result (line # lines) =
     (if line \<noteq> [] \<and> (hd line = CHR '' '' \<or> hd line = CHR 0x09) then
        unfold_loop
          (if result = [] then [] else butlast result @ [last result @ trim_left_blank line]) lines
      else unfold_loop (result @ [line]) lines)"

definition unfold_headers :: "string list \<Rightarrow> string list" where
  "unfold_headers lines = unfold_loop [] lines"

definition tag_stop :: "char \<Rightarrow> bool" where
  "tag_stop c \<longleftrightarrow> c \<in> {CHR '';'', CHR 0x0D, CHR 0x0A, CHR '' '', CHR ''>''}"

text \<open>The outer option is the panic, the inner one the \<open>nil\<close> result.\<close>

definition extract_tag :: "string \<Rightarrow> string option option" where
  "extract_tag value =
     (let search_start =
        (case index_byte CHR ''<'' value of
           None \<Rightarrow> 0
         | Some lt \<Rightarrow>
             (case index_byte CHR ''>'' (drop lt value) of None \<Rightarrow> 0 | Some gt \<Rightarrow> lt + gt))
      in case index_sub '';tag='' (go_to_lower (drop search_start value)) of
           None \<Rightarrow> Some None
         | Some i \<Rightarrow>
             let start = i + search_start + 5
             in if length value < start then None
                else Some (Some (takeWhile (\<lambda>c. \<not> tag_stop c) (drop start value))))"

definition extract_cseq :: "string \<Rightarrow> (string \<times> string) option" where
  "extract_cseq value =
     (case go_fields value of a # b # _ \<Rightarrow> Some (a, b) | _ \<Rightarrow> None)"

definition atoi_or_zero :: "string \<Rightarrow> int" where
  "atoi_or_zero s = (case go_atoi s of None \<Rightarrow> 0 | Some n \<Rightarrow> n)"

definition extract_session_expires :: "string \<Rightarrow> int" where
  "extract_session_expires value =
     (case go_split value '';'' of [] \<Rightarrow> 0 | p # _ \<Rightarrow> atoi_or_zero (trim_space p))"

definition extract_expires :: "string \<Rightarrow> int" where
  "extract_expires value = atoi_or_zero (trim_space value)"

text \<open>One header line: the branch of the switch in \<open>parseHeaders\<close>.\<close>

definition parse_header_line :: "string \<Rightarrow> sip_packet \<Rightarrow> (sip_error + sip_packet) option" where
  "parse_header_line line p =
     (let (h, value) = split_header line; header = normalize_header_name h in
      if equal_fold header ''From'' then
        (case extract_tag value of
           None \<Rightarrow> None
         | Some None \<Rightarrow> Some (Inl (ErrNoTag value))
         | Some (Some tag) \<Rightarrow>
             let (u, a) = parse_uri value
             in Some (Inr (p\<lparr>pk_from := \<lparr>sp_user = u, sp_addr = a, sp_tag = tag\<rparr>\<rparr>)))
      else if equal_fold header ''To'' then
        (case extract_tag value of
           None \<Rightarrow> None
         | Some tag \<Rightarrow>
             let (u, a) = parse_uri value
             in Some (Inr (p\<lparr>pk_to := \<lparr>sp_user = u, sp_addr = a,
                               sp_tag = (case tag of None \<Rightarrow> [] | Some t \<Rightarrow> t)\<rparr>\<rparr>)))
      else if equal_fold header ''Call-ID'' then Some (Inr (p\<lparr>pk_call_id := value\<rparr>))
      else if equal_fold header ''CSeq'' then
        (case extract_cseq value of
           None \<Rightarrow> Some (Inl (ErrCSeq value))
         | Some (cid, m) \<Rightarrow> Some (Inr (p\<lparr>pk_cseq_id := cid, pk_cseq_method := m\<rparr>)))
      else if equal_fold header ''Session-Expires'' then
        Some (Inr (p\<lparr>pk_session_expires := extract_session_expires value\<rparr>))
      else if equal_fold header ''Expires'' then Some (Inr (p\<lparr>pk_expires := extract_expires value\<rparr>))
      else if equal_fold header ''User-Agent'' then
        Some (Inr (if pk_user_agent p = [] then p\<lparr>pk_user_agent := value\<rparr> else p))
      else if equal_fold header ''Content-Type'' then
        Some (Inr (if pk_content_type p = [] then p\<lparr>pk_content_type := value\<rparr> else p))
      else Some (Inr p))"

fun parse_headers :: "string list \<Rightarrow> sip_packet \<Rightarrow> (sip_error + sip_packet) option" where
  "parse_headers [] p = Some (Inr p)"
| "parse_headers (line # lines) p =
     (case parse_header_line line p of
        None \<Rightarrow> None
      | Some (Inl e) \<Rightarrow> Some (Inl e)
      | Some (Inr p') \<Rightarrow> parse_headers lines p')"

definition parse_start_line :: "string \<Rightarrow> sip_error + sip_packet" where
  "parse_start_line line =
     (if has_prefix ''SIP/2.0'' line then
        let rest = trim_prefix ''SIP/2.0 '' line
        in if length rest < 3 then Inl (ErrStatusLine line)
           else Inr (zero_packet\<lparr>pk_is_response := True, pk_response_status := take 3 rest\<rparr>)
      else
        let parts = go_split_n line '' '' 3
        in if length parts < 2 then Inl (ErrRequestLine line)
           else Inr (zero_packet\<lparr>pk_method := trim_space (hd parts)\<rparr>))"

definition sip_packet_parse :: "string \<Rightarrow> (sip_error + sip_packet) option" where
  "sip_packet_parse raw =
     (case unfold_headers (go_split raw crlf) of
        [] \<Rightarrow> None
      | first # lines \<Rightarrow>
          (case parse_start_line first of
             Inl e \<Rightarrow> Some (Inl e)
           | Inr p \<Rightarrow>
               (case parse_headers lines p of
                  None \<Rightarrow> None
                | Some (Inl e) \<Rightarrow> Some (Inl e)
                | Some (Inr p') \<Rightarrow>
                    if pk_call_id p' = [] then Some (Inl ErrNoCallID)
                    else Some (Inr
                      (case index_sub (crlf @ crlf) raw of
                         None \<Rightarrow> p'
                       | Some i \<Rightarrow> p'\<lparr>pk_body := drop (i + 4) raw\<rparr>)))))"

section \<open>Dialog ids\<close>

text \<open>\<open>bytes.Compare(a, b) <= 0\<close>.\<close>

fun bytes_le :: "string \<Rightarrow> string \<Rightarrow> bool" where
  "bytes_le [] ys \<longleftrightarrow> True"
| "bytes_le (x # xs) [] \<longleftrightarrow> False"
| "bytes_le (x # xs) (y # ys) \<longleftrightarrow> code x < code y \<or> code x = code y \<and> bytes_le xs ys"

definition normalize_dialog_id :: "string \<Rightarrow> string \<Rightarrow> string \<Rightarrow> string option" where
  "normalize_dialog_id call_id from_tag to_tag =
     (if from_tag = [] \<or> to_tag = [] then None
      else
        let (min_tag, max_tag) = (if bytes_le from_tag to_tag then (from_tag, to_tag) else (to_tag, from_tag))
        in Some (call_id @ '':'' @ min_tag @ '':'' @ max_tag))"

section \<open>No panic on ASCII messages\<close>

lemma ascii_app [simp]: "ascii (xs @ ys) \<longleftrightarrow> ascii xs \<and> ascii ys"
  by (simp add: ascii_def)

lemma ascii_sub: "set ys \<subseteq> set xs \<Longrightarrow> ascii xs \<Longrightarrow> ascii ys"
  by (auto simp: ascii_def list_all_iff)

lemma extract_tag_total:
  assumes "ascii value"
  shows "extract_tag value \<noteq> None"
proof -
  define st where "st = (case index_byte CHR ''<'' value of None \<Rightarrow> 0
    | Some lt \<Rightarrow> (case index_byte CHR ''>'' (drop lt value) of None \<Rightarrow> 0 | Some gt \<Rightarrow> lt + gt))"
  have st: "st \<le> length value"
    using index_byte_Some by (fastforce simp: st_def split: option.split)
  have "length (go_to_lower (drop st value)) = length value - st"
    using assms ascii_sub [OF set_drop_subset] by (simp add: go_to_lower_ascii)
  then have "i + st + 5 \<le> length value" if "index_sub '';tag='' (go_to_lower (drop st value)) = Some i" for i
    using index_sub_bound [OF that] st by simp
  then show ?thesis
    unfolding extract_tag_def st_def [symmetric] Let_def by (auto split: option.split dest: leD)
qed

lemma parse_header_line_total:
  assumes "ascii line"
  shows "parse_header_line line p \<noteq> None"
proof -
  obtain h v where hv: "split_header line = (h, v)" by force
  have "set v \<subseteq> set line"
    using hv trim_space_set set_drop_subset
    by (fastforce simp: split_header_def split: option.splits)
  with assms have "extract_tag v \<noteq> None" by (intro extract_tag_total) (rule ascii_sub)
  then show ?thesis by (auto simp: parse_header_line_def hv Let_def case_prod_beta split: option.split)
qed

lemma parse_headers_total: "list_all ascii lines \<Longrightarrow> parse_headers lines p \<noteq> None"
proof (induction lines arbitrary: p)
  case (Cons line lines)
  then show ?case
    using parse_header_line_total [of line p] by (auto split: option.split sum.split)
qed simp

lemma split_fuel_ascii: "ascii s \<Longrightarrow> list_all ascii (split_fuel n sep s)"
proof (induction n sep s rule: split_fuel.induct)
  case (2 n sep s)
  then show ?case
    using ascii_sub [OF set_take_subset] ascii_sub [OF set_drop_subset] by (auto split: option.split)
qed simp

lemma unfold_ascii: "list_all ascii result \<Longrightarrow> list_all ascii lines \<Longrightarrow> list_all ascii (unfold_loop result lines)"
proof (induction result lines rule: unfold_loop.induct)
  case (2 result line lines)
  have "ascii (trim_left_blank line)"
    using 2(4) ascii_sub [of "trim_left_blank line" line] by (auto simp: trim_left_blank_def dest: set_dropWhileD)
  moreover have "list_all ascii (butlast result)" "result \<noteq> [] \<Longrightarrow> ascii (last result)"
    using 2(3) by (auto simp: list_all_iff dest: in_set_butlastD)
  ultimately show ?case using 2 by auto
qed simp

lemma unfold_nonempty: "result \<noteq> [] \<Longrightarrow> unfold_loop result lines \<noteq> []"
  by (induction result lines rule: unfold_loop.induct) auto

lemma first_piece: "\<exists>line rest. go_split raw sep = line # rest \<and> (line = [] \<or> hd line = hd raw)"
proof (cases "index_sub sep raw")
  case (Some i)
  then show ?thesis by (cases i; cases raw) (auto simp: go_split_def)
qed (simp add: go_split_def)

lemma sip_method_visible: "is_sip_method raw \<Longrightarrow> hd raw \<noteq> CHR '' '' \<and> hd raw \<noteq> CHR 0x09"
  by (cases raw) (auto simp: is_sip_method_def sip_methods_def has_method_prefix_def has_prefix_def)

lemma sip_parse_total:
  assumes "ascii raw" and "is_sip_method raw"
  shows "sip_packet_parse raw \<noteq> None"
proof -
  obtain line rest where sp: "go_split raw crlf = line # rest" and ln: "line = [] \<or> hd line = hd raw"
    using first_piece by blast
  have "list_all ascii (go_split raw crlf)" using assms(1) by (simp only: go_split_def split_fuel_ascii)
  then have asc: "list_all ascii (unfold_headers (go_split raw crlf))" by (simp add: unfold_headers_def unfold_ascii)
  have "unfold_headers (go_split raw crlf) = unfold_loop [line] rest"
    using ln sip_method_visible [OF assms(2)] by (auto simp: unfold_headers_def sp)
  with unfold_nonempty [of "[line]" rest] obtain first lines where
    u: "unfold_headers (go_split raw crlf) = first # lines" by (cases "unfold_loop [line] rest") auto
  with asc have tot: "parse_headers lines p \<noteq> None" for p by (intro parse_headers_total) simp
  show ?thesis
  proof (cases "parse_start_line first")
    case (Inr p)
    with tot [of p] show ?thesis unfolding sip_packet_parse_def u by (auto split: sum.split)
  qed (simp add: sip_packet_parse_def u)
qed

text \<open>
  the parser never panics on a message of ASCII bytes that starts like a SIP message, however
  its lines are cut, folded or malformed.
\<close>

theorem sip_parse_no_panic:
  assumes "ascii raw" and "is_sip_method raw"
  shows "sip_packet_parse raw \<noteq> None"
  by (rule sip_parse_total [OF assms])

definition sample_request :: string where
  "sample_request = ''OPTIONS sip:a SIP/2.0'' @ crlf @ ''From: <sip:b>;tag=1'' @ crlf @ ''Call-ID: x'' @ crlf @ crlf"

theorem sip_parse_no_panic_witness: "sip_packet_parse sample_request \<noteq> None"
proof (rule sip_parse_no_panic)
  show "ascii sample_request" by code_simp
  show "is_sip_method sample_request" by code_simp
qed

section \<open>Tags and dialog ids\<close>

lemma index_sub_here: "has_prefix pat s \<Longrightarrow> index_sub pat s = Some 0"
  by (cases s) (auto simp: has_prefix_def)

text \<open>
  the tag of a From or To value is the header parameter after the closing bracket, even when the
  URI itself carries a parameter named \<open>tag\<close>.
\<close>

theorem extract_tag_of_address:
  assumes "CHR ''<'' \<notin> set disp" and "CHR ''>'' \<notin> set uri" and "ascii (tag @ rest)"
    and "list_all (\<lambda>c. \<not> tag_stop c) tag" and "rest = [] \<or> tag_stop (hd rest)"
  shows "extract_tag (disp @ ''<'' @ uri @ ''>;tag='' @ tag @ rest) = Some (Some tag)"
proof -
  let ?v = "disp @ ''<'' @ uri @ ''>;tag='' @ tag @ rest" and ?st = "length disp + (1 + length uri)"
  have "index_byte CHR ''<'' ?v = Some (length disp)" using assms(1) by (simp add: index_byte_app)
  moreover have "index_byte CHR ''>'' (drop (length disp) ?v) = Some (1 + length uri)"
    using assms(2) index_byte_app [of "CHR ''>''" "CHR ''<'' # uri" "'';tag='' @ tag @ rest"] by simp
  moreover have "drop ?st ?v = ''>;tag='' @ tag @ rest" by simp
  moreover have "index_sub '';tag='' (go_to_lower (''>;tag='' @ tag @ rest)) = Some 1"
  proof -
    have "ascii (''>;tag='' @ tag @ rest)" using assms(3) by (simp add: ascii_def)
    then have low: "go_to_lower (''>;tag='' @ tag @ rest) = CHR ''>'' # '';tag='' @ map lower_char (tag @ rest)"
      by (simp add: go_to_lower_ascii lower_char_def)
    show ?thesis unfolding low by (simp add: has_prefix_def)
  qed
  moreover have "takeWhile (\<lambda>c. \<not> tag_stop c) (tag @ rest) = tag"
    using assms(4,5) by (cases rest) (auto simp: list_all_iff takeWhile_append)
  moreover have "drop (Suc ?st + 5) ?v = tag @ rest"
  proof -
    have "drop (length (disp @ ''<'' @ uri @ ''>;tag='')) ((disp @ ''<'' @ uri @ ''>;tag='') @ tag @ rest) = tag @ rest"
      by (metis append_eq_conv_conj)
    moreover have "length (disp @ ''<'' @ uri @ ''>;tag='') = Suc ?st + 5" by simp
    ultimately show ?thesis by simp
  qed
  ultimately show ?thesis by (simp add: extract_tag_def)
qed

theorem extract_tag_of_address_witness:
  "extract_tag ''\"Bob\" <sip:bob@b;tag=uri>;tag=hdr;x=1'' = Some (Some ''hdr'')"
  using extract_tag_of_address [of "''\"Bob\" ''" "''sip:bob@b;tag=uri''" "''hdr''" "'';x=1''"]
  by (simp add: ascii_def tag_stop_def)

lemma bytes_le_total: "bytes_le a b \<or> bytes_le b a"
  by (induction a b rule: bytes_le.induct) auto

lemma bytes_le_antisym: "bytes_le a b \<Longrightarrow> bytes_le b a \<Longrightarrow> a = b"
proof (induction a b rule: bytes_le.induct)
  case (1 ys)
  then show ?case by (cases ys) auto
next
  case (3 x xs y ys)
  then have "code x = code y" "xs = ys" by auto
  then show ?case by (metis char_of_char)
qed auto

lemma colon_cut: "CHR '':'' \<notin> set b \<Longrightarrow> CHR '':'' \<notin> set b' \<Longrightarrow>
    a @ '':'' @ b = a' @ '':'' @ b' \<Longrightarrow> a = a' \<and> b = b'"
proof -
  assume b: "CHR '':'' \<notin> set b" "CHR '':'' \<notin> set b'" and eq: "a @ '':'' @ b = a' @ '':'' @ b'"
  have split: "takeWhile (\<lambda>c. c \<noteq> CHR '':'') (rev (x @ '':'' @ y)) = rev y" if "CHR '':'' \<notin> set y" for x y
    using that by (auto simp: takeWhile_append)
  from arg_cong [OF eq, of "\<lambda>s. takeWhile (\<lambda>c. c \<noteq> CHR '':'') (rev s)"] split b have "b = b'"
    by (metis rev_rev_ident)
  with eq show ?thesis by simp
qed

text \<open>
  a dialog id names the call and its two parties whichever of them speaks: it is the same for
  \<open>(from, to)\<close> and \<open>(to, from)\<close>, and dialogs with another Call-ID or another pair of tags have another
  id, for tags without a colon (which RFC 3261 does not allow in a token).
\<close>

theorem dialog_id_identifies:
  assumes "f \<noteq> []" "t \<noteq> []" "f' \<noteq> []" "t' \<noteq> []" and "CHR '':'' \<notin> set (f @ t @ f' @ t')"
  shows "normalize_dialog_id c f t = normalize_dialog_id c' f' t' \<longleftrightarrow> c = c' \<and> {f, t} = {f', t'}"
proof -
  define lo hi where "lo = (\<lambda>a b. if bytes_le a b then a else b)"
    and "hi = (\<lambda>a b. if bytes_le a b then b else a)"
  have norm: "normalize_dialog_id c a b = Some (c @ '':'' @ lo a b @ '':'' @ hi a b)"
    if "a \<noteq> []" "b \<noteq> []" for c a b
    using that by (simp add: normalize_dialog_id_def Let_def lo_def hi_def)
  have sym: "lo a b = lo b a \<and> hi a b = hi b a" for a b
    using bytes_le_total [of a b] bytes_le_antisym [of a b] by (auto simp: lo_def hi_def)
  have set: "{lo a b, hi a b} = {a, b}" for a b by (auto simp: lo_def hi_def)
  have nc: "CHR '':'' \<notin> set (lo f t)" "CHR '':'' \<notin> set (hi f t)" "CHR '':'' \<notin> set (lo f' t')"
    "CHR '':'' \<notin> set (hi f' t')"
    using assms(5) by (auto simp: lo_def hi_def)
  show ?thesis
  proof
    assume "normalize_dialog_id c f t = normalize_dialog_id c' f' t'"
    then have eq: "(c @ '':'' @ lo f t) @ '':'' @ hi f t = (c' @ '':'' @ lo f' t') @ '':'' @ hi f' t'"
      using assms(1-4) by (simp add: norm)
    then have "c @ '':'' @ lo f t = c' @ '':'' @ lo f' t'" "hi f t = hi f' t'"
      using colon_cut [OF nc(2,4) eq] by auto
    then have "c = c'" "lo f t = lo f' t'" "hi f t = hi f' t'" using colon_cut [OF nc(1,3)] by auto
    then show "c = c' \<and> {f, t} = {f', t'}" using set by metis
  next
    assume "c = c' \<and> {f, t} = {f', t'}"
    then have "c = c'" "f = f' \<and> t = t' \<or> f = t' \<and> t = f'" by (auto simp: doubleton_eq_iff)
    then show "normalize_dialog_id c f t = normalize_dialog_id c' f' t'"
      using assms(1-4) sym by (auto simp: norm)
  qed
qed

theorem dialog_id_identifies_witness:
  "normalize_dialog_id ''c1'' ''a'' ''b'' = normalize_dialog_id ''c1'' ''b'' ''a''"
  using dialog_id_identifies [of "''a''" "''b''" "''b''" "''a''" "''c1''" "''c1''"] by (simp add: insert_commute)

end
