(* ===== verification/Sdp_Parser.thy ===== *)
theory Sdp_Parser
  imports Go_Bytes
begin

text \<open>
  SDP bodies (\<open>internal/sdp/parser.go\<close>): the audio media of an offer or answer, with the address the
  session, the media section or the origin line gives it.  Lines are read by index, as in the code;
  \<open>sdp_spec\<close> states what the index arithmetic amounts to.
\<close>

section \<open>Data\<close>

record sdp_media =
  sm_ip :: string
  sm_port :: u16
  sm_rtcp_port :: u16
  sm_rtcp_addr :: string
  sm_rtcp_mux :: bool
  sm_codecs :: "(u8, string) gomap"
  sm_clock_rates :: "(u8, u32) gomap"
  sm_srtp :: bool

definition ip_null_hold :: string where "ip_null_hold = ''0.0.0.0''"
definition ip_ver_ipv4 :: string where "ip_ver_ipv4 = ''IP4''"

definition is_media_line :: "string \<Rightarrow> bool" where
  "is_media_line raw \<longleftrightarrow> has_prefix ''m='' (trim_space raw)"

section \<open>Lines\<close>

definition extract_conn_ip :: "string \<Rightarrow> string \<times> string" where
  "extract_conn_ip line =
     (let fields = go_fields (trim_prefix ''c='' line)
      in if length fields < 3 then ([], [])
         else let addr = fields ! 2
              in (case index_byte CHR ''/'' addr of None \<Rightarrow> addr | Some i \<Rightarrow> take i addr, fields ! 1))"

definition extract_origin_ip :: "string \<Rightarrow> string" where
  "extract_origin_ip line =
     (let fields = go_fields (trim_prefix ''o='' line)
      in if 6 \<le> length fields \<and> fields ! 3 = ''IN'' then fields ! 5 else [])"

definition parse_rtpmap :: "string \<Rightarrow> (u8, string) gomap \<Rightarrow> (u8, u32) gomap
    \<Rightarrow> (u8, string) gomap \<times> (u8, u32) gomap" where
  "parse_rtpmap line codecs clocks =
     (let rest = trim_prefix ''a=rtpmap:'' line; pt_enc = go_split_n rest '' '' 2
      in if length pt_enc \<noteq> 2 then (codecs, clocks)
         else case go_atoi (trim_space (pt_enc ! 0)) of
           None \<Rightarrow> (codecs, clocks)
         | Some pt \<Rightarrow>
             if pt < 0 \<or> 127 < pt then (codecs, clocks)
             else let enc_parts = go_split_n (trim_space (pt_enc ! 1)) ''/'' 3
                  in if length enc_parts < 2 then (codecs, clocks)
                     else case go_parse_uint32 (enc_parts ! 1) of
                       None \<Rightarrow> (codecs, clocks)
                     | Some clock \<Rightarrow>
                         (mput (word_of_int pt) (enc_parts ! 0) codecs, mput (word_of_int pt) clock clocks))"

definition parse_rtcp_attr :: "string \<Rightarrow> u16 \<times> string" where
  "parse_rtcp_attr line =
     (let fields = go_fields (trim_prefix ''a=rtcp:'' line)
      in if length fields < 1 then (0, [])
         else case go_atoi (fields ! 0) of
           None \<Rightarrow> (0, [])
         | Some p \<Rightarrow>
             if p \<le> 0 \<or> 65535 < p then (0, [])
             else (word_of_int p,
               if 4 \<le> length fields \<and> fields ! 1 = ''IN'' \<and> fields ! 2 = ip_ver_ipv4
               then fields ! 3 else []))"

text \<open>
  \<open>detectIPVer\<close> ranges over the runes of the text; a byte outside ASCII belongs to a rune that is
  neither a digit nor a dot, so bytes decide.
\<close>

definition detect_ip_ver :: "string \<Rightarrow> string" where
  "detect_ip_ver ip =
     (if ip = [] then []
      else if list_ex (\<lambda>r. \<not> is_digit r \<and> r \<noteq> CHR ''.'') ip then ''IP6'' else ip_ver_ipv4)"

section \<open>A media section\<close>

record media_scan =
  ms_media :: sdp_media
  ms_inactive :: bool
  ms_ip :: string

definition scan_line :: "string \<Rightarrow> media_scan \<Rightarrow> media_scan" where
  "scan_line line s =
     (let m = ms_media s in
      if has_prefix ''c='' line then s\<lparr>ms_ip := fst (extract_conn_ip line)\<rparr>
      else if line = ''a=inactive'' then s\<lparr>ms_inactive := True\<rparr>
      else if has_prefix ''a=fingerprint'' line \<or> has_prefix ''a=crypto:'' line
      then s\<lparr>ms_media := m\<lparr>sm_srtp := True\<rparr>\<rparr>
      else if has_prefix ''a=rtpmap:'' line then
        let (codecs, clocks) = parse_rtpmap line (sm_codecs m) (sm_clock_rates m)
        in s\<lparr>ms_media := m\<lparr>sm_codecs := codecs, sm_clock_rates := clocks\<rparr>\<rparr>
      else if has_prefix ''a=rtcp:'' line then
        let (port, addr) = parse_rtcp_attr line
        in s\<lparr>ms_media := m\<lparr>sm_rtcp_port := port, sm_rtcp_addr := addr\<rparr>\<rparr>
      else if line = ''a=rtcp-mux'' then s\<lparr>ms_media := m\<lparr>sm_rtcp_mux := True\<rparr>\<rparr>
      else s)"

text \<open>The \<open>scan\<close> loop of \<open>parseMedia\<close>: the index it stops at, one before the next media line.\<close>

function scan_media :: "string list \<Rightarrow> nat \<Rightarrow> media_scan \<Rightarrow> nat \<times> media_scan" where
  "scan_media lines j s =
     (if j < length lines then
        (if is_media_line (lines ! j) then (j - 1, s)
         else scan_media lines (j + 1) (scan_line (trim_space (lines ! j)) s))
      else (j, s))"
  by pat_completeness auto
termination by (relation "measure (\<lambda>(lines, j, s). length lines - j)") auto

declare scan_media.simps [simp del]

definition consume_until_next_media :: "string list \<Rightarrow> nat \<Rightarrow> nat" where
  "consume_until_next_media lines from = length (takeWhile (\<lambda>l. \<not> is_media_line l) (drop from lines))"

definition new_media :: "string \<Rightarrow> int \<Rightarrow> sdp_media" where
  "new_media ip port = \<lparr>sm_ip = ip, sm_port = word_of_int port, sm_rtcp_port = 0, sm_rtcp_addr = [],
     sm_rtcp_mux = False, sm_codecs = [], sm_clock_rates = [], sm_srtp = False\<rparr>"

text \<open>The port of an audio media line; \<open>None\<close> makes the section be skipped.\<close>

definition audio_port :: "string \<Rightarrow> int option" where
  "audio_port first =
     (let fields = go_fields (trim_prefix ''m='' (trim_space first))
      in if length fields < 2 \<or> fields ! 0 \<noteq> ''audio'' then None
         else case go_atoi (fields ! 1) of
           None \<Rightarrow> None
         | Some port \<Rightarrow> if port \<le> 0 \<or> 65535 < port then None else Some port)"

definition scan_result :: "media_scan \<Rightarrow> sdp_media option" where
  "scan_result s =
     (if ms_inactive s then None
      else if ms_ip s \<noteq> [] then Some ((ms_media s)\<lparr>sm_ip := ms_ip s\<rparr>)
      else Some (ms_media s))"

definition parse_media :: "string list \<Rightarrow> nat \<Rightarrow> string \<Rightarrow> sdp_media option \<times> nat" where
  "parse_media lines start session_ip =
     (case audio_port (lines ! start) of
        None \<Rightarrow> (None, consume_until_next_media lines (start + 1))
      | Some port \<Rightarrow>
          let (j, s) = scan_media lines (start + 1)
                \<lparr>ms_media = new_media session_ip port, ms_inactive = False, ms_ip = []\<rparr>
          in (scan_result s, j - start))"

section \<open>The body\<close>

definition has_media_before :: "string list \<Rightarrow> nat \<Rightarrow> bool" where
  "has_media_before lines i \<longleftrightarrow> list_ex is_media_line (take i lines)"

definition usable_media :: "string \<Rightarrow> sdp_media \<Rightarrow> sdp_media list" where
  "usable_media origin_ip media =
     (let media' = (if sm_ip media = [] then media\<lparr>sm_ip := origin_ip\<rparr> else media)
      in if sm_ip media' = ip_null_hold \<or> detect_ip_ver (sm_ip media') \<noteq> ip_ver_ipv4 then []
         else [media'])"

function sdp_loop :: "string list \<Rightarrow> nat \<Rightarrow> string \<Rightarrow> string \<Rightarrow> bool \<Rightarrow> sdp_media list \<Rightarrow> sdp_media list" where
  "sdp_loop lines i session_ip origin_ip seen result =
     (if i < length lines then
        let line = trim_space (lines ! i) in
        if has_prefix ''o='' line
        then sdp_loop lines (i + 1) session_ip (extract_origin_ip line) seen result
        else if has_prefix ''m='' line then
          let (media, consumed) = parse_media lines i session_ip
          in sdp_loop lines (i + consumed + 1) session_ip origin_ip seen
               (result @ (case media of None \<Rightarrow> [] | Some m \<Rightarrow> usable_media origin_ip m))
        else if has_prefix ''c='' line \<and> \<not> seen \<and> \<not> has_media_before lines i then
          let (ip, ver) = extract_conn_ip line
          in sdp_loop lines (i + 1) (if ver = ip_ver_ipv4 then ip else session_ip) origin_ip True result
        else sdp_loop lines (i + 1) session_ip origin_ip seen result
      else result)"
  by pat_completeness auto
termination by (relation "measure (\<lambda>(lines, i, _). length lines - i)") auto

declare sdp_loop.simps [simp del]

definition sdp_parse :: "string \<Rightarrow> sdp_media list" where
  "sdp_parse body = (if body = [] then [] else sdp_loop (go_split body [CHR 0x0A]) 0 [] [] False [])"

section \<open>What the loops amount to\<close>

text \<open>
  The body read structurally: the session part up to the first media line, then one section per
  media line, up to the next.
\<close>

function sections :: "string list \<Rightarrow> string list list" where
  "sections [] = []"
| "sections (l # ls) =
     (l # takeWhile (\<lambda>l. \<not> is_media_line l) ls) # sections (dropWhile (\<lambda>l. \<not> is_media_line l) ls)"
  by pat_completeness auto
termination by (relation "measure length") (auto simp: length_dropWhile_le le_imp_less_Suc)

definition session_line :: "string \<times> string \<times> bool \<Rightarrow> string \<Rightarrow> string \<times> string \<times> bool" where
  "session_line = (\<lambda>(session_ip, origin_ip, seen) raw.
     let line = trim_space raw in
     if has_prefix ''o='' line then (session_ip, extract_origin_ip line, seen)
     else if has_prefix ''c='' line \<and> \<not> seen then
       (if snd (extract_conn_ip line) = ip_ver_ipv4 then fst (extract_conn_ip line) else session_ip, origin_ip, True)
     else (session_ip, origin_ip, seen))"

definition scan_lines :: "media_scan \<Rightarrow> string list \<Rightarrow> media_scan" where
  "scan_lines = foldl (\<lambda>s raw. scan_line (trim_space raw) s)"

definition section_media :: "string \<Rightarrow> string \<Rightarrow> string list \<Rightarrow> sdp_media list" where
  "section_media session_ip origin_ip sec =
     (case audio_port (hd sec) of
        None \<Rightarrow> []
      | Some port \<Rightarrow>
          (case scan_result (scan_lines \<lparr>ms_media = new_media session_ip port, ms_inactive = False, ms_ip = []\<rparr> (tl sec)) of
             None \<Rightarrow> []
           | Some m \<Rightarrow> usable_media origin_ip m))"

definition sdp_spec :: "string list \<Rightarrow> sdp_media list" where
  "sdp_spec lines =
     (let (session_ip, origin_ip, _) = foldl session_line ([], [], False) (takeWhile (\<lambda>l. \<not> is_media_line l) lines)
      in concat (map (section_media session_ip origin_ip) (sections (dropWhile (\<lambda>l. \<not> is_media_line l) lines))))"

lemma scan_media_spec:
  assumes "j \<le> length lines"
  shows "scan_media lines j s =
    (let body = takeWhile (\<lambda>l. \<not> is_media_line l) (drop j lines); e = j + length body
     in (if e < length lines then e - 1 else e, scan_lines s body))"
  using assms
proof (induction lines j s rule: scan_media.induct)
  case (1 lines j s)
  show ?case
  proof (cases "j < length lines")
    case True
    then have d: "drop j lines = lines ! j # drop (Suc j) lines" by (simp add: Cons_nth_drop_Suc)
    show ?thesis
    proof (cases "is_media_line (lines ! j)")
      case False
      with 1 True have "scan_media lines j s = scan_media lines (j + 1) (scan_line (trim_space (lines ! j)) s)"
        by (subst scan_media.simps) simp
      with 1 True False show ?thesis by (simp add: d Let_def scan_lines_def)
    qed (use True in \<open>subst scan_media.simps, simp add: d scan_lines_def\<close>)
  qed (use 1 in \<open>subst scan_media.simps, simp add: scan_lines_def\<close>)
qed

lemma sdp_loop_end: "length lines \<le> i \<Longrightarrow> sdp_loop lines i s org seen res = res"
  by (subst sdp_loop.simps) simp

lemma media_not_origin: "has_prefix ''m='' line \<Longrightarrow> \<not> has_prefix ''o='' line"
  by (cases line) (auto simp: has_prefix_def)

lemma sdp_loop_media:
  assumes "i < length lines" and "is_media_line (lines ! i)" and "parse_media lines i s = (media, consumed)"
  shows "sdp_loop lines i s org seen res = sdp_loop lines (i + consumed + 1) s org seen
     (res @ (case media of None \<Rightarrow> [] | Some m \<Rightarrow> usable_media org m))"
  using assms media_not_origin by (subst sdp_loop.simps) (simp add: is_media_line_def)

lemma parse_media_spec:
  assumes "i < length lines"
  shows "\<exists>consumed. parse_media lines i ip =
      (case audio_port (lines ! i) of
         None \<Rightarrow> None
       | Some port \<Rightarrow> scan_result (scan_lines \<lparr>ms_media = new_media ip port, ms_inactive = False, ms_ip = []\<rparr>
           (takeWhile (\<lambda>l. \<not> is_media_line l) (drop (Suc i) lines))), consumed) \<and>
     (i + consumed + 1 = Suc i + length (takeWhile (\<lambda>l. \<not> is_media_line l) (drop (Suc i) lines)) \<or>
      length lines \<le> i + consumed + 1 \<and>
      length lines \<le> Suc i + length (takeWhile (\<lambda>l. \<not> is_media_line l) (drop (Suc i) lines)))"
proof (cases "audio_port (lines ! i)")
  case None
  then show ?thesis by (simp add: parse_media_def consume_until_next_media_def)
next
  case (Some port)
  have "Suc i \<le> length lines" using assms by simp
  note sp = scan_media_spec [OF this]
  show ?thesis using Some by (auto simp: parse_media_def sp Let_def)
qed

lemma dropWhile_takeWhile_drop: "drop (length (takeWhile P xs)) xs = dropWhile P xs"
  by (simp add: dropWhile_eq_drop)

lemma drop_skip: "drop (i + n) xs = drop n (drop i xs)"
  by (simp add: add.commute)

lemma sdp_loop_sections:
  "i < length lines \<longrightarrow> is_media_line (lines ! i) \<Longrightarrow>
   sdp_loop lines i s org seen res = res @ concat (map (section_media s org) (sections (drop i lines)))"
proof (induction "length lines - i" arbitrary: i res rule: less_induct)
  case less
  show ?case
  proof (cases "i < length lines")
    case True
    let ?body = "takeWhile (\<lambda>l. \<not> is_media_line l) (drop (Suc i) lines)"
    have med: "is_media_line (lines ! i)" using less.prems True by simp
    have d: "drop i lines = lines ! i # drop (Suc i) lines" using True by (simp add: Cons_nth_drop_Suc)
    obtain consumed where pm: "parse_media lines i s = (case audio_port (lines ! i) of
         None \<Rightarrow> None
       | Some port \<Rightarrow> scan_result (scan_lines \<lparr>ms_media = new_media s port, ms_inactive = False, ms_ip = []\<rparr> ?body), consumed)"
      and nxt: "i + consumed + 1 = Suc i + length ?body \<or>
        length lines \<le> i + consumed + 1 \<and> length lines \<le> Suc i + length ?body"
      using parse_media_spec [OF True, of s] by metis
    let ?i' = "i + consumed + 1" and ?res' = "res @ section_media s org (lines ! i # ?body)"
    have "sdp_loop lines i s org seen res = sdp_loop lines ?i' s org seen ?res'"
      unfolding sdp_loop_media [OF True med pm]
      by (cases "audio_port (lines ! i)") (simp_all only: section_media_def list.sel option.case)
    also have "\<dots> = ?res' @ concat (map (section_media s org) (sections (dropWhile (\<lambda>l. \<not> is_media_line l) (drop (Suc i) lines))))"
    proof (cases "?i' = Suc i + length ?body")
      case True
      then have dr: "drop ?i' lines = dropWhile (\<lambda>l. \<not> is_media_line l) (drop (Suc i) lines)"
        by (simp only: drop_skip flip: dropWhile_takeWhile_drop)
      have "is_media_line (lines ! ?i')" if "?i' < length lines"
      proof -
        from that dr have "dropWhile (\<lambda>l. \<not> is_media_line l) (drop (Suc i) lines) \<noteq> []" by (metis drop_eq_Nil not_less)
        from hd_dropWhile [OF this] show ?thesis using that dr by (metis hd_drop_conv_nth)
      qed
      with less.hyps [of ?i' ?res'] \<open>i < length lines\<close> dr show ?thesis by simp
    next
      case False
      with nxt have e: "length lines \<le> ?i'" "length lines \<le> Suc i + length ?body" by auto
      then have dw: "dropWhile (\<lambda>l. \<not> is_media_line l) (drop (Suc i) lines) = []"
        by (simp flip: dropWhile_takeWhile_drop)
      show ?thesis using e unfolding dw by (simp add: sdp_loop_end)
    qed
    finally show ?thesis by (simp add: d)
  qed (use less in \<open>simp add: sdp_loop_end\<close>)
qed

lemma sdp_loop_session:
  "\<not> list_ex is_media_line (take i lines) \<Longrightarrow>
   sdp_loop lines i s org seen [] =
     (let (s', org', _) = foldl session_line (s, org, seen) (takeWhile (\<lambda>l. \<not> is_media_line l) (drop i lines))
      in concat (map (section_media s' org') (sections (dropWhile (\<lambda>l. \<not> is_media_line l) (drop i lines)))))"
proof (induction "length lines - i" arbitrary: i s org seen rule: less_induct)
  case less
  show ?case
  proof (cases "i < length lines \<and> \<not> is_media_line (lines ! i)")
    case True
    then have d: "drop i lines = lines ! i # drop (Suc i) lines" by (simp add: Cons_nth_drop_Suc)
    have pre: "\<not> list_ex is_media_line (take (Suc i) lines)"
      using less.prems True by (simp add: take_Suc_conv_app_nth)
    obtain s1 org1 seen1 where sl: "session_line (s, org, seen) (lines ! i) = (s1, org1, seen1)" by (metis prod_cases3)
    have "sdp_loop lines i s org seen [] = sdp_loop lines (Suc i) s1 org1 seen1 []"
      using True sl less.prems
      by (subst sdp_loop.simps)
        (auto simp: is_media_line_def session_line_def Let_def has_media_before_def case_prod_beta split: if_splits)
    moreover have "length lines - Suc i < length lines - i" using True by auto
    note less.hyps [OF this pre, of s1 org1 seen1]
    ultimately show ?thesis using True by (simp add: d sl)
  next
    case False
    then have "takeWhile (\<lambda>l. \<not> is_media_line l) (drop i lines) = []
        \<and> dropWhile (\<lambda>l. \<not> is_media_line l) (drop i lines) = drop i lines"
      by (cases "i < length lines") (auto simp flip: Cons_nth_drop_Suc)
    with False show ?thesis by (subst sdp_loop_sections) auto
  qed
qed


section \<open>What is returned\<close>

definition maps_ok :: "(u8, string) gomap \<Rightarrow> (u8, u32) gomap \<Rightarrow> bool" where
  "maps_ok codecs clocks \<longleftrightarrow>
     fst ` set codecs = fst ` set clocks \<and> (\<forall>pt \<in> fst ` set codecs. pt < 128)"

abbreviation codec_maps_ok :: "sdp_media \<Rightarrow> bool" where
  "codec_maps_ok m \<equiv> maps_ok (sm_codecs m) (sm_clock_rates m)"

definition media_ok :: "sdp_media \<Rightarrow> bool" where
  "media_ok m \<longleftrightarrow> sm_port m \<noteq> 0 \<and> sm_ip m \<noteq> ip_null_hold \<and> detect_ip_ver (sm_ip m) = ip_ver_ipv4 \<and>
     codec_maps_ok m"

lemma parse_rtpmap_cases:
  "parse_rtpmap line codecs clocks = (codecs, clocks) \<or>
   (\<exists>pt name clock. pt < 128 \<and> parse_rtpmap line codecs clocks = (mput pt name codecs, mput pt clock clocks))"
proof -
  have small: "(word_of_int pt :: u8) < 128" if "0 \<le> pt" "pt \<le> 127" for pt
    using that by (simp add: word_less_def uint_word_of_int take_bit_int_eq_self)
  define Q where "Q x \<longleftrightarrow> x = (codecs, clocks) \<or>
     (\<exists>pt name clock. pt < 128 \<and> x = (mput pt name codecs, mput pt clock clocks))" for x
  have "Q (codecs, clocks)" by (simp add: Q_def)
  moreover have "Q (mput (word_of_int pt) name codecs, mput (word_of_int pt) clock clocks)"
    if "0 \<le> pt" "pt \<le> 127" for pt name clock
    unfolding Q_def using small [OF that] by blast
  ultimately have "Q (parse_rtpmap line codecs clocks)"
    unfolding parse_rtpmap_def Let_def by (simp split: option.split)
  then show ?thesis unfolding Q_def .
qed

lemma parse_rtpmap_keys:
  assumes "maps_ok codecs clocks"
  shows "maps_ok (fst (parse_rtpmap line codecs clocks)) (snd (parse_rtpmap line codecs clocks))"
  using parse_rtpmap_cases [of line codecs clocks]
proof (elim disjE exE conjE)
  fix pt name clock
  assume "pt < 128" and "parse_rtpmap line codecs clocks = (mput pt name codecs, mput pt clock clocks)"
  with assms show ?thesis unfolding maps_ok_def by (simp only: fst_set_mput fst_conv snd_conv) blast
qed (use assms in simp)

lemma scan_line_keeps:
  "codec_maps_ok (ms_media s) \<Longrightarrow> codec_maps_ok (ms_media (scan_line line s)) \<and>
   sm_port (ms_media (scan_line line s)) = sm_port (ms_media s)"
  using parse_rtpmap_keys [of "sm_codecs (ms_media s)" "sm_clock_rates (ms_media s)" line]
  by (simp add: scan_line_def Let_def case_prod_beta)

lemma scan_lines_keeps:
  "codec_maps_ok (ms_media s) \<Longrightarrow> codec_maps_ok (ms_media (scan_lines s ls)) \<and>
   sm_port (ms_media (scan_lines s ls)) = sm_port (ms_media s)"
  unfolding scan_lines_def using scan_line_keeps by (induction ls arbitrary: s) auto

lemma section_media_ok: "list_all media_ok (section_media s org sec)"
proof (cases "audio_port (hd sec)")
  case (Some port)
  let ?s0 = "\<lparr>ms_media = new_media s port, ms_inactive = False, ms_ip = []\<rparr>"
  have "0 < port" "port \<le> 65535"
    using Some by (auto simp: audio_port_def Let_def split: if_splits option.splits)
  then have "uint (word_of_int port :: u16) = port" by (simp add: uint_word_of_int take_bit_int_eq_self)
  then have "(word_of_int port :: u16) \<noteq> 0" using \<open>0 < port\<close> by (metis unsigned_0 less_irrefl)
  then have p: "sm_port (new_media s port) \<noteq> 0" "codec_maps_ok (new_media s port)"
    by (simp_all add: new_media_def maps_ok_def)
  note k = scan_lines_keeps [of ?s0 "tl sec"]
  show ?thesis using p k Some
    by (auto simp: section_media_def usable_media_def Let_def scan_result_def media_ok_def
        split: if_splits option.splits)
qed (simp add: section_media_def)

text \<open>
    whatever the body, every media description returned can be registered: it has a port, an IPv4
  literal that is not the hold address, and its two codec maps speak of the same payload types, all
  below 128.
\<close>

theorem sdp_media_usable: "list_all media_ok (sdp_parse body)"
proof -
  have "list_all media_ok (sdp_spec lines)" for lines
    using section_media_ok by (auto simp: sdp_spec_def case_prod_beta list_all_iff)
  then show ?thesis using sdp_loop_session [of 0 _ "[]" "[]" False]
    by (simp add: sdp_parse_def sdp_spec_def)
qed

end
