(* ===== verification/Endpoint_Filter.thy ===== *)
theory Endpoint_Filter
  imports Go_Text
begin

text \<open>
  The kernel packet filter's endpoint maps (\<open>internal/exporter/exporter.go\<close>, \<open>ipPortToKey\<close> to
  \<open>reconcileRTPEndpoints\<close>): reference counts of the registered endpoints, the presence each BPF map
  should have, and the retry of updates the kernel refused.  The BPF maps are third-party code: they
  are a parameter, the two calls the exporter makes on a map, each with the error it returned.
\<close>

section \<open>Keys\<close>

record rtp_endpoint_key =
  rk_ip :: u32
  rk_port :: u16

definition ipv4_number :: "ipv4 \<Rightarrow> u32" where
  "ipv4_number = (\<lambda>(a, b, c, d).
     push_bit 24 (ucast a) OR push_bit 16 (ucast b) OR push_bit 8 (ucast c) OR ucast d)"

definition ip_port_to_key :: "string \<Rightarrow> u16 \<Rightarrow> rtp_endpoint_key option" where
  "ip_port_to_key ip port =
     map_option (\<lambda>a. \<lparr>rk_ip = ipv4_number a, rk_port = port\<rparr>) (parse_ip_to4 ip)"

section \<open>BPF maps\<close>

datatype map_error = ErrKeyNotExist | ErrOther

record 'm bpf_map =
  bm_update :: "rtp_endpoint_key \<Rightarrow> 'm \<Rightarrow> map_error option \<times> 'm"
  bm_delete :: "rtp_endpoint_key \<Rightarrow> 'm \<Rightarrow> map_error option \<times> 'm"

record 'm filter_state =
  fs_maps :: "'m list"
  fs_refs :: "(rtp_endpoint_key, nat) gomap"
  fs_dirty :: "(rtp_endpoint_key, bool) gomap"

definition new_filter :: "'m list \<Rightarrow> 'm filter_state" where
  "new_filter maps = \<lparr>fs_maps = maps, fs_refs = [], fs_dirty = []\<rparr>"

text \<open>One pass over the maps: the maps afterwards, and whether all of them converged.\<close>

fun apply_presence :: "'m bpf_map \<Rightarrow> rtp_endpoint_key \<Rightarrow> bool \<Rightarrow> 'm list \<Rightarrow> bool \<times> 'm list" where
  "apply_presence bpf key present [] = (True, [])"
| "apply_presence bpf key present (m # ms) =
     (let (err, m') = (if present then bm_update bpf key m else bm_delete bpf key m);
          (converged, ms') = apply_presence bpf key present ms
      in (\<not> (err \<noteq> None \<and> (present \<or> err \<noteq> Some ErrKeyNotExist)) \<and> converged, m' # ms'))"

definition set_presence :: "'m bpf_map \<Rightarrow> rtp_endpoint_key \<Rightarrow> bool \<Rightarrow> 'm filter_state \<Rightarrow> 'm filter_state" where
  "set_presence bpf key present f =
     (let (converged, ms) = apply_presence bpf key present (fs_maps f)
      in f\<lparr>fs_maps := ms,
           fs_dirty := (if converged then mdel key (fs_dirty f) else mput key present (fs_dirty f))\<rparr>)"

definition retain_endpoint :: "'m bpf_map \<Rightarrow> string \<Rightarrow> u16 \<Rightarrow> 'm filter_state \<Rightarrow> 'm filter_state" where
  "retain_endpoint bpf ip port f =
     (case ip_port_to_key ip port of
        None \<Rightarrow> f
      | Some key \<Rightarrow>
          if 0 < mget_or 0 (fs_refs f) key
          then f\<lparr>fs_refs := mput key (mget_or 0 (fs_refs f) key + 1) (fs_refs f)\<rparr>
          else set_presence bpf key True (f\<lparr>fs_refs := mput key 1 (fs_refs f)\<rparr>))"

definition release_endpoint :: "'m bpf_map \<Rightarrow> string \<Rightarrow> u16 \<Rightarrow> 'm filter_state \<Rightarrow> 'm filter_state" where
  "release_endpoint bpf ip port f =
     (case ip_port_to_key ip port of
        None \<Rightarrow> f
      | Some key \<Rightarrow>
          (case mget (fs_refs f) key of
             None \<Rightarrow> f
           | Some refs \<Rightarrow>
               if 1 < refs then f\<lparr>fs_refs := mput key (refs - 1) (fs_refs f)\<rparr>
               else set_presence bpf key False (f\<lparr>fs_refs := mdel key (fs_refs f)\<rparr>)))"

text \<open>
  The walk over the dirty keys changes the entry it stands on only, so it visits the entries the map
  had at its start.
\<close>

definition reconcile_endpoints :: "'m bpf_map \<Rightarrow> 'm filter_state \<Rightarrow> 'm filter_state" where
  "reconcile_endpoints bpf f = foldl (\<lambda>f (key, present). set_presence bpf key present f) f (fs_dirty f)"

section \<open>Convergence\<close>

text \<open>
  What the exporter relies on of a BPF hash map: a call changes its own key only, a successful update
  leaves the key present, and a deletion that succeeds or reports a missing key leaves it absent.  A
  call that fails otherwise may have done anything to its key.
\<close>

definition bpf_laws :: "'m bpf_map \<Rightarrow> ('m \<Rightarrow> rtp_endpoint_key \<Rightarrow> bool) \<Rightarrow> bool" where
  "bpf_laws bpf has \<longleftrightarrow>
     (\<forall>k m. fst (bm_update bpf k m) = None \<longrightarrow> has (snd (bm_update bpf k m)) k) \<and>
     (\<forall>k m. fst (bm_delete bpf k m) \<in> {None, Some ErrKeyNotExist} \<longrightarrow> \<not> has (snd (bm_delete bpf k m)) k) \<and>
     (\<forall>k k' m. k' \<noteq> k \<longrightarrow> has (snd (bm_update bpf k m)) k' = has m k' \<and> has (snd (bm_delete bpf k m)) k' = has m k')"

abbreviation refs_of :: "'m filter_state \<Rightarrow> rtp_endpoint_key \<Rightarrow> nat" where
  "refs_of f key \<equiv> mget_or 0 (fs_refs f) key"

text \<open>
  What a key's entry in the dirty map (\<open>None\<close>: there is none) says when the key should be present or
  absent: without an entry every map has it so, with one the entry remembers what to retry.
\<close>

definition presence_ok :: "('m \<Rightarrow> rtp_endpoint_key \<Rightarrow> bool) \<Rightarrow> 'm list \<Rightarrow> rtp_endpoint_key \<Rightarrow> bool option \<Rightarrow> bool \<Rightarrow> bool" where
  "presence_ok has maps key entry up \<longleftrightarrow>
     (case entry of None \<Rightarrow> list_all (\<lambda>m. has m key = up) maps | Some present \<Rightarrow> present = up)"

lemma presence_ok_simps [simp]:
  "presence_ok has maps key None up = list_all (\<lambda>m. has m key = up) maps"
  "presence_ok has maps key (Some present) up = (present = up)"
  by (simp_all add: presence_ok_def)

text \<open>
  The state of the filter: a key is stored exactly while it has references; a key that is not dirty is
  in every map exactly when it has references, and a dirty key remembers the presence to retry.
\<close>

definition filter_inv :: "('m \<Rightarrow> rtp_endpoint_key \<Rightarrow> bool) \<Rightarrow> 'm filter_state \<Rightarrow> bool" where
  "filter_inv has f \<longleftrightarrow> mwf (fs_refs f) \<and> mwf (fs_dirty f) \<and>
     (\<forall>key. mget (fs_refs f) key \<noteq> Some 0) \<and>
     (\<forall>key. presence_ok has (fs_maps f) key (mget (fs_dirty f) key) (0 < refs_of f key))"

datatype filter_op = Retain string u16 | Release string u16 | Reconcile

fun filter_step :: "'m bpf_map \<Rightarrow> 'm filter_state \<Rightarrow> filter_op \<Rightarrow> 'm filter_state" where
  "filter_step bpf f (Retain ip port) = retain_endpoint bpf ip port f"
| "filter_step bpf f (Release ip port) = release_endpoint bpf ip port f"
| "filter_step bpf f Reconcile = reconcile_endpoints bpf f"

lemma apply_presence_key:
  assumes "bpf_laws bpf has" and "fst (apply_presence bpf key present ms)"
  shows "list_all (\<lambda>m. has m key = present) (snd (apply_presence bpf key present ms))"
  using assms(2)
proof (induction ms)
  case (Cons m ms)
  then show ?case using assms(1)
    by (cases present) (auto simp: bpf_laws_def case_prod_beta Let_def)
qed simp

lemma apply_presence_other:
  assumes "bpf_laws bpf has" and "key' \<noteq> key"
  shows "list_all (\<lambda>m. has m key' = b) (snd (apply_presence bpf key present ms)) =
    list_all (\<lambda>m. has m key' = b) ms"
  using assms by (induction ms) (auto simp: bpf_laws_def case_prod_beta Let_def)

lemma set_presence_refs [simp]: "fs_refs (set_presence bpf key present f) = fs_refs f"
  by (simp add: set_presence_def case_prod_beta)

lemma set_presence_inv:
  assumes laws: "bpf_laws bpf has"
    and refs: "mwf (fs_refs f)" "\<And>k. mget (fs_refs f) k \<noteq> Some 0" "mwf (fs_dirty f)"
    and here: "present = (0 < refs_of f key)"
    and others: "\<And>k. k \<noteq> key \<Longrightarrow> presence_ok has (fs_maps f) k (mget (fs_dirty f) k) (0 < refs_of f k)"
  shows "filter_inv has (set_presence bpf key present f)"
proof -
  obtain conv ms where ap: "apply_presence bpf key present (fs_maps f) = (conv, ms)" by force
  have key: "conv \<Longrightarrow> list_all (\<lambda>m. has m key = present) ms"
    using apply_presence_key [OF laws, of key present "fs_maps f"] ap by simp
  have oth: "k \<noteq> key \<Longrightarrow> list_all (\<lambda>m. has m k = b) ms = list_all (\<lambda>m. has m k = b) (fs_maps f)" for k b
    using apply_presence_other [OF laws, of k key b present "fs_maps f"] ap by simp
  have dirty: "fs_dirty (set_presence bpf key present f) = (if conv then mdel key (fs_dirty f) else mput key present (fs_dirty f))"
    by (simp add: set_presence_def ap)
  have "presence_ok has ms k (mget (fs_dirty (set_presence bpf key present f)) k) (0 < refs_of f k)" for k
  proof (cases "k = key")
    case True
    then show ?thesis unfolding dirty using key here by (cases conv) simp_all
  next
    case False
    then show ?thesis unfolding dirty using others [OF False] oth [OF False]
      by (cases "mget (fs_dirty f) k") simp_all
  qed
  with refs show ?thesis by (simp add: filter_inv_def set_presence_def ap)
qed

lemma filter_inv_count:
  assumes "filter_inv has f" and "0 < refs_of f key" and "0 < n"
  shows "filter_inv has (f\<lparr>fs_refs := mput key n (fs_refs f)\<rparr>)"
proof -
  define g where "g = f\<lparr>fs_refs := mput key n (fs_refs f)\<rparr>"
  have "fs_maps g = fs_maps f" "fs_dirty g = fs_dirty f" by (simp_all add: g_def)
  moreover have "mwf (fs_refs g)" "\<forall>k. mget (fs_refs g) k \<noteq> Some 0"
    using assms by (simp_all add: g_def filter_inv_def)
  moreover have "0 < refs_of g k \<longleftrightarrow> 0 < refs_of f k" for k using assms(2,3) by (simp add: g_def)
  ultimately have "filter_inv has g" using assms(1) unfolding filter_inv_def by simp
  then show ?thesis by (simp add: g_def)
qed

lemma retain_inv:
  assumes "bpf_laws bpf has" and "filter_inv has f"
  shows "filter_inv has (retain_endpoint bpf ip port f)"
proof (cases "ip_port_to_key ip port")
  case (Some key)
  note inv = assms(2) [unfolded filter_inv_def]
  show ?thesis
  proof (cases "0 < refs_of f key")
    case True
    with filter_inv_count [OF assms(2), of key "refs_of f key + 1"] Some show ?thesis
      by (simp add: retain_endpoint_def)
  next
    case False
    let ?f = "f\<lparr>fs_refs := mput key 1 (fs_refs f)\<rparr>"
    have "filter_inv has (set_presence bpf key True ?f)"
      using inv by (intro set_presence_inv [OF assms(1)]) simp_all
    with Some False show ?thesis by (simp add: retain_endpoint_def)
  qed
qed (use assms in \<open>simp add: retain_endpoint_def\<close>)

lemma release_inv:
  assumes "bpf_laws bpf has" and "filter_inv has f"
  shows "filter_inv has (release_endpoint bpf ip port f)"
proof (cases "Option.bind (ip_port_to_key ip port) (\<lambda>k. mget (fs_refs f) k)")
  case (Some n)
  then obtain key where k: "ip_port_to_key ip port = Some key" "mget (fs_refs f) key = Some n"
    by (auto split: Option.bind_splits)
  note inv = assms(2) [unfolded filter_inv_def]
  show ?thesis
  proof (cases "1 < n")
    case True
    then have "0 < refs_of f key" using k by (simp add: mget_or_def)
    with filter_inv_count [OF assms(2), of key "n - 1"] True k show ?thesis
      by (simp add: release_endpoint_def)
  next
    case False
    let ?f = "f\<lparr>fs_refs := mdel key (fs_refs f)\<rparr>"
    have "filter_inv has (set_presence bpf key False ?f)"
      using inv by (intro set_presence_inv [OF assms(1)]) simp_all
    with k False show ?thesis by (simp add: release_endpoint_def)
  qed
next
  case None
  then show ?thesis using assms by (auto simp: release_endpoint_def split: Option.bind_splits)
qed

lemma set_presence_dirty_other:
  "k \<noteq> key \<Longrightarrow> mget (fs_dirty (set_presence bpf key present f)) k = mget (fs_dirty f) k"
  by (simp add: set_presence_def case_prod_beta)

lemma set_presence_again:
  assumes "bpf_laws bpf has" and "filter_inv has f" and "present = (0 < refs_of f key)"
  shows "filter_inv has (set_presence bpf key present f)"
  using assms(2,3) by (intro set_presence_inv [OF assms(1)]) (simp_all add: filter_inv_def)

lemma reconcile_walk_inv:
  assumes "bpf_laws bpf has"
  shows "filter_inv has f \<Longrightarrow> list_all (\<lambda>(key, present). present = (0 < refs_of f key)) ds \<Longrightarrow>
    filter_inv has (foldl (\<lambda>f (key, present). set_presence bpf key present f) f ds)"
proof (induction ds arbitrary: f)
  case (Cons d ds)
  then show ?case by (cases d) (auto intro!: Cons.IH set_presence_again [OF assms])
qed simp

lemma reconcile_inv:
  assumes "bpf_laws bpf has" and "filter_inv has f"
  shows "filter_inv has (reconcile_endpoints bpf f)"
  unfolding reconcile_endpoints_def
proof (rule reconcile_walk_inv [OF assms])
  show "list_all (\<lambda>(key, present). present = (0 < refs_of f key)) (fs_dirty f)"
    unfolding list_all_iff
  proof (clarify)
    fix key present
    assume "(key, present) \<in> set (fs_dirty f)"
    with assms(2) have "mget (fs_dirty f) key = Some present"
      by (simp add: filter_inv_def mget_Some_set)
    with assms(2) show "present = (0 < refs_of f key)" unfolding filter_inv_def by (metis presence_ok_simps(2))
  qed
qed

lemma filter_step_inv:
  assumes "bpf_laws bpf has" and "filter_inv has f"
  shows "filter_inv has (filter_step bpf f a)"
  by (cases a) (simp_all add: retain_inv release_inv reconcile_inv assms)

lemma filter_run_inv:
  assumes "bpf_laws bpf has"
  shows "filter_inv has f \<Longrightarrow> filter_inv has (foldl (filter_step bpf) f ops)"
  by (induction ops arbitrary: f) (simp_all add: filter_step_inv [OF assms])

section \<open>Reference counts\<close>

text \<open>The balance of retains and releases of a key; a release without a reference has no effect.\<close>

fun balance :: "rtp_endpoint_key \<Rightarrow> filter_op list \<Rightarrow> nat \<Rightarrow> nat" where
  "balance key [] n = n"
| "balance key (Retain ip port # ops) n =
     balance key ops (if ip_port_to_key ip port = Some key then n + 1 else n)"
| "balance key (Release ip port # ops) n =
     balance key ops (if ip_port_to_key ip port = Some key then n - 1 else n)"
| "balance key (Reconcile # ops) n = balance key ops n"

lemma reconcile_refs [simp]: "fs_refs (reconcile_endpoints bpf f) = fs_refs f"
proof -
  have "fs_refs (foldl (\<lambda>f (key, present). set_presence bpf key present f) f ds) = fs_refs f" for ds
    by (induction ds arbitrary: f) (simp_all add: case_prod_beta)
  then show ?thesis by (simp add: reconcile_endpoints_def)
qed

lemma retain_refs:
  "refs_of (retain_endpoint bpf ip port f) key =
     (if ip_port_to_key ip port = Some key then refs_of f key + 1 else refs_of f key)"
  by (auto simp: retain_endpoint_def split: option.split)

lemma release_refs:
  "refs_of (release_endpoint bpf ip port f) key =
     (if ip_port_to_key ip port = Some key then refs_of f key - 1 else refs_of f key)"
  by (auto simp: release_endpoint_def mget_or_def split: option.split)

lemma filter_run_refs: "refs_of (foldl (filter_step bpf) f ops) key = balance key ops (refs_of f key)"
proof (induction ops arbitrary: f)
  case (Cons a ops)
  show ?case by (cases a) (simp_all add: Cons retain_refs release_refs)
qed simp


text \<open>A map that holds its keys in a list and refuses the first \<open>n\<close> calls.\<close>

definition flaky_map :: "(rtp_endpoint_key list \<times> nat) bpf_map" where
  "flaky_map =
     \<lparr>bm_update = (\<lambda>k (s, n). if 0 < n then (Some ErrOther, (s, n - 1)) else (None, (k # s, 0))),
      bm_delete = (\<lambda>k (s, n). if 0 < n then (Some ErrOther, (s, n - 1))
                    else if k \<in> set s then (None, (removeAll k s, 0)) else (Some ErrKeyNotExist, (s, 0)))\<rparr>"


end
