(* ===== verification/Call_Trackers.thy ===== *)
theory Call_Trackers
  imports Dialog_Store
begin

text \<open>
  The exporter's own maps (\<open>internal/exporter/exporter.go\<close>, \<open>storeRegisterTime\<close> to \<open>cleanupInviteSDP\<close>
  and the OPTIONS and BYE trackers): pending requests by Call-ID, active registrations, cached offers
  and INVITE transactions, each with its expiry.  The locale \<open>timed_entries\<close> is the interface \<open>timed\<close>
  that \<open>cleanupExpired\<close> is generic in.
\<close>

section \<open>Entries\<close>

record register_entry =
  rg_timestamp :: time
  rg_carrier :: string
  rg_ua_type :: string
  rg_source_country :: string
  rg_src_ip :: string

record invite_entry =
  iv_timestamp :: time
  iv_carrier :: string
  iv_ua_type :: string
  iv_source_country :: string
  iv_direction :: string
  iv_ttr_measured :: bool
  iv_pdd_measured :: bool

text \<open>\<open>optionsEntry\<close> and \<open>byeEntry\<close> have the same fields.\<close>

record request_entry =
  rq_timestamp :: time
  rq_carrier :: string
  rq_ua_type :: string
  rq_source_country :: string

record register_expiry_entry =
  rx_expiry :: time
  rx_carrier :: string
  rx_ua_type :: string
  rx_source_country :: string
  rx_direction :: string

record invite_sdp_entity =
  sd_body :: string
  sd_timestamp :: time

record invite_transaction =
  it_reinvite :: bool
  it_final :: bool
  it_timestamp :: time

record invite_sdp_key =
  ik_call_id :: string
  ik_cseq_id :: string
  ik_from_tag :: string

record call_trackers =
  ct_register :: "(string, register_entry) gomap"
  ct_register_expiry :: "(string, register_expiry_entry) gomap"
  ct_invite :: "(string, invite_entry) gomap"
  ct_invite_sdp :: "(invite_sdp_key, invite_sdp_entity) gomap"
  ct_transactions :: "(invite_sdp_key, invite_transaction) gomap"
  ct_closed_calls :: "(string, time) gomap"
  ct_options :: "(string, request_entry) gomap"
  ct_bye :: "(string, request_entry) gomap"

definition new_call_trackers :: call_trackers where
  "new_call_trackers = \<lparr>ct_register = [], ct_register_expiry = [], ct_invite = [], ct_invite_sdp = [],
     ct_transactions = [], ct_closed_calls = [], ct_options = [], ct_bye = []\<rparr>"

definition default_register_ttl :: duration where "default_register_ttl = 60 * second"
definition default_invite_ttl :: duration where "default_invite_ttl = 60 * second"
definition default_options_ttl :: duration where "default_options_ttl = 60 * second"
definition default_bye_ttl :: duration where "default_bye_ttl = 60 * second"
definition default_ua_type :: string where "default_ua_type = ''other''"
definition default_country :: string where "default_country = ''unknown''"

section \<open>Expiry\<close>

definition cleanup_expired :: "('v \<Rightarrow> time) \<Rightarrow> duration \<Rightarrow> time \<Rightarrow> ('k, 'v) gomap \<Rightarrow> ('k, 'v) gomap" where
  "cleanup_expired created ttl now m = mdrop (\<lambda>k v. ttl < time_sub now (created v)) m"

text \<open>\<open>float64(time.Since(t).Nanoseconds()) / nanosPerMs\<close>.\<close>

definition elapsed_ms :: "time \<Rightarrow> time \<Rightarrow> real" where
  "elapsed_ms now start = real_of_int (time_sub now start) / 1000000"

text \<open>\<open>time.Now().Add(time.Duration(sec) * time.Second)\<close>: the product is an \<open>int64\<close>.\<close>

definition expires_at :: "time \<Rightarrow> int \<Rightarrow> time" where
  "expires_at now sec = now + wrap64 (sec * second)"

section \<open>REGISTER\<close>

definition store_register_time :: "string \<Rightarrow> string \<Rightarrow> string \<Rightarrow> string \<Rightarrow> string \<Rightarrow> time \<Rightarrow> call_trackers \<Rightarrow> call_trackers" where
  "store_register_time call_id carrier ua country src_ip now t =
     t\<lparr>ct_register := mput call_id
        \<lparr>rg_timestamp = now, rg_carrier = carrier, rg_ua_type = ua, rg_source_country = country,
         rg_src_ip = src_ip\<rparr> (ct_register t)\<rparr>"

definition get_register_time :: "string \<Rightarrow> call_trackers \<Rightarrow> time option" where
  "get_register_time call_id t = map_option rg_timestamp (mget (ct_register t) call_id)"

definition remove_register_time :: "string \<Rightarrow> call_trackers \<Rightarrow> call_trackers" where
  "remove_register_time call_id t = t\<lparr>ct_register := mdel call_id (ct_register t)\<rparr>"

definition get_register_carrier :: "string \<Rightarrow> call_trackers \<Rightarrow> (string \<times> string \<times> string \<times> string) \<times> bool" where
  "get_register_carrier call_id t =
     (case mget (ct_register t) call_id of
        None \<Rightarrow> (([], default_ua_type, default_country, []), False)
      | Some e \<Rightarrow> ((rg_carrier e, rg_ua_type e, rg_source_country e, rg_src_ip e), True))"

text \<open>The map update of \<open>storeRegistration\<close>, and whether the country changed.\<close>

definition store_registration :: "string \<Rightarrow> string \<Rightarrow> string \<Rightarrow> string \<Rightarrow> string \<Rightarrow> int \<Rightarrow> time \<Rightarrow> call_trackers
    \<Rightarrow> bool \<times> call_trackers" where
  "store_registration aor carrier ua country direction expires_sec now t =
     (let expiry = expires_at now expires_sec;
          changed = (case mget (ct_register_expiry t) aor of
             None \<Rightarrow> False
           | Some prev \<Rightarrow> rx_source_country prev \<noteq> [] \<and> rx_source_country prev \<noteq> country)
      in (changed,
          t\<lparr>ct_register_expiry := mput aor
             \<lparr>rx_expiry = expiry, rx_carrier = carrier, rx_ua_type = ua, rx_source_country = country,
              rx_direction = direction\<rparr> (ct_register_expiry t)\<rparr>))"

definition cleanup_expired_registrations :: "time \<Rightarrow> call_trackers \<Rightarrow> call_trackers" where
  "cleanup_expired_registrations now t =
     t\<lparr>ct_register_expiry := mdrop (\<lambda>aor e. rx_expiry e < now) (ct_register_expiry t)\<rparr>"

definition registration_key :: "register_expiry_entry \<Rightarrow> string \<times> string \<times> string \<times> string" where
  "registration_key e = (rx_carrier e, rx_ua_type e, rx_source_country e, rx_direction e)"

definition registration_counts :: "call_trackers \<Rightarrow> labeled_count list" where
  "registration_counts t =
     map (\<lambda>(k, n). \<lparr>lc_labels = dialog_labels k, lc_count = n\<rparr>)
       (mtally (map (\<lambda>(aor, e). registration_key e) (ct_register_expiry t)))"

definition cleanup_register_tracker :: "time \<Rightarrow> call_trackers \<Rightarrow> call_trackers" where
  "cleanup_register_tracker now t =
     t\<lparr>ct_register := cleanup_expired rg_timestamp default_register_ttl now (ct_register t)\<rparr>"

section \<open>INVITE\<close>

definition store_invite_time :: "string \<Rightarrow> string \<Rightarrow> string \<Rightarrow> string \<Rightarrow> string \<Rightarrow> time \<Rightarrow> call_trackers \<Rightarrow> call_trackers" where
  "store_invite_time call_id carrier ua country direction now t =
     t\<lparr>ct_invite := mput call_id
        \<lparr>iv_timestamp = now, iv_carrier = carrier, iv_ua_type = ua, iv_source_country = country,
         iv_direction = direction, iv_ttr_measured = False, iv_pdd_measured = False\<rparr> (ct_invite t)\<rparr>"

record read_invite_result =
  ri_delay_ms :: real
  ri_carrier :: string
  ri_ua_type :: string
  ri_source_country :: string
  ri_direction :: string

text \<open>\<open>readInviteEntry\<close>; \<open>None\<close> is the result with \<open>Ok\<close> false.\<close>

definition read_invite_entry :: "string \<Rightarrow> time \<Rightarrow> call_trackers \<Rightarrow> read_invite_result option" where
  "read_invite_entry call_id now t =
     (case mget (ct_invite t) call_id of
        None \<Rightarrow> None
      | Some e \<Rightarrow> Some \<lparr>ri_delay_ms = elapsed_ms now (iv_timestamp e), ri_carrier = iv_carrier e,
          ri_ua_type = iv_ua_type e, ri_source_country = iv_source_country e,
          ri_direction = iv_direction e\<rparr>)"

definition mark_ttr_measured :: "string \<Rightarrow> call_trackers \<Rightarrow> call_trackers" where
  "mark_ttr_measured call_id t =
     (case mget (ct_invite t) call_id of
        None \<Rightarrow> t
      | Some e \<Rightarrow> t\<lparr>ct_invite := mput call_id (e\<lparr>iv_ttr_measured := True\<rparr>) (ct_invite t)\<rparr>)"

definition is_ttr_measured :: "string \<Rightarrow> call_trackers \<Rightarrow> bool" where
  "is_ttr_measured call_id t =
     (case mget (ct_invite t) call_id of None \<Rightarrow> False | Some e \<Rightarrow> iv_ttr_measured e)"

definition mark_pdd_measured :: "string \<Rightarrow> call_trackers \<Rightarrow> call_trackers" where
  "mark_pdd_measured call_id t =
     (case mget (ct_invite t) call_id of
        None \<Rightarrow> t
      | Some e \<Rightarrow> t\<lparr>ct_invite := mput call_id (e\<lparr>iv_pdd_measured := True\<rparr>) (ct_invite t)\<rparr>)"

definition is_pdd_measured :: "string \<Rightarrow> call_trackers \<Rightarrow> bool" where
  "is_pdd_measured call_id t =
     (case mget (ct_invite t) call_id of None \<Rightarrow> False | Some e \<Rightarrow> iv_pdd_measured e)"

definition remove_invite_time :: "string \<Rightarrow> call_trackers \<Rightarrow> call_trackers" where
  "remove_invite_time call_id t = t\<lparr>ct_invite := mdel call_id (ct_invite t)\<rparr>"

definition has_invite_tracker :: "string \<Rightarrow> call_trackers \<Rightarrow> bool" where
  "has_invite_tracker call_id t \<longleftrightarrow> mget (ct_invite t) call_id \<noteq> None"

definition get_invite_carrier :: "string \<Rightarrow> call_trackers \<Rightarrow> (string \<times> string \<times> string \<times> string) \<times> bool" where
  "get_invite_carrier call_id t =
     (case mget (ct_invite t) call_id of
        None \<Rightarrow> (([], default_ua_type, default_country, []), False)
      | Some e \<Rightarrow> ((iv_carrier e, iv_ua_type e, iv_source_country e, iv_direction e), True))"

definition cleanup_invite_tracker :: "time \<Rightarrow> call_trackers \<Rightarrow> call_trackers" where
  "cleanup_invite_tracker now t =
     t\<lparr>ct_invite := cleanup_expired iv_timestamp default_invite_ttl now (ct_invite t)\<rparr>"

section \<open>Cached offers\<close>

definition invite_from_tag :: "string list \<Rightarrow> string" where
  "invite_from_tag from_tags = (case from_tags of [] \<Rightarrow> [] | tag # _ \<Rightarrow> tag)"

definition invite_key :: "string \<Rightarrow> string \<Rightarrow> string list \<Rightarrow> invite_sdp_key" where
  "invite_key call_id cseq_id from_tags =
     \<lparr>ik_call_id = call_id, ik_cseq_id = cseq_id, ik_from_tag = invite_from_tag from_tags\<rparr>"

definition store_invite_sdp :: "string \<Rightarrow> string \<Rightarrow> string \<Rightarrow> string list \<Rightarrow> time \<Rightarrow> call_trackers \<Rightarrow> call_trackers" where
  "store_invite_sdp call_id cseq_id body from_tags now t =
     t\<lparr>ct_invite_sdp := mput (invite_key call_id cseq_id from_tags)
        \<lparr>sd_body = body, sd_timestamp = now\<rparr> (ct_invite_sdp t)\<rparr>"

definition take_invite_sdp :: "string \<Rightarrow> string \<Rightarrow> string list \<Rightarrow> call_trackers \<Rightarrow> string option \<times> call_trackers" where
  "take_invite_sdp call_id cseq_id from_tags t =
     (let key = invite_key call_id cseq_id from_tags in
      case mget (ct_invite_sdp t) key of
        None \<Rightarrow> (None, t)
      | Some e \<Rightarrow> (Some (sd_body e), t\<lparr>ct_invite_sdp := mdel key (ct_invite_sdp t)\<rparr>))"

definition delete_invite_sdp :: "string \<Rightarrow> string \<Rightarrow> string list \<Rightarrow> call_trackers \<Rightarrow> call_trackers" where
  "delete_invite_sdp call_id cseq_id from_tags t =
     t\<lparr>ct_invite_sdp := mdel (invite_key call_id cseq_id from_tags) (ct_invite_sdp t)\<rparr>"

definition cleanup_invite_sdp :: "time \<Rightarrow> call_trackers \<Rightarrow> call_trackers" where
  "cleanup_invite_sdp now t =
     t\<lparr>ct_invite_sdp := cleanup_expired sd_timestamp default_invite_ttl now (ct_invite_sdp t)\<rparr>"

section \<open>INVITE transactions\<close>

definition observe_invite_transaction :: "string \<Rightarrow> string \<Rightarrow> bool \<Rightarrow> string list \<Rightarrow> time \<Rightarrow> call_trackers \<Rightarrow> call_trackers" where
  "observe_invite_transaction call_id cseq_id reinvite from_tags now t =
     (let key = invite_key call_id cseq_id from_tags in
      case mget (ct_transactions t) key of
        Some tr \<Rightarrow>
          if it_final tr then t
          else t\<lparr>ct_transactions := mput key
            \<lparr>it_reinvite = reinvite, it_final = False, it_timestamp = now\<rparr> (ct_transactions t)\<rparr>
      | None \<Rightarrow> t\<lparr>ct_transactions := mput key
            \<lparr>it_reinvite = reinvite, it_final = False, it_timestamp = now\<rparr> (ct_transactions t)\<rparr>)"

definition zero_transaction :: invite_transaction where
  "zero_transaction = \<lparr>it_reinvite = False, it_final = False, it_timestamp = zero_time\<rparr>"

text \<open>
  \<open>classifyInviteResponse\<close>: whether the response counts as one to an INVITE, whether it answers a
  re-INVITE, whether a 200 is to be processed.  The dialog store is asked by \<open>active\<close>, which is true
  when the message's dialog id exists and is active.
\<close>

definition classify_invite_response :: "string \<Rightarrow> string \<Rightarrow> string \<Rightarrow> string \<Rightarrow> bool \<Rightarrow> time \<Rightarrow> call_trackers
    \<Rightarrow> (bool \<times> bool \<times> bool) \<times> call_trackers" where
  "classify_invite_response call_id cseq_id from_tag status active now t =
     (let key = \<lparr>ik_call_id = call_id, ik_cseq_id = cseq_id, ik_from_tag = from_tag\<rparr>;
          ok = (mget (ct_transactions t) key \<noteq> None);
          tr0 = mget_or zero_transaction (ct_transactions t) key
      in if mget (ct_closed_calls t) call_id \<noteq> None \<and> (\<not> ok \<or> it_final tr0) then ((False, False, False), t)
         else
           let tr = (if \<not> ok \<and> active then tr0\<lparr>it_reinvite := True\<rparr> else tr0)
           in if status \<noteq> [] \<and> hd status = CHR ''1''
              then ((\<not> ok \<or> \<not> it_reinvite tr, ok \<and> it_reinvite tr, False), t)
              else if ok \<and> it_final tr then ((False, it_reinvite tr, False), t)
              else
                ((\<not> it_reinvite tr, it_reinvite tr, status = ''200''),
                 t\<lparr>ct_transactions := mput key (tr\<lparr>it_final := True, it_timestamp := now\<rparr>) (ct_transactions t)\<rparr>))"

definition close_invite_transactions :: "string \<Rightarrow> time \<Rightarrow> call_trackers \<Rightarrow> call_trackers" where
  "close_invite_transactions call_id now t = t\<lparr>ct_closed_calls := mput call_id now (ct_closed_calls t)\<rparr>"

definition cleanup_invite_transactions :: "time \<Rightarrow> call_trackers \<Rightarrow> call_trackers" where
  "cleanup_invite_transactions now t =
     t\<lparr>ct_transactions := mdrop (\<lambda>k tr. default_invite_ttl < time_sub now (it_timestamp tr)) (ct_transactions t),
       ct_closed_calls := mdrop (\<lambda>k closed. default_invite_ttl < time_sub now closed) (ct_closed_calls t)\<rparr>"

section \<open>OPTIONS and BYE\<close>

definition request_entry_of :: "string \<Rightarrow> string \<Rightarrow> string \<Rightarrow> time \<Rightarrow> request_entry" where
  "request_entry_of carrier ua country now =
     \<lparr>rq_timestamp = now, rq_carrier = carrier, rq_ua_type = ua, rq_source_country = country\<rparr>"

definition store_options_time :: "string \<Rightarrow> string \<Rightarrow> string \<Rightarrow> string \<Rightarrow> time \<Rightarrow> call_trackers \<Rightarrow> call_trackers" where
  "store_options_time call_id carrier ua country now t =
     t\<lparr>ct_options := mput call_id (request_entry_of carrier ua country now) (ct_options t)\<rparr>"

text \<open>The delay and the labels of the request, once.\<close>

definition measure_options_time :: "string \<Rightarrow> time \<Rightarrow> call_trackers
    \<Rightarrow> (real \<times> string \<times> string \<times> string) option \<times> call_trackers" where
  "measure_options_time call_id now t =
     (case mget (ct_options t) call_id of
        None \<Rightarrow> (None, t)
      | Some e \<Rightarrow>
          (Some (elapsed_ms now (rq_timestamp e), rq_carrier e, rq_ua_type e, rq_source_country e),
           t\<lparr>ct_options := mdel call_id (ct_options t)\<rparr>))"

definition cleanup_options_tracker :: "time \<Rightarrow> call_trackers \<Rightarrow> call_trackers" where
  "cleanup_options_tracker now t =
     t\<lparr>ct_options := cleanup_expired rq_timestamp default_options_ttl now (ct_options t)\<rparr>"

definition store_bye_time :: "string \<Rightarrow> string \<Rightarrow> string \<Rightarrow> string \<Rightarrow> time \<Rightarrow> call_trackers \<Rightarrow> call_trackers" where
  "store_bye_time call_id carrier ua country now t =
     t\<lparr>ct_bye := mput call_id (request_entry_of carrier ua country now) (ct_bye t)\<rparr>"

definition measure_bye_time :: "string \<Rightarrow> time \<Rightarrow> call_trackers
    \<Rightarrow> (real \<times> string \<times> string \<times> string) option \<times> call_trackers" where
  "measure_bye_time call_id now t =
     (case mget (ct_bye t) call_id of
        None \<Rightarrow> (None, t)
      | Some e \<Rightarrow>
          (Some (elapsed_ms now (rq_timestamp e), rq_carrier e, rq_ua_type e, rq_source_country e),
           t\<lparr>ct_bye := mdel call_id (ct_bye t)\<rparr>))"

definition cleanup_bye_tracker :: "time \<Rightarrow> call_trackers \<Rightarrow> call_trackers" where
  "cleanup_bye_tracker now t =
     t\<lparr>ct_bye := cleanup_expired rq_timestamp default_bye_ttl now (ct_bye t)\<rparr>"

section \<open>The interface of timed entries\<close>

text \<open>
  What the generic clean-up promises for any kind of entry with a creation time: it never invents an
  entry, keeps those whose age is at most the lifetime and drops the older ones.
\<close>

locale timed_entries =
  fixes created :: "'v \<Rightarrow> time" and ttl :: duration
  assumes ttl_range: "0 \<le> ttl" "ttl < 2 ^ 63 - 1"
begin

abbreviation clean :: "time \<Rightarrow> ('k, 'v) gomap \<Rightarrow> ('k, 'v) gomap" where
  "clean \<equiv> cleanup_expired created ttl"

lemma clean_wf: "mwf m \<Longrightarrow> mwf (clean now m)"
  by (simp add: cleanup_expired_def)

lemma old_enough: "ttl < time_sub now (created v) \<longleftrightarrow> ttl < now - created v"
  using ttl_range by (auto simp: time_sub_def max_duration_def min_duration_def)

lemma mget_clean:
  "mwf m \<Longrightarrow> mget (clean now m) k =
     (case mget m k of None \<Rightarrow> None | Some v \<Rightarrow> if ttl < now - created v then None else Some v)"
  by (simp add: cleanup_expired_def mget_mdrop old_enough)

lemma clean_keeps:
  "mwf m \<Longrightarrow> mget m k = Some v \<Longrightarrow> now \<le> created v + ttl \<Longrightarrow> mget (clean now m) k = Some v"
  by (simp add: mget_clean)

lemma clean_drops:
  "mwf m \<Longrightarrow> mget m k = Some v \<Longrightarrow> created v + ttl < now \<Longrightarrow> mget (clean now m) k = None"
  by (simp add: mget_clean)

lemma clean_only: "mwf m \<Longrightarrow> mget (clean now m) k = Some v \<Longrightarrow> mget m k = Some v"
  by (auto simp: mget_clean split: option.splits if_splits)

end

lemmas ttl_defs = default_register_ttl_def default_invite_ttl_def default_options_ttl_def
  default_bye_ttl_def second_def

interpretation reg: timed_entries rg_timestamp default_register_ttl
  by unfold_locales (simp_all add: ttl_defs)
interpretation ivt: timed_entries iv_timestamp default_invite_ttl
  by unfold_locales (simp_all add: ttl_defs)
interpretation sdc: timed_entries sd_timestamp default_invite_ttl
  by unfold_locales (simp_all add: ttl_defs)
interpretation opt: timed_entries rq_timestamp default_options_ttl
  by unfold_locales (simp_all add: ttl_defs)
interpretation byt: timed_entries rq_timestamp default_bye_ttl
  by unfold_locales (simp_all add: ttl_defs)
interpretation trx: timed_entries it_timestamp default_invite_ttl
  by unfold_locales (simp_all add: ttl_defs)

section \<open>Delays of OPTIONS requests\<close>

datatype options_op =
    OptStore string string string string time
  | OptMeasure string time
  | OptSweep time

fun options_step :: "call_trackers \<Rightarrow> options_op \<Rightarrow> call_trackers" where
  "options_step t (OptStore c carrier ua country now) = store_options_time c carrier ua country now t"
| "options_step t (OptMeasure c now) = snd (measure_options_time c now t)"
| "options_step t (OptSweep now) = cleanup_options_tracker now t"

text \<open>Operations on other calls, and sweeps up to some time.\<close>

fun leaves_options :: "string \<Rightarrow> time \<Rightarrow> options_op \<Rightarrow> bool" where
  "leaves_options c limit (OptStore c' carrier ua country now) \<longleftrightarrow> c' \<noteq> c"
| "leaves_options c limit (OptMeasure c' now) \<longleftrightarrow> c' \<noteq> c"
| "leaves_options c limit (OptSweep now) \<longleftrightarrow> now \<le> limit"

lemma options_step_wf: "mwf (ct_options t) \<Longrightarrow> mwf (ct_options (options_step t a))"
  by (cases a) (simp_all add: store_options_time_def measure_options_time_def cleanup_options_tracker_def
      opt.clean_wf split: option.split)

lemma options_run_wf: "mwf (ct_options t) \<Longrightarrow> mwf (ct_options (foldl options_step t ops))"
  by (induction ops arbitrary: t) (simp_all add: options_step_wf)

lemma options_entry_kept:
  "mwf (ct_options t) \<Longrightarrow> mget (ct_options t) c = Some e \<Longrightarrow>
   list_all (leaves_options c (rq_timestamp e + default_options_ttl)) ops \<Longrightarrow>
   mget (ct_options (foldl options_step t ops)) c = Some e"
proof (induction ops arbitrary: t)
  case (Cons a ops)
  then have "mget (ct_options (options_step t a)) c = Some e"
    by (cases a) (auto simp: store_options_time_def measure_options_time_def cleanup_options_tracker_def
        opt.clean_keeps split: option.split)
  with Cons options_step_wf [of t a] show ?case by simp
qed simp

text \<open>
    an OPTIONS request is measured exactly once: a response within the lifetime of the entry finds the
  labels and the send time of the request, whatever happened to other calls and however often the
  tracker was swept, and a second response finds nothing.
\<close>

theorem options_measured_once:
  assumes "mwf (ct_options t0)" and "list_all (leaves_options c (sent + default_options_ttl)) ops"
  shows "let t = foldl options_step (store_options_time c carrier ua country sent t0) ops;
             (r, t') = measure_options_time c now t
         in r = Some (elapsed_ms now sent, carrier, ua, country) \<and> fst (measure_options_time c now' t') = None"
proof -
  let ?t = "store_options_time c carrier ua country sent t0"
  have "mget (ct_options (foldl options_step ?t ops)) c = Some (request_entry_of carrier ua country sent)"
    by (rule options_entry_kept) (use assms in \<open>simp_all add: store_options_time_def request_entry_of_def\<close>)
  then show ?thesis by (simp add: measure_options_time_def request_entry_of_def)
qed

theorem options_measured_once_witness:
  "let t = foldl options_step (store_options_time ''a'' ''c'' ''u'' ''US'' 0 new_call_trackers)
         [OptStore ''b'' ''c'' ''u'' ''US'' 5, OptSweep (60 * second)];
       (r, t') = measure_options_time ''a'' 2000000 t
   in r = Some (elapsed_ms 2000000 0, ''c'', ''u'', ''US'') \<and> fst (measure_options_time ''a'' 7 t') = None"
  by (rule options_measured_once) (simp_all add: new_call_trackers_def default_options_ttl_def)

section \<open>Transactions\<close>

datatype tx_op =
    TxInvite string string bool string time
  | TxResponse string string string string bool time
  | TxClose string time
  | TxSweep time

fun tx_time :: "tx_op \<Rightarrow> time" where
  "tx_time (TxInvite c s r f now) = now"
| "tx_time (TxResponse c s f st a now) = now"
| "tx_time (TxClose c now) = now"
| "tx_time (TxSweep now) = now"

fun tx_step :: "call_trackers \<Rightarrow> tx_op \<Rightarrow> call_trackers" where
  "tx_step t (TxInvite c s r f now) = observe_invite_transaction c s r [f] now t"
| "tx_step t (TxResponse c s f st a now) = snd (classify_invite_response c s f st a now t)"
| "tx_step t (TxClose c now) = close_invite_transactions c now t"
| "tx_step t (TxSweep now) = cleanup_invite_transactions now t"

text \<open>Whether an operation is a final response of the transaction that is counted or processed.\<close>

fun tx_counts :: "invite_sdp_key \<Rightarrow> call_trackers \<Rightarrow> tx_op \<Rightarrow> bool" where
  "tx_counts key t (TxResponse c s f st a now) \<longleftrightarrow>
     key = \<lparr>ik_call_id = c, ik_cseq_id = s, ik_from_tag = f\<rparr> \<and> \<not> (st \<noteq> [] \<and> hd st = CHR ''1'') \<and>
     (let (counted, reinvite, process) = fst (classify_invite_response c s f st a now t)
      in counted \<or> process)"
| "tx_counts key t _ \<longleftrightarrow> False"

fun tx_total :: "invite_sdp_key \<Rightarrow> call_trackers \<Rightarrow> tx_op list \<Rightarrow> nat" where
  "tx_total key t [] = 0"
| "tx_total key t (a # ops) = of_bool (tx_counts key t a) + tx_total key (tx_step t a) ops"

definition tx_final :: "invite_sdp_key \<Rightarrow> time \<Rightarrow> call_trackers \<Rightarrow> bool" where
  "tx_final key from t \<longleftrightarrow>
     (\<exists>tr. mget (ct_transactions t) key = Some tr \<and> it_final tr \<and> from \<le> it_timestamp tr)"

lemma tx_step_wf: "mwf (ct_transactions t) \<Longrightarrow> mwf (ct_transactions (tx_step t a))"
  by (cases a) (auto simp: observe_invite_transaction_def classify_invite_response_def Let_def
      close_invite_transactions_def cleanup_invite_transactions_def split: option.split)

lemma tx_sweep: "mwf (ct_transactions t) \<Longrightarrow> mget (ct_transactions (cleanup_invite_transactions now t)) key =
    (case mget (ct_transactions t) key of None \<Rightarrow> None
     | Some tr \<Rightarrow> if default_invite_ttl < now - it_timestamp tr then None else Some tr)"
  using trx.mget_clean [of "ct_transactions t" now key]
  by (simp add: cleanup_invite_transactions_def cleanup_expired_def)

lemma tx_final_stays:
  assumes "mwf (ct_transactions t)" and "tx_final key from t" and "from \<le> tx_time a"
    and "tx_time a \<le> from + default_invite_ttl"
  shows "tx_final key from (tx_step t a) \<and> \<not> tx_counts key t a"
proof -
  from assms(2) obtain tr where tr: "mget (ct_transactions t) key = Some tr" "it_final tr" "from \<le> it_timestamp tr"
    by (auto simp: tx_final_def)
  show ?thesis
  proof (cases a)
    case (TxInvite c s r f now)
    with tr show ?thesis
      by (auto simp: tx_final_def observe_invite_transaction_def Let_def split: option.split)
  next
    case (TxResponse c s f st act now)
    with tr show ?thesis
      by (auto simp: tx_final_def classify_invite_response_def Let_def mget_or_def split: option.split)
  next
    case (TxClose c now)
    with tr show ?thesis by (simp add: tx_final_def close_invite_transactions_def)
  next
    case (TxSweep now)
    with tr assms show ?thesis by (simp add: tx_final_def tx_sweep)
  qed
qed

lemma tx_counts_final:
  assumes "tx_counts key t a" and "from \<le> tx_time a"
  shows "tx_final key from (tx_step t a)"
  using assms
  by (cases a) (auto simp: tx_final_def classify_invite_response_def Let_def split: if_splits)

lemma tx_total_bound:
  assumes "list_all (\<lambda>a. from \<le> tx_time a \<and> tx_time a \<le> from + default_invite_ttl) ops"
    and "mwf (ct_transactions t)"
  shows "tx_total key t ops \<le> (if tx_final key from t then 0 else 1)"
  using assms
proof (induction ops arbitrary: t)
  case (Cons a ops)
  then have IH: "tx_total key (tx_step t a) ops \<le> (if tx_final key from (tx_step t a) then 0 else 1)"
    and a: "from \<le> tx_time a" "tx_time a \<le> from + default_invite_ttl"
    by (auto simp: tx_step_wf)
  show ?case
    using IH tx_final_stays [OF Cons.prems(2) _ a] tx_counts_final [OF _ a(1)]
    by (cases "tx_final key from t"; cases "tx_counts key t a") (auto split: if_splits)
qed simp



section \<open>Registrations\<close>

text \<open>
    a registration lives exactly until its expiry time: a later sweep removes it if and only if it runs
  after \<open>now\<close> plus the announced seconds, as an \<open>int64\<close> of nanoseconds.
\<close>

theorem registration_lifetime:
  assumes "mwf (ct_register_expiry t)"
  shows "let (changed, t') = store_registration aor carrier ua country direction sec now t
         in mget (ct_register_expiry (cleanup_expired_registrations later t')) aor \<noteq> None \<longleftrightarrow>
            later \<le> now + wrap64 (sec * second)"
  using assms
  by (auto simp: store_registration_def cleanup_expired_registrations_def mget_mdrop expires_at_def Let_def)

theorem registration_lifetime_witness:
  "let (changed, t') = store_registration ''a@h'' ''c'' ''u'' ''US'' ''inbound'' 3600 0 new_call_trackers
   in mget (ct_register_expiry (cleanup_expired_registrations 1 t')) ''a@h'' \<noteq> None \<longleftrightarrow>
      (1 :: int) \<le> 0 + wrap64 (3600 * second)"
  by (rule registration_lifetime) (simp add: new_call_trackers_def)

text \<open>
    the product overflows: a registration that announces 9223372037 seconds is gone at the sweep of the
  same instant, since its expiry time is about 292 years in the past.
\<close>

theorem long_registration_lost:
  "let (changed, t') = store_registration aor carrier ua country direction 9223372037 now new_call_trackers
   in mget (ct_register_expiry (cleanup_expired_registrations now t')) aor = None"
  by (simp add: store_registration_def cleanup_expired_registrations_def new_call_trackers_def mget_mdrop
      expires_at_def wrap64_def second_def mdrop_def)

end
