(* ===== verification/E164_Table.thy ===== *)
theory E164_Table
  imports Prelude
begin

text \<open>
  The generated table of \<open>internal/geoip/e164_generated.go\<close>: E.164 digit prefixes and the country each
  belongs to, in the order of the file and in three parts.
\<close>

definition e164_table_a :: "(string \<times> string) list" where
  "e164_table_a =
    [(''3906698'', ''VA''), (''4474576'', ''IM''), (''441624'', ''IM''), (''447524'', ''IM''),
     (''447624'', ''IM''), (''18001'', ''DO''), (''35810'', ''FI''), (''35813'', ''FI''),
     (''35814'', ''FI''), (''35815'', ''FI''), (''35816'', ''FI''), (''35817'', ''FI''),
     (''35818'', ''AX''), (''35819'', ''FI''), (''1204'', ''CA''), (''1226'', ''CA''),
     (''1236'', ''CA''), (''1242'', ''BS''), (''1246'', ''BB''), (''1249'', ''CA''),
     (''1250'', ''CA''), (''1263'', ''CA''), (''1264'', ''AI''), (''1268'', ''AG''),
     (''1284'', ''VG''), (''1289'', ''CA''), (''1306'', ''CA''), (''1340'', ''VI''),
     (''1343'', ''CA''), (''1345'', ''KY''), (''1354'', ''CA''), (''1365'', ''CA''),
     (''1367'', ''CA''), (''1368'', ''CA''), (''1403'', ''CA''), (''1416'', ''CA''),
     (''1418'', ''CA''), (''1428'', ''CA''), (''1431'', ''CA''), (''1437'', ''CA''),
     (''1438'', ''CA''), (''1441'', ''BM''), (''1450'', ''CA''), (''1468'', ''CA''),
     (''1473'', ''GD''), (''1474'', ''CA''), (''1506'', ''CA''), (''1514'', ''CA''),
     (''1519'', ''CA''), (''1548'', ''CA''), (''1579'', ''CA''), (''1581'', ''CA''),
     (''1584'', ''CA''), (''1587'', ''CA''), (''1604'', ''CA''), (''1613'', ''CA''),
     (''1639'', ''CA''), (''1647'', ''CA''), (''1649'', ''TC''), (''1658'', ''JM''),
     (''1664'', ''MS''), (''1670'', ''MP''), (''1671'', ''GU''), (''1672'', ''CA''),
     (''1683'', ''CA''), (''1684'', ''AS''), (''1705'', ''CA''), (''1709'', ''CA''),
     (''1721'', ''SX''), (''1742'', ''CA''), (''1753'', ''CA''), (''1758'', ''LC''),
     (''1767'', ''DM''), (''1778'', ''CA''), (''1780'', ''CA''), (''1782'', ''CA''),
     (''1784'', ''VC''), (''1787'', ''PR''), (''1807'', ''CA''), (''1809'', ''DO''),
     (''1819'', ''CA''), (''1825'', ''CA''), (''1829'', ''DO''), (''1849'', ''DO''),
     (''1867'', ''CA''), (''1868'', ''TT''), (''1869'', ''KN''), (''1873'', ''CA''),
     (''1876'', ''JM''), (''1902'', ''CA''), (''1905'', ''CA''), (''1939'', ''PR''),
     (''2125'', ''MA''), (''2126'', ''MA''), (''2127'', ''MA''), (''2128'', ''MA''),
     (''2902'', ''SH''), (''2905'', ''SH''), (''2906'', ''SH''), (''2908'', ''TA''),
     (''3582'', ''FI''), (''3583'', ''FI''), (''3584'', ''FI''), (''3585'', ''FI''),
     (''3586'', ''FI''), (''3587'', ''FI''), (''3588'', ''FI''), (''3589'', ''FI''),
     (''4770'', ''NO''), (''4771'', ''NO''), (''4772'', ''NO''), (''4773'', ''NO''),
     (''4774'', ''NO''), (''4775'', ''NO''), (''4776'', ''NO''), (''4777'', ''NO''),
     (''4778'', ''NO'')]"

definition e164_table_b :: "(string \<times> string) list" where
  "e164_table_b =
    [(''4779'', ''SJ''), (''5993'', ''BQ''), (''5994'', ''BQ''), (''5996'', ''CW''),
     (''5997'', ''BQ''), (''5999'', ''CW''), (''211'', ''SS''), (''212'', ''MA''), (''213'', ''DZ''),
     (''216'', ''TN''), (''218'', ''LY''), (''220'', ''GM''), (''221'', ''SN''), (''222'', ''MR''),
     (''223'', ''ML''), (''224'', ''GN''), (''225'', ''CI''), (''226'', ''BF''), (''227'', ''NE''),
     (''228'', ''TG''), (''229'', ''BJ''), (''230'', ''MU''), (''231'', ''LR''), (''232'', ''SL''),
     (''233'', ''GH''), (''234'', ''NG''), (''235'', ''TD''), (''236'', ''CF''), (''237'', ''CM''),
     (''238'', ''CV''), (''239'', ''ST''), (''240'', ''GQ''), (''241'', ''GA''), (''242'', ''CG''),
     (''243'', ''CD''), (''244'', ''AO''), (''245'', ''GW''), (''246'', ''IO''), (''247'', ''AC''),
     (''248'', ''SC''), (''249'', ''SD''), (''250'', ''RW''), (''251'', ''ET''), (''252'', ''SO''),
     (''253'', ''DJ''), (''254'', ''KE''), (''255'', ''TZ''), (''256'', ''UG''), (''257'', ''BI''),
     (''258'', ''MZ''), (''260'', ''ZM''), (''261'', ''MG''), (''262'', ''RE''), (''263'', ''ZW''),
     (''264'', ''NA''), (''265'', ''MW''), (''266'', ''LS''), (''267'', ''BW''), (''268'', ''SZ''),
     (''269'', ''KM''), (''290'', ''SH''), (''291'', ''ER''), (''297'', ''AW''), (''298'', ''FO''),
     (''299'', ''GL''), (''350'', ''GI''), (''351'', ''PT''), (''352'', ''LU''), (''353'', ''IE''),
     (''354'', ''IS''), (''355'', ''AL''), (''356'', ''MT''), (''357'', ''CY''), (''358'', ''FI''),
     (''359'', ''BG''), (''370'', ''LT''), (''371'', ''LV''), (''372'', ''EE''), (''373'', ''MD''),
     (''374'', ''AM''), (''375'', ''BY''), (''376'', ''AD''), (''377'', ''MC''), (''378'', ''SM''),
     (''380'', ''UA''), (''381'', ''RS''), (''382'', ''ME''), (''383'', ''XK''), (''385'', ''HR''),
     (''386'', ''SI''), (''387'', ''BA''), (''389'', ''MK''), (''420'', ''CZ''), (''421'', ''SK''),
     (''423'', ''LI''), (''470'', ''NO''), (''472'', ''NO''), (''473'', ''NO''), (''474'', ''NO''),
     (''475'', ''NO''), (''476'', ''NO''), (''478'', ''NO''), (''479'', ''NO''), (''500'', ''FK''),
     (''501'', ''BZ''), (''502'', ''GT''), (''503'', ''SV''), (''504'', ''HN''), (''505'', ''NI''),
     (''506'', ''CR''), (''507'', ''PA''), (''508'', ''PM''), (''509'', ''HT''), (''590'', ''GP''),
     (''591'', ''BO''), (''592'', ''GY''), (''593'', ''EC'')]"

definition e164_table_c :: "(string \<times> string) list" where
  "e164_table_c =
    [(''594'', ''GF''), (''595'', ''PY''), (''596'', ''MQ''), (''597'', ''SR''), (''598'', ''UY''),
     (''599'', ''CW''), (''670'', ''TL''), (''672'', ''NF''), (''673'', ''BN''), (''674'', ''NR''),
     (''675'', ''PG''), (''676'', ''TO''), (''677'', ''SB''), (''678'', ''VU''), (''679'', ''FJ''),
     (''680'', ''PW''), (''681'', ''WF''), (''682'', ''CK''), (''683'', ''NU''), (''685'', ''WS''),
     (''686'', ''KI''), (''687'', ''NC''), (''688'', ''TV''), (''689'', ''PF''), (''690'', ''TK''),
     (''691'', ''FM''), (''692'', ''MH''), (''800'', ''001''), (''808'', ''001''), (''850'', ''KP''),
     (''852'', ''HK''), (''853'', ''MO''), (''855'', ''KH''), (''856'', ''LA''), (''870'', ''001''),
     (''878'', ''001''), (''880'', ''BD''), (''881'', ''001''), (''882'', ''001''), (''883'', ''001''),
     (''886'', ''TW''), (''888'', ''001''), (''960'', ''MV''), (''961'', ''LB''), (''962'', ''JO''),
     (''963'', ''SY''), (''964'', ''IQ''), (''965'', ''KW''), (''966'', ''SA''), (''967'', ''YE''),
     (''968'', ''OM''), (''970'', ''PS''), (''971'', ''AE''), (''972'', ''IL''), (''973'', ''BH''),
     (''974'', ''QA''), (''975'', ''BT''), (''976'', ''MN''), (''977'', ''NP''), (''979'', ''001''),
     (''992'', ''TJ''), (''993'', ''TM''), (''994'', ''AZ''), (''995'', ''GE''), (''996'', ''KG''),
     (''998'', ''UZ''), (''20'', ''EG''), (''27'', ''ZA''), (''30'', ''GR''), (''31'', ''NL''),
     (''32'', ''BE''), (''33'', ''FR''), (''34'', ''ES''), (''36'', ''HU''), (''39'', ''IT''),
     (''40'', ''RO''), (''41'', ''CH''), (''43'', ''AT''), (''44'', ''GB''), (''45'', ''DK''),
     (''46'', ''SE''), (''47'', ''NO''), (''48'', ''PL''), (''49'', ''DE''), (''51'', ''PE''),
     (''52'', ''MX''), (''53'', ''CU''), (''54'', ''AR''), (''55'', ''BR''), (''56'', ''CL''),
     (''57'', ''CO''), (''58'', ''VE''), (''60'', ''MY''), (''61'', ''AU''), (''62'', ''ID''),
     (''63'', ''PH''), (''64'', ''NZ''), (''65'', ''SG''), (''66'', ''TH''), (''73'', ''RU''),
     (''74'', ''RU''), (''77'', ''KZ''), (''78'', ''RU''), (''79'', ''RU''), (''81'', ''JP''),
     (''82'', ''KR''), (''84'', ''VN''), (''86'', ''CN''), (''90'', ''TR''), (''91'', ''IN''),
     (''92'', ''PK''), (''93'', ''AF''), (''94'', ''LK''), (''95'', ''MM''), (''98'', ''IR''),
     (''1'', ''US''), (''7'', ''RU'')]"

definition e164_prefix_table :: "(string, string) gomap" where
  "e164_prefix_table = e164_table_a @ e164_table_b @ e164_table_c"

end
