(* ===== verification/Label_Sources.thy ===== *)
theory Label_Sources
  imports Go_Bytes E164_Table
begin

text \<open>
  Where the labels of the metrics come from: carriers by CIDR (\<open>internal/carriers\<close>), user agents by
  pattern (\<open>internal/ua\<close>), source countries by GeoIP and destination countries by number prefix
  (\<open>internal/geoip\<close>).  Compiled regular expressions and the MaxMind database are parameters; reading
  the YAML files is not modelled.
\<close>

section \<open>Carriers\<close>

text \<open>\<open>netip.ParseAddr\<close> without a zone: the four or sixteen bytes of the address.\<close>

definition parse_addr :: "string \<Rightarrow> u8 list option" where
  "parse_addr s =
     (case find (\<lambda>c. c = CHR ''.'' \<or> c = CHR '':'' \<or> c = CHR ''%'') s of
        None \<Rightarrow> None
      | Some c \<Rightarrow>
          if c = CHR ''.'' then map_option (\<lambda>(a, b, c, d). [a, b, c, d]) (parse_ipv4 s)
          else if c = CHR ''%'' \<or> CHR ''%'' \<in> set s then None
          else map_option (map of_nat) (parse_ipv6 s))"

definition cidr_mask :: "nat \<Rightarrow> nat \<Rightarrow> u8 list" where
  "cidr_mask n len = map (\<lambda>i. of_nat (256 - 2 ^ (8 - min 8 (n - 8 * i)))) [0..<len]"

definition mask_bytes :: "u8 list \<Rightarrow> u8 list \<Rightarrow> u8 list" where
  "mask_bytes ip m = map2 (AND) ip m"

record ip_net =
  net_ip :: "u8 list"
  net_mask :: "u8 list"

text \<open>\<open>net.ParseCIDR\<close>: the digits after the slash, at most the bit length of the address.\<close>

definition parse_cidr :: "string \<Rightarrow> ip_net option" where
  "parse_cidr s =
     (case index_byte CHR ''/'' s of
        None \<Rightarrow> None
      | Some i \<Rightarrow>
          (case parse_addr (take i s) of
             None \<Rightarrow> None
           | Some addr \<Rightarrow>
               let bits = drop (i + 1) s in
               if bits = [] \<or> \<not> list_all is_digit bits \<or> 8 * length addr < digits_val bits then None
               else
                 let m = cidr_mask (digits_val bits) (length addr)
                 in Some \<lparr>net_ip = mask_bytes addr m, net_mask = m\<rparr>))"

text \<open>
  \<open>IPNet.Contains\<close> for an IPv4 address: a network of IPv4-mapped IPv6 addresses is one of IPv4
  addresses, any other IPv6 network contains none.
\<close>

definition to4_bytes :: "u8 list \<Rightarrow> u8 list option" where
  "to4_bytes bs =
     (if length bs = 4 then Some bs
      else if length bs = 16 \<and> take 12 bs = replicate 10 0 @ [255, 255] then Some (drop 12 bs)
      else None)"

definition net_contains :: "ip_net \<Rightarrow> ipv4 \<Rightarrow> bool" where
  "net_contains net ip =
     (case to4_bytes (net_ip net) of
        None \<Rightarrow> False
      | Some nn \<Rightarrow>
          let m = (if length (net_mask net) = 16 then drop 12 (net_mask net) else net_mask net);
              (a, b, c, d) = ip
          in mask_bytes nn m = mask_bytes [a, b, c, d] m)"

record carrier =
  ca_name :: string
  ca_country :: string
  ca_cidrs :: "string list"

record cidr_entry =
  ce_cidr :: ip_net
  ce_carrier :: string
  ce_country :: string

datatype resolver_error = ErrCarrierName | ErrInvalidCIDR string string

fun add_cidrs :: "carrier \<Rightarrow> string list \<Rightarrow> cidr_entry list \<Rightarrow> resolver_error + cidr_entry list" where
  "add_cidrs c [] es = Inr es"
| "add_cidrs c (s # ss) es =
     (case parse_cidr s of
        None \<Rightarrow> Inl (ErrInvalidCIDR s (ca_name c))
      | Some net \<Rightarrow>
          add_cidrs c ss (es @ [\<lparr>ce_cidr = net, ce_carrier = ca_name c, ce_country = ca_country c\<rparr>]))"

fun add_carriers :: "carrier list \<Rightarrow> cidr_entry list \<Rightarrow> resolver_error + cidr_entry list" where
  "add_carriers [] es = Inr es"
| "add_carriers (c # cs) es =
     (if ca_name c = [] then Inl ErrCarrierName
      else case add_cidrs c (ca_cidrs c) es of Inl e \<Rightarrow> Inl e | Inr es' \<Rightarrow> add_carriers cs es')"

definition new_resolver :: "carrier list \<Rightarrow> resolver_error + cidr_entry list" where
  "new_resolver cs = add_carriers cs []"

definition carrier_lookup :: "cidr_entry list \<Rightarrow> ipv4 \<Rightarrow> string \<times> string" where
  "carrier_lookup es ip =
     (case find (\<lambda>e. net_contains (ce_cidr e) ip) es of
        None \<Rightarrow> (''other'', [])
      | Some e \<Rightarrow> (ce_carrier e, ce_country e))"

section \<open>User agents\<close>

record ua_pattern =
  up_regex :: string
  up_label :: string

datatype classifier_error = ErrUALabel | ErrInvalidRegex string string

text \<open>\<open>compile\<close> is \<open>regexp.Compile\<close>: the match test of a pattern, or its error.\<close>

fun add_patterns :: "(string \<Rightarrow> (string \<Rightarrow> bool) option) \<Rightarrow> ua_pattern list \<Rightarrow> ((string \<Rightarrow> bool) \<times> string) list
    \<Rightarrow> classifier_error + ((string \<Rightarrow> bool) \<times> string) list" where
  "add_patterns compile [] es = Inr es"
| "add_patterns compile (p # ps) es =
     (if up_label p = [] then Inl ErrUALabel
      else case compile (up_regex p) of
        None \<Rightarrow> Inl (ErrInvalidRegex (up_regex p) (up_label p))
      | Some re \<Rightarrow> add_patterns compile ps (es @ [(re, up_label p)]))"

definition new_classifier :: "(string \<Rightarrow> (string \<Rightarrow> bool) option) \<Rightarrow> ua_pattern list
    \<Rightarrow> classifier_error + ((string \<Rightarrow> bool) \<times> string) list" where
  "new_classifier compile ps = add_patterns compile ps []"

text \<open>\<open>None\<close> is the nil classifier.\<close>

definition ua_classify :: "((string \<Rightarrow> bool) \<times> string) list option \<Rightarrow> string \<Rightarrow> string" where
  "ua_classify c agent =
     (case c of
        None \<Rightarrow> ''other''
      | Some es \<Rightarrow>
          if agent = [] then ''other''
          else case find (\<lambda>(re, label). re agent) es of None \<Rightarrow> ''other'' | Some (re, label) \<Rightarrow> label)"

section \<open>Source country\<close>

definition unknown_country :: string where "unknown_country = ''unknown''"

text \<open>
  \<open>Reader.Lookup\<close>: \<open>db\<close> is the database, \<open>None\<close> when none is open; a database returns the ISO code it
  decoded, \<open>None\<close> on an error.
\<close>

definition geoip_lookup :: "(ipv4 \<Rightarrow> string option) option \<Rightarrow> ipv4 \<Rightarrow> string \<times> bool" where
  "geoip_lookup db ip =
     (case db of
        None \<Rightarrow> (unknown_country, False)
      | Some f \<Rightarrow>
          (case f ip of
             None \<Rightarrow> (unknown_country, False)
           | Some cty \<Rightarrow> if cty = [] then (unknown_country, False) else (cty, True)))"

section \<open>Destination country\<close>

definition unknown_destination :: string where "unknown_destination = ''unknown''"

definition extract_digits :: "string \<Rightarrow> string" where
  "extract_digits s = filter (\<lambda>c. is_digit c \<or> c = CHR ''+'') s"

definition strip_international_prefix :: "string \<Rightarrow> string option" where
  "strip_international_prefix digits =
     (case digits of
        [] \<Rightarrow> None
      | d # ds \<Rightarrow>
          if d = CHR ''+'' then Some ds
          else if d = CHR ''0'' \<and> ds \<noteq> [] \<and> hd ds = CHR ''0'' then Some (tl ds) else None)"

text \<open>The loop of \<open>matchPrefix\<close> over prefix lengths, from the longest down to one.\<close>

fun match_loop :: "string \<Rightarrow> nat \<Rightarrow> string" where
  "match_loop digits 0 = unknown_destination"
| "match_loop digits (Suc i) =
     (case mget e164_prefix_table (take (Suc i) digits) of
        Some cty \<Rightarrow> cty
      | None \<Rightarrow> match_loop digits i)"

definition match_prefix :: "string \<Rightarrow> string" where
  "match_prefix digits = match_loop digits (length digits)"

definition lookup_destination :: "string \<Rightarrow> string \<Rightarrow> string" where
  "lookup_destination number local_country =
     (if number = [] then unknown_destination
      else case strip_international_prefix (extract_digits number) of
        Some intl \<Rightarrow> match_prefix intl
      | None \<Rightarrow> if local_country \<noteq> [] then local_country else unknown_destination)"

section \<open>Properties\<close>

lemma match_loop_longest:
  assumes "mget e164_prefix_table (take n digits) = Some cty" and "0 < n" and "n \<le> m"
    and "\<And>k. n < k \<Longrightarrow> k \<le> m \<Longrightarrow> mget e164_prefix_table (take k digits) = None"
  shows "match_loop digits m = cty"
  using assms(3,4)
proof (induction m)
  case 0
  with assms(2) show ?case by simp
next
  case (Suc m)
  show ?case
  proof (cases "n = Suc m")
    case True
    with assms(1) show ?thesis by simp
  next
    case False
    with Suc.prems have "match_loop digits m = cty" by (intro Suc.IH) auto
    with Suc.prems False show ?thesis by simp
  qed
qed

lemma extract_digits_digits: "list_all is_digit ds \<Longrightarrow> extract_digits ds = ds"
  by (induction ds) (auto simp: extract_digits_def)



text \<open>The networks of a configuration in the order of the file, and the entry of each.\<close>

definition flat_cidrs :: "carrier list \<Rightarrow> (carrier \<times> string) list" where
  "flat_cidrs cs = concat (map (\<lambda>c. map (Pair c) (ca_cidrs c)) cs)"

definition entry_for :: "carrier \<times> string \<Rightarrow> cidr_entry \<Rightarrow> bool" where
  "entry_for = (\<lambda>(c, s) e.
     parse_cidr s = Some (ce_cidr e) \<and> ce_carrier e = ca_name c \<and> ce_country e = ca_country c)"

lemma add_cidrs_entries:
  "add_cidrs c ss es = Inr es' \<Longrightarrow> \<exists>new. es' = es @ new \<and> list_all2 entry_for (map (Pair c) ss) new"
proof (induction c ss es rule: add_cidrs.induct)
  case (2 c s ss es)
  then obtain net where net: "parse_cidr s = Some net" by (auto split: option.splits)
  let ?e = "\<lparr>ce_cidr = net, ce_carrier = ca_name c, ce_country = ca_country c\<rparr>"
  from 2 net obtain new where "es' = (es @ [?e]) @ new" "list_all2 entry_for (map (Pair c) ss) new" by auto
  with net show ?case by (intro exI [of _ "?e # new"]) (simp add: entry_for_def)
qed simp

lemma add_carriers_entries:
  "add_carriers cs es = Inr es' \<Longrightarrow> \<exists>new. es' = es @ new \<and> list_all2 entry_for (flat_cidrs cs) new"
proof (induction cs es rule: add_carriers.induct)
  case (2 c cs es)
  then obtain es1 where es1: "add_cidrs c (ca_cidrs c) es = Inr es1" "add_carriers cs es1 = Inr es'" "ca_name c \<noteq> []"
    by (auto split: sum.splits if_splits)
  from add_cidrs_entries [OF es1(1)] obtain new1 where
    "es1 = es @ new1" "list_all2 entry_for (map (Pair c) (ca_cidrs c)) new1" by blast
  moreover from 2 es1 obtain new2 where "es' = es1 @ new2" "list_all2 entry_for (flat_cidrs cs) new2" by auto
  ultimately show ?case
    by (intro exI [of _ "new1 @ new2"]) (simp add: flat_cidrs_def list_all2_appendI)
qed (simp add: flat_cidrs_def)

definition cidr_matches :: "ipv4 \<Rightarrow> carrier \<times> string \<Rightarrow> bool" where
  "cidr_matches ip = (\<lambda>(c, s). case parse_cidr s of None \<Rightarrow> False | Some net \<Rightarrow> net_contains net ip)"

lemma find_entry:
  "list_all2 entry_for xs es \<Longrightarrow>
   carrier_lookup es ip =
     (case find (cidr_matches ip) xs of None \<Rightarrow> (''other'', []) | Some (c, s) \<Rightarrow> (ca_name c, ca_country c))"
  by (induction xs es rule: list_all2_induct)
    (auto simp: carrier_lookup_def entry_for_def cidr_matches_def)

text \<open>
    a resolver built from a configuration gives every address the carrier of the first network, in the
  order of the file, that contains it: an address of two networks belongs to the one listed first.
\<close>

theorem carrier_of_first_network:
  assumes "new_resolver cs = Inr es"
  shows "carrier_lookup es ip =
    (case find (cidr_matches ip) (flat_cidrs cs) of
       None \<Rightarrow> (''other'', [])
     | Some (c, s) \<Rightarrow> (ca_name c, ca_country c))"
  using add_carriers_entries [OF assms [unfolded new_resolver_def]] find_entry by auto

definition sample_carriers :: "carrier list" where
  "sample_carriers = [\<lparr>ca_name = ''a'', ca_country = ''DE'', ca_cidrs = [''10.0.0.0/8'']\<rparr>,
     \<lparr>ca_name = ''b'', ca_country = [], ca_cidrs = []\<rparr>]"

definition sample_entries :: "cidr_entry list" where
  "sample_entries = [\<lparr>ce_cidr = \<lparr>net_ip = [10, 0, 0, 0], net_mask = [255, 0, 0, 0]\<rparr>,
     ce_carrier = ''a'', ce_country = ''DE''\<rparr>]"

theorem carrier_of_first_network_witness:
  "carrier_lookup sample_entries (10, 1, 2, 3) =
    (case find (cidr_matches (10, 1, 2, 3)) (flat_cidrs sample_carriers) of
       None \<Rightarrow> (''other'', [])
     | Some (c, s) \<Rightarrow> (ca_name c, ca_country c))"
proof (rule carrier_of_first_network)
  have "parse_addr ''10.0.0.0'' = Some [10, 0, 0, 0]"
    by (simp add: parse_addr_def parse_ipv4_def is_digit_def digit_val_def)
  moreover have "cidr_mask 8 (Suc (Suc (Suc (Suc 0)))) = [255, 0, 0, 0]" by (simp add: cidr_mask_def upt_rec)
  ultimately have "parse_cidr ''10.0.0.0/8'' = Some \<lparr>net_ip = [10, 0, 0, 0], net_mask = [255, 0, 0, 0]\<rparr>"
    by (simp add: parse_cidr_def is_digit_def digits_val_def digit_val_def mask_bytes_def Let_def)
  then show "new_resolver sample_carriers = Inr sample_entries"
    by (simp add: new_resolver_def sample_carriers_def sample_entries_def)
qed

end
