(* ===== verification/Vq_Report.thy ===== *)
theory Vq_Report
  imports Go_Bytes Metric_Events
begin

text \<open>
  Voice quality reports (\<open>internal/vq\<close>, RFC 6035): the metrics of the local session block of a
  \<open>vq-rtcpxr\<close> body.  \<open>strconv.ParseFloat\<close> is a parameter: the number a text denotes, or its error.
\<close>

section \<open>Tokens\<close>

fun last_index_byte :: "char \<Rightarrow> string \<Rightarrow> nat option" where
  "last_index_byte c [] = None"
| "last_index_byte c (x # xs) =
     (case last_index_byte c xs of
        Some i \<Rightarrow> Some (Suc i)
      | None \<Rightarrow> if x = c then Some 0 else None)"

definition strip_category_prefix :: "string \<Rightarrow> string" where
  "strip_category_prefix token =
     (case last_index_byte CHR '':'' token of
        None \<Rightarrow> token
      | Some i \<Rightarrow>
          (case index_byte CHR ''='' token of
             Some eq \<Rightarrow> if eq < i then token else drop (i + 1) token
           | None \<Rightarrow> drop (i + 1) token))"

definition known_metrics :: "string list" where
  "known_metrics = [''NLR'', ''JDR'', ''BLD'', ''GLD'', ''RTD'', ''ESD'', ''IAJ'', ''MAJ'', ''MOSLQ'',
     ''MOSCQ'', ''RLQ'', ''RCQ'', ''RERL'']"

definition is_known_metric :: "string \<Rightarrow> bool" where
  "is_known_metric key \<longleftrightarrow> key \<in> set known_metrics"

text \<open>
  A report holds the metrics that are present, by key; the struct's field of a key that is not present
  is never read.
\<close>

definition parse_token :: "(string \<Rightarrow> real option) \<Rightarrow> string \<Rightarrow> vq_values \<Rightarrow> vq_values" where
  "parse_token parse_float token r =
     (case go_split_n (strip_category_prefix token) ''='' 2 of
        [key, text] \<Rightarrow>
          if \<not> is_known_metric key then r
          else (case parse_float text of None \<Rightarrow> r | Some v \<Rightarrow> mput key v r)
      | _ \<Rightarrow> r)"

definition parse_kv_line :: "(string \<Rightarrow> real option) \<Rightarrow> string \<Rightarrow> vq_values \<Rightarrow> vq_values" where
  "parse_kv_line parse_float line r = foldl (\<lambda>r token. parse_token parse_float token r) r (go_fields line)"

section \<open>Reports\<close>

text \<open>One line of the body after the first: the state is whether a remote block is being skipped.\<close>

definition vq_line :: "(string \<Rightarrow> real option) \<Rightarrow> bool \<times> vq_values \<Rightarrow> string \<Rightarrow> bool \<times> vq_values" where
  "vq_line parse_float = (\<lambda>(in_remote, r) raw.
     let line = trim_space raw in
     if line = [] then (False, r)
     else if has_prefix ''RemoteMetrics'' line then (True, r)
     else if in_remote then (in_remote, r)
     else if go_contains line '':'' \<and> \<not> go_contains line ''='' then (in_remote, r)
     else if \<not> go_contains line ''='' then (in_remote, r)
     else (in_remote, parse_kv_line parse_float line r))"

definition vq_parse :: "(string \<Rightarrow> real option) \<Rightarrow> string \<Rightarrow> vq_values option" where
  "vq_parse parse_float body =
     (if body = [] then None
      else case go_split body [CHR 0x0A] of
        [] \<Rightarrow> None
      | first # lines \<Rightarrow>
          if \<not> has_prefix ''VQSessionReport'' (trim_space first) then None
          else Some (snd (foldl (vq_line parse_float) (False, []) lines)))"

definition handle_vq_report :: "(string \<Rightarrow> real option) \<Rightarrow> string \<Rightarrow> call_labels \<Rightarrow> metric_event list" where
  "handle_vq_report parse_float body l =
     (case vq_parse parse_float body of
        None \<Rightarrow> [MSystemError, MParseError ''vq'']
      | Some r \<Rightarrow> [MUpdateVQReport l r])"

section \<open>Properties\<close>

lemma parse_token_keys:
  "list_all is_known_metric (mkeys r) \<Longrightarrow> list_all is_known_metric (mkeys (parse_token parse_float token r))"
  unfolding parse_token_def by (auto simp: mput_keys split: list.split option.split)

lemma parse_kv_line_keys:
  "list_all is_known_metric (mkeys r) \<Longrightarrow> list_all is_known_metric (mkeys (parse_kv_line parse_float line r))"
proof -
  have "list_all is_known_metric (mkeys r) \<Longrightarrow>
      list_all is_known_metric (mkeys (foldl (\<lambda>r token. parse_token parse_float token r) r ts))" for ts
    by (induction ts arbitrary: r) (simp_all only: foldl.simps parse_token_keys)
  then show "list_all is_known_metric (mkeys r) \<Longrightarrow> ?thesis" by (simp add: parse_kv_line_def)
qed

lemma vq_line_keys:
  "list_all is_known_metric (mkeys (snd s)) \<Longrightarrow> list_all is_known_metric (mkeys (snd (vq_line parse_float s raw)))"
  by (cases s) (simp add: vq_line_def Let_def parse_kv_line_keys)

lemma vq_lines_keys:
  "list_all is_known_metric (mkeys (snd s)) \<Longrightarrow>
   list_all is_known_metric (mkeys (snd (foldl (vq_line parse_float) s lines)))"
  by (induction lines arbitrary: s) (simp_all add: vq_line_keys)

text \<open>
  a report never carries a metric outside the thirteen of the session block, so every observation it
  causes has its histogram.
\<close>

theorem vq_report_known:
  "case vq_parse parse_float body of None \<Rightarrow> True | Some r \<Rightarrow> list_all is_known_metric (mkeys r)"
  using vq_lines_keys [of "(False, [])" parse_float] by (simp add: vq_parse_def split: list.split)

lemma remote_skip:
  "list_all (\<lambda>raw. trim_space raw \<noteq> []) block \<Longrightarrow> foldl (vq_line parse_float) (True, r) block = (True, r)"
  by (induction block) (auto simp: vq_line_def Let_def)

text \<open>
    what the far end measured never reaches the metrics of this call: a remote block, up to the empty
  line that ends it, leaves the report as it was, whatever metrics its lines assign.
\<close>

theorem vq_remote_block_ignored:
  assumes "has_prefix ''RemoteMetrics'' (trim_space start)" and "trim_space start \<noteq> []"
    and "list_all (\<lambda>raw. trim_space raw \<noteq> []) block" and "trim_space stop = []"
  shows "foldl (vq_line parse_float) s (pre @ start # block @ stop # post) =
    foldl (vq_line parse_float) s (pre @ stop # post)"
proof -
  obtain b r where s: "foldl (vq_line parse_float) s pre = (b, r)" by force
  have "vq_line parse_float (b, r) start = (True, r)" using assms(1,2) by (simp add: vq_line_def)
  with remote_skip [OF assms(3)] assms(4) s show ?thesis by (simp add: vq_line_def)
qed

theorem vq_remote_block_ignored_witness:
  "foldl (vq_line (\<lambda>t. Some 1)) (False, []) ([''NLR=1''] @ ''RemoteMetrics:'' # [''JDR=2''] @ '''' # [''BLD=3'']) =
   foldl (vq_line (\<lambda>t. Some 1)) (False, []) ([''NLR=1''] @ '''' # [''BLD=3''])"
proof (rule vq_remote_block_ignored)
  have t: "trim_space ''RemoteMetrics:'' = ''RemoteMetrics:''" "trim_space ''JDR=2'' = ''JDR=2''"
    by (simp_all add: trim_space_visible visible_def)
  then show "has_prefix ''RemoteMetrics'' (trim_space ''RemoteMetrics:'')" "trim_space ''RemoteMetrics:'' \<noteq> ''''"
    "list_all (\<lambda>raw. trim_space raw \<noteq> []) [''JDR=2'']"
    by (simp_all add: has_prefix_def)
  show "trim_space '''' = ''''" by code_simp
qed

end
