(* ===== verification/App_Config.thy ===== *)
theory App_Config
  imports Go_Bytes
begin

text \<open>
  The settings that are parsed by hand (\<open>internal/config/config.go\<close>): the list of capture interfaces
  and the SIP ports of each.  Reading the environment is third-party code and not modelled.
\<close>

section \<open>Interfaces\<close>

fun collect_interfaces :: "string list \<Rightarrow> string list \<Rightarrow> string list" where
  "collect_interfaces [] out = out"
| "collect_interfaces (raw # raws) out =
     (let name = trim_space raw in
      if name = [] \<or> name \<in> set out then collect_interfaces raws out
      else collect_interfaces raws (out @ [name]))"

text \<open>The set \<open>seen\<close> of the code holds the names of \<open>out\<close>.  \<open>None\<close>: no name is left.\<close>

definition parsed_interfaces :: "string \<Rightarrow> string list option" where
  "parsed_interfaces s =
     (let out = collect_interfaces (go_split s '','') [] in if out = [] then None else Some out)"

section \<open>SIP ports\<close>

datatype port_error =
    ErrTooManyPorts nat | ErrInvalidPort string | ErrPortRange int | ErrDuplicatePort int

datatype config_error = ErrPortGroups nat int | ErrPortGroup nat port_error | ErrPorts port_error

fun collect_ports :: "string list \<Rightarrow> u16 list \<Rightarrow> port_error + u16 list" where
  "collect_ports [] ports = Inr ports"
| "collect_ports (raw # raws) ports =
     (let p = trim_space raw in
      case go_atoi p of
        None \<Rightarrow> Inl (ErrInvalidPort p)
      | Some port \<Rightarrow>
          if port < 1 \<or> 65535 < port then Inl (ErrPortRange port)
          else if word_of_int port \<in> set ports then Inl (ErrDuplicatePort port)
          else collect_ports raws (ports @ [word_of_int port]))"

definition parse_port_group :: "string \<Rightarrow> port_error + u16 list" where
  "parse_port_group s =
     (let parts = go_split s '',''
      in if 3 < length parts then Inl (ErrTooManyPorts (length parts)) else collect_ports parts [])"

fun collect_groups :: "string list \<Rightarrow> nat \<Rightarrow> u16 list list \<Rightarrow> config_error + u16 list list" where
  "collect_groups [] i out = Inr out"
| "collect_groups (g # gs) i out =
     (case parse_port_group g of
        Inl e \<Rightarrow> Inl (ErrPortGroup (i + 1) e)
      | Inr ports \<Rightarrow> collect_groups gs (i + 1) (out @ [ports]))"

definition parsed_sip_ports :: "string \<Rightarrow> nat \<Rightarrow> config_error + u16 list list" where
  "parsed_sip_ports s interface_count =
     (let groups = go_split s '';'' in
      if length groups = 1 then
        (case parse_port_group (groups ! 0) of
           Inl e \<Rightarrow> Inl (ErrPorts e)
         | Inr ports \<Rightarrow> Inr (replicate interface_count ports))
      else if length groups \<noteq> interface_count then Inl (ErrPortGroups (length groups) (int interface_count))
      else collect_groups groups 0 [])"

section \<open>What is accepted\<close>

lemma collect_interfaces_ok:
  "distinct out \<Longrightarrow> [] \<notin> set out \<Longrightarrow>
   distinct (collect_interfaces raws out) \<and> [] \<notin> set (collect_interfaces raws out) \<and>
   set (collect_interfaces raws out) = set out \<union> (trim_space ` set raws - {[]})"
  by (induction raws out rule: collect_interfaces.induct) (auto simp: Let_def)

text \<open>
  the interfaces are the non-empty names of the list, each once.
\<close>

theorem interfaces_exact:
  "case parsed_interfaces s of
     None \<Rightarrow> trim_space ` set (go_split s '','') = {[]}
   | Some out \<Rightarrow> distinct out \<and> set out = trim_space ` set (go_split s '','') - {[]}"
proof -
  let ?out = "collect_interfaces (go_split s '','') []" and ?names = "trim_space ` set (go_split s '','')"
  have out: "distinct ?out" "set ?out = ?names - {[]}"
    using collect_interfaces_ok [of "[]" "go_split s '',''"] by auto
  show ?thesis
  proof (cases "?out = []")
    case True
    then have "?names \<subseteq> {[]}" using out(2) by auto
    moreover have "?names \<noteq> {}" by simp
    ultimately have n: "?names = {[]}" by (simp only: subset_singleton_iff simp_thms)
    have "parsed_interfaces s = None" 
      unfolding parsed_interfaces_def Let_def by (simp only: True if_True simp_thms)
    then show ?thesis by (simp only: option.case n)
  qed (use out in \<open>simp add: parsed_interfaces_def\<close>)
qed

definition ports_ok :: "u16 list \<Rightarrow> bool" where
  "ports_ok ports \<longleftrightarrow> distinct ports \<and> 0 \<notin> set ports"

lemma port_word: "1 \<le> p \<Longrightarrow> p \<le> 65535 \<Longrightarrow> uint (word_of_int p :: u16) = p"
  by (simp add: uint_word_of_int take_bit_int_eq_self)

lemma collect_ports_ok:
  "collect_ports raws ports = Inr out \<Longrightarrow> ports_ok ports \<Longrightarrow> ports_ok out \<and> length out = length ports + length raws"
proof (induction raws ports rule: collect_ports.induct)
  case (2 raw raws ports)
  then obtain p where p: "go_atoi (trim_space raw) = Some p" "\<not> (p < 1 \<or> 65535 < p)"
    "word_of_int p \<notin> set ports" and rec: "collect_ports raws (ports @ [word_of_int p]) = Inr out"
    by (auto simp: Let_def split: option.splits if_splits)
  have "(word_of_int p :: u16) \<noteq> 0" using port_word [of p] p(2) by auto
  with p 2 rec have "ports_ok (ports @ [word_of_int p])" by (simp add: ports_ok_def)
  with 2 p rec show ?case by (auto simp: Let_def)
qed simp

lemma parse_port_group_ok:
  "parse_port_group g = Inr out \<Longrightarrow> ports_ok out \<and> 1 \<le> length out \<and> length out \<le> 3"
proof -
  assume a: "parse_port_group g = Inr out"
  have "1 \<le> length (go_split g '','')" by (simp add: Suc_le_eq)
  with a collect_ports_ok [of "go_split g '',''" "[]" out] show ?thesis
    by (auto simp: parse_port_group_def Let_def ports_ok_def split: if_splits)
qed

definition port_sets_ok :: "u16 list list \<Rightarrow> bool" where
  "port_sets_ok = list_all (\<lambda>ports. ports_ok ports \<and> 1 \<le> length ports \<and> length ports \<le> 3)"

lemma collect_groups_ok:
  "collect_groups gs i out = Inr res \<Longrightarrow> port_sets_ok out \<Longrightarrow>
   port_sets_ok res \<and> length res = length out + length gs"
proof (induction gs i out rule: collect_groups.induct)
  case (2 g gs i out)
  then obtain ports where "parse_port_group g = Inr ports" "collect_groups gs (i + 1) (out @ [ports]) = Inr res"
    by (auto split: sum.splits)
  with 2 parse_port_group_ok [of g ports] show ?case by (auto simp: port_sets_ok_def)
qed simp

text \<open>
  C39:     an accepted port setting has one set per interface, each of one to three different ports in
  \<open>1..65535\<close>, which is what the kernel filter's per-interface array can hold.
\<close>

theorem sip_ports_valid:
  "case parsed_sip_ports s interface_count of
     Inl e \<Rightarrow> True
   | Inr sets \<Rightarrow> length sets = interface_count \<and> port_sets_ok sets"
proof (cases "length (go_split s '';'') = 1")
  case True
  then show ?thesis
    using parse_port_group_ok
    by (auto simp: parsed_sip_ports_def Let_def port_sets_ok_def list_all_length split: sum.split)
next
  case False
  then show ?thesis
    using collect_groups_ok [of "go_split s '';''" 0 "[]"]
    by (auto simp: parsed_sip_ports_def Let_def port_sets_ok_def split: sum.split)
qed

lemma parsed_sip_ports_length: "parsed_sip_ports s n = Inr sets \<Longrightarrow> length sets = n"
  using collect_groups_ok [of "go_split s '';''" 0 "[]" sets]
  by (auto simp: parsed_sip_ports_def Let_def port_sets_ok_def split: if_splits sum.splits)

section \<open>Round trip\<close>

fun join_with :: "char \<Rightarrow> string list \<Rightarrow> string" where
  "join_with c [] = []"
| "join_with c [s] = s"
| "join_with c (s # ss) = s @ c # join_with c ss"

lemma index_sub_byte: "index_sub [c] s = index_byte c s"
  by (induction s) (auto simp: has_prefix_def)

lemma split_fuel_join:
  "list_all (\<lambda>s. c \<notin> set s) ss \<Longrightarrow> ss \<noteq> [] \<Longrightarrow> length ss \<le> Suc n \<Longrightarrow> split_fuel n [c] (join_with c ss) = ss"
proof (induction c ss arbitrary: n rule: join_with.induct)
  case (2 c s)
  then show ?case by (cases n) (auto simp: index_sub_byte index_byte_None split: option.split)
next
  case (3 c s s' ss)
  then obtain m where n: "n = Suc m" by (cases n) auto
  have "index_byte c (s @ c # join_with c (s' # ss)) = Some (length s)"
    using 3 by (intro index_byte_app) simp
  with 3 n show ?case by (simp add: index_sub_byte)
qed simp

lemma length_join: "length ss \<le> Suc (length (join_with c ss))"
  by (induction c ss rule: join_with.induct) auto

lemma go_split_join: "list_all (\<lambda>s. c \<notin> set s) ss \<Longrightarrow> ss \<noteq> [] \<Longrightarrow> go_split (join_with c ss) [c] = ss"
  unfolding go_split_def by (rule split_fuel_join) (use length_join [of ss c] in auto)

lemma trim_dec: "trim_space (dec n) = dec n"
proof (rule trim_space_visible)
  have v: "is_digit c \<Longrightarrow> visible c" for c by (auto simp: is_digit_def visible_def)
  show "visible (hd (dec n))" "visible (last (dec n))"
    using dec_digits [of n] dec_nonempty [of n] v unfolding list_all_iff by (metis hd_in_set, metis last_in_set)
qed simp

lemma comma_dec: "CHR '','' \<notin> set (dec n)"
  using dec_digits [of n] by (auto simp: list_all_iff is_digit_def)

lemma collect_ports_dec:
  "ports_ok (ports @ more) \<Longrightarrow> collect_ports (map (\<lambda>p. dec (unat p)) more) ports = Inr (ports @ more)"
proof (induction more arbitrary: ports)
  case (Cons p more)
  have "unat p < 2 ^ 16" using unsigned_less [of p] by simp
  moreover have "0 < unat p" using Cons.prems by (auto simp: ports_ok_def unat_gt_0)
  moreover have "go_atoi (dec (unat p)) = Some (int (unat p))"
  proof (rule go_atoi_dec)
    have "int (unat p) < int (2 ^ 16)" using calculation(1) by (simp only: of_nat_less_iff)
    also have "int (2 ^ 16) < 2 ^ 63" by simp
    finally show "int (unat p) < 2 ^ 63" .
  qed
  moreover have "n < 2 ^ 16 \<Longrightarrow> 0 < n \<Longrightarrow> \<not> (int n < 1 \<or> 65535 < int n)" for n by auto
  then have "\<not> (int (unat p) < 1 \<or> 65535 < int (unat p))" using calculation(1,2) by blast
  moreover have "word_of_int (int (unat p)) = p" by simp
  moreover have "p \<notin> set ports" using Cons.prems by (auto simp: ports_ok_def)
  ultimately show ?case using Cons.IH [of "ports @ [p]"] Cons.prems by (simp add: trim_dec Let_def)
qed simp

text \<open>
    writing a valid set of ports in decimal, separated by commas, and parsing it gives the ports back
  in their order.
\<close>

theorem port_group_roundtrip:
  assumes "ports_ok ports" and "ports \<noteq> []" and "length ports \<le> 3"
  shows "parse_port_group (join_with CHR '','' (map (\<lambda>p. dec (unat p)) ports)) = Inr ports"
proof -
  have "go_split (join_with CHR '','' (map (\<lambda>p. dec (unat p)) ports)) '','' = map (\<lambda>p. dec (unat p)) ports"
    using assms(2) comma_dec by (intro go_split_join) (simp_all add: list_all_iff)
  with collect_ports_dec [of "[]" ports] assms show ?thesis by (simp add: parse_port_group_def)
qed

theorem port_group_roundtrip_witness:
  "parse_port_group (join_with CHR '','' (map (\<lambda>p. dec (unat p)) [5060 :: u16, 5062, 65535])) =
     Inr [5060, 5062, 65535]"
  by (rule port_group_roundtrip) (simp_all add: ports_ok_def)

end
