(* ===== verification/Sip_Exporter.thy ===== *)
theory Sip_Exporter
  imports Sip_Message Sdp_Parser Call_Trackers Endpoint_Filter Label_Sources Vq_Report Fraud_Detect
    Tracker_Invariant
begin

text \<open>
  The SIP side of the exporter (\<open>internal/exporter/exporter.go\<close>): what a request or a response changes in
  the dialog store, the trackers, the media tracker, the fraud detectors and the kernel filter, and which
  metrics it records.  A handler takes the configuration, the packet's context (with the clock reading) and
  the state; the metrics recorded are appended to the state's trace.
\<close>

section \<open>State\<close>

record rtp_alias_key =
  ra_endpoint :: rtp_endpoint_key
  ra_call_id :: string

record 'm exporter_config =
  xc_carriers :: "cidr_entry list option"
  xc_ua :: "((string \<Rightarrow> bool) \<times> string) list option"
  xc_geoip :: "(ipv4 \<Rightarrow> string option) option option"
  xc_local_country :: string
  xc_host_labels :: bool
  xc_parse_float :: "string \<Rightarrow> real option"
  xc_bpf :: "'m bpf_map"

record 'm exporter =
  ex_dialogs :: dialogs
  ex_calls :: call_trackers
  ex_media :: tracker
  ex_scan :: "scan_tracker option"
  ex_burst :: "burst_tracker option"
  ex_fas :: "fas_tracker option"
  ex_filter :: "'m filter_state"
  ex_alias_labels :: "(rtp_alias_key, string \<times> string) gomap"
  ex_rtp_handles :: "(call_labels \<times> string) list"
  ex_events :: "metric_event list"

text \<open>The packet at hand: \<open>pktSrcIP\<close>, \<open>pktIface\<close>, \<open>pktType\<close>, \<open>pktTimestamp\<close>, and \<open>time.Now()\<close>.\<close>

record packet_context =
  px_src_ip :: string
  px_iface :: string
  px_type :: nat
  px_timestamp :: time
  px_now :: time

definition default_session_expires_sec :: int where "default_session_expires_sec = 1800"
definition default_register_expires_sec :: int where "default_register_expires_sec = 3600"
definition default_carrier :: string where "default_carrier = ''other''"
definition rtp_stream_ttl :: duration where "rtp_stream_ttl = 30 * second"
definition max_udp_port :: u16 where "max_udp_port = 65535"

definition new_exporter :: "'m list \<Rightarrow> int \<Rightarrow> duration \<Rightarrow> int \<Rightarrow> duration \<Rightarrow> duration \<Rightarrow> 'm exporter" where
  "new_exporter maps scan_limit scan_window burst_limit burst_window fas_limit =
     \<lparr>ex_dialogs = new_dialoger, ex_calls = new_call_trackers, ex_media = new_tracker rtp_stream_ttl,
      ex_scan = new_register_scan_tracker scan_limit scan_window,
      ex_burst = new_invite_burst_tracker burst_limit burst_window,
      ex_fas = new_fas_tracker fas_limit, ex_filter = new_filter maps, ex_alias_labels = [],
      ex_rtp_handles = [], ex_events = []\<rparr>"

definition emit :: "metric_event list \<Rightarrow> 'm exporter \<Rightarrow> 'm exporter" where
  "emit evs e = e\<lparr>ex_events := ex_events e @ evs\<rparr>"

definition on_calls :: "(call_trackers \<Rightarrow> call_trackers) \<Rightarrow> 'm exporter \<Rightarrow> 'm exporter" where
  "on_calls f e = e\<lparr>ex_calls := f (ex_calls e)\<rparr>"

definition on_fas :: "(fas_tracker \<Rightarrow> fas_tracker) \<Rightarrow> 'm exporter \<Rightarrow> 'm exporter" where
  "on_fas f e = e\<lparr>ex_fas := map_option f (ex_fas e)\<rparr>"

definition on_filter :: "('m filter_state \<Rightarrow> 'm filter_state) \<Rightarrow> 'm exporter \<Rightarrow> 'm exporter" where
  "on_filter f e = e\<lparr>ex_filter := f (ex_filter e)\<rparr>"

section \<open>Labels\<close>

definition labels_of :: "string \<Rightarrow> string \<Rightarrow> string \<Rightarrow> string \<Rightarrow> call_labels" where
  "labels_of carrier ua country direction =
     \<lparr>cl_carrier = carrier, cl_ua_type = ua, cl_source_country = country, cl_direction = direction\<rparr>"

definition resolve_carrier :: "'m exporter_config \<Rightarrow> ipv4 \<Rightarrow> ipv4 \<Rightarrow> string \<times> string" where
  "resolve_carrier cfg src dst =
     (case xc_carriers cfg of
        None \<Rightarrow> (default_carrier, [])
      | Some es \<Rightarrow>
          let (carrier, country) = carrier_lookup es src
          in if carrier = default_carrier then carrier_lookup es dst else (carrier, country))"

definition resolve_source_country :: "'m exporter_config \<Rightarrow> string \<Rightarrow> ipv4 \<Rightarrow> string" where
  "resolve_source_country cfg carrier_country src =
     (if carrier_country \<noteq> [] then carrier_country
      else case xc_geoip cfg of
        None \<Rightarrow> default_country
      | Some db \<Rightarrow>
          let (country, _) = geoip_lookup db src in if country = [] then default_country else country)"

definition resolve_destination_country :: "'m exporter_config \<Rightarrow> string \<Rightarrow> string" where
  "resolve_destination_country cfg to_user = lookup_destination to_user (xc_local_country cfg)"

definition resolve_ua :: "'m exporter_config \<Rightarrow> string \<Rightarrow> string" where
  "resolve_ua cfg agent = ua_classify (xc_ua cfg) agent"

text \<open>\<open>PACKET_HOST\<close> is 0: a packet to this host.\<close>

definition direction_from_pkttype :: "nat \<Rightarrow> bool \<Rightarrow> string" where
  "direction_from_pkttype pkttype is_response =
     (let incoming = (pkttype = 0); incoming' = (if is_response then \<not> incoming else incoming)
      in if incoming' then ''inbound'' else ''outbound'')"

definition invite_labels_of :: "'m exporter_config \<Rightarrow> packet_context \<Rightarrow> sip_packet \<Rightarrow> invite_labels" where
  "invite_labels_of cfg px p =
     \<lparr>il_destination_country = resolve_destination_country cfg (sp_user (pk_to p)),
      il_caller_host = (if xc_host_labels cfg then sp_addr (pk_from p) else []),
      il_called_host = (if xc_host_labels cfg then sp_addr (pk_to p) else []),
      il_iface = px_iface px\<rparr>"

text \<open>The same labels for another method than INVITE: no country, no hosts.\<close>

definition other_labels_of :: "packet_context \<Rightarrow> invite_labels" where
  "other_labels_of px =
     \<lparr>il_destination_country = [], il_caller_host = [], il_called_host = [], il_iface = px_iface px\<rparr>"

definition dialog_active :: "sip_packet \<Rightarrow> 'm exporter \<Rightarrow> bool" where
  "dialog_active p e =
     (case normalize_dialog_id (pk_call_id p) (sp_tag (pk_from p)) (sp_tag (pk_to p)) of
        None \<Rightarrow> False
      | Some did \<Rightarrow> dialog_has did (ex_dialogs e))"

section \<open>Media endpoints\<close>

definition emit_alias_released :: "(string \<times> string) list \<Rightarrow> 'm exporter \<Rightarrow> 'm exporter" where
  "emit_alias_released aliases e = emit (map (\<lambda>(carrier, direction). MRTPAliasReleased carrier direction) aliases) e"

definition zero_rtp_key :: rtp_endpoint_key where "zero_rtp_key = \<lparr>rk_ip = 0, rk_port = 0\<rparr>"

definition alias_key :: "string \<Rightarrow> media_endpoint \<Rightarrow> rtp_alias_key" where
  "alias_key call_id ep =
     \<lparr>ra_endpoint = (case ip_port_to_key (me_ip ep) (me_port ep) of None \<Rightarrow> zero_rtp_key | Some k \<Rightarrow> k),
      ra_call_id = call_id\<rparr>"

fun release_rtp_aliases :: "string \<Rightarrow> media_endpoint list \<Rightarrow> 'm exporter \<Rightarrow> (string \<times> string) list \<times> 'm exporter" where
  "release_rtp_aliases call_id [] e = ([], e)"
| "release_rtp_aliases call_id (ep # eps) e =
     (let key = alias_key call_id ep in
      case mget (ex_alias_labels e) key of
        None \<Rightarrow> release_rtp_aliases call_id eps e
      | Some labels \<Rightarrow>
          let (aliases, e') = release_rtp_aliases call_id eps (e\<lparr>ex_alias_labels := mdel key (ex_alias_labels e)\<rparr>)
          in (labels # aliases, e'))"

definition retain_all :: "'m exporter_config \<Rightarrow> media_endpoint list \<Rightarrow> 'm exporter \<Rightarrow> 'm exporter" where
  "retain_all cfg eps = on_filter (\<lambda>f. foldl (\<lambda>f ep. retain_endpoint (xc_bpf cfg) (me_ip ep) (me_port ep) f) f eps)"

definition release_all :: "'m exporter_config \<Rightarrow> media_endpoint list \<Rightarrow> 'm exporter \<Rightarrow> 'm exporter" where
  "release_all cfg eps = on_filter (\<lambda>f. foldl (\<lambda>f ep. release_endpoint (xc_bpf cfg) (me_ip ep) (me_port ep) f) f eps)"

definition unregister_media :: "'m exporter_config \<Rightarrow> string \<Rightarrow> bool \<Rightarrow> 'm exporter
    \<Rightarrow> (rtp_dialog_result \<times> (string \<times> string) list) \<times> 'm exporter" where
  "unregister_media cfg call_id emit_aliases e =
     (let ((result, deleted), media) = tracker_unregister call_id (ex_media e);
          e1 = release_all cfg deleted (e\<lparr>ex_media := media\<rparr>);
          (aliases, e2) = release_rtp_aliases call_id deleted e1
      in ((result, aliases), if emit_aliases then emit_alias_released aliases e2 else e2))"

definition replace_media_revision :: "'m exporter_config \<Rightarrow> string \<Rightarrow> ('m exporter \<Rightarrow> 'm exporter) \<Rightarrow> 'm exporter
    \<Rightarrow> 'm exporter" where
  "replace_media_revision cfg call_id register_next e =
     (let owned = owned_endpoints call_id (ex_media e);
          e1 = retain_all cfg owned e;
          (deleted, media) = tracker_replace call_id (ex_media e1);
          e2 = release_all cfg deleted (e1\<lparr>ex_media := media\<rparr>);
          (aliases, e3) = release_rtp_aliases call_id deleted e2;
          e4 = emit_alias_released aliases e3;
          e5 = register_next e4
      in release_all cfg owned e5)"

definition resolve_rtcp_endpoint :: "sdp_media \<Rightarrow> (string \<times> u16) option" where
  "resolve_rtcp_endpoint m =
     (if sm_rtcp_port m \<noteq> 0
      then Some (if sm_rtcp_addr m \<noteq> [] then sm_rtcp_addr m else sm_ip m, sm_rtcp_port m)
      else if sm_rtcp_mux m then None
      else if sm_port m < max_udp_port then Some (sm_ip m, sm_port m + 1) else None)"

definition register_one_media :: "'m exporter_config \<Rightarrow> media_labels \<Rightarrow> sdp_media \<Rightarrow> 'm exporter \<Rightarrow> 'm exporter" where
  "register_one_media cfg labels m e =
     (let ml = labels\<lparr>ml_sdp_codecs := sm_codecs m, ml_clock_rates := sm_clock_rates m\<rparr>;
          (result, media) = tracker_register (sm_ip m) (sm_port m) ml (ex_media e);
          e1 = e\<lparr>ex_media := media\<rparr>;
          e2 = (if rr_added result then on_filter (retain_endpoint (xc_bpf cfg) (sm_ip m) (sm_port m)) e1 else e1);
          e3 = (case rr_displaced_alias result of
             None \<Rightarrow> e2
           | Some (ep, owner) \<Rightarrow>
               let (aliases, e') = release_rtp_aliases owner [ep] e2
               in on_filter (release_endpoint (xc_bpf cfg) (me_ip ep) (me_port ep)) (emit_alias_released aliases e'))
      in case resolve_rtcp_endpoint m of
           None \<Rightarrow> e3
         | Some (rtcp_ip, rtcp_port) \<Rightarrow>
             let (added, media') =
                   tracker_register_rtcp rtcp_ip rtcp_port (sm_ip m) (sm_port m) (ml_call_id labels) (ex_media e3);
                 e4 = e3\<lparr>ex_media := media'\<rparr>
             in if added then on_filter (retain_endpoint (xc_bpf cfg) rtcp_ip rtcp_port) e4 else e4)"

definition register_media_endpoints :: "'m exporter_config \<Rightarrow> string \<Rightarrow> media_labels \<Rightarrow> 'm exporter
    \<Rightarrow> (media_endpoint list \<times> bool) \<times> 'm exporter" where
  "register_media_endpoints cfg body labels e =
     (let ms = sdp_parse body
      in ((map (\<lambda>m. \<lparr>me_ip = sm_ip m, me_port = sm_port m\<rparr>) ms, list_ex sm_srtp ms),
          foldl (\<lambda>e m. register_one_media cfg labels m e) e ms))"

definition append_fas_offer_endpoints :: "fas_endpoint list \<Rightarrow> media_endpoint list \<Rightarrow> fas_endpoint list" where
  "append_fas_offer_endpoints dst eps =
     dst @ map (\<lambda>ep. case ip_port_to_key (me_ip ep) (me_port ep) of
         Some k \<Rightarrow> \<lparr>fep_fallback_ip = [], fep_ip = rk_ip k, fep_port = rk_port k\<rparr>
       | None \<Rightarrow> \<lparr>fep_fallback_ip = me_ip ep, fep_ip = 0, fep_port = me_port ep\<rparr>) eps"

definition rtp_dialog_events :: "rtp_dialog_result \<Rightarrow> call_labels \<Rightarrow> metric_event list" where
  "rtp_dialog_events r l =
     (if rd_media_expected r \<and> \<not> rd_rtp_observed r then [MMissingRTP l] else []) @
     (if rd_one_way r then [MOneWayCall l] else [])"

section \<open>Requests\<close>

definition record_burst :: "packet_context \<Rightarrow> sip_packet \<Rightarrow> string \<Rightarrow> string \<Rightarrow> string \<Rightarrow> 'm exporter \<Rightarrow> 'm exporter" where
  "record_burst px p carrier country direction e =
     (case ex_burst e of
        None \<Rightarrow> e
      | Some b \<Rightarrow>
          let (evs, b') = burst_record (pk_source_ip p) carrier country direction (px_now px) b
          in emit evs (e\<lparr>ex_burst := Some b'\<rparr>))"

definition handle_request :: "'m exporter_config \<Rightarrow> packet_context \<Rightarrow> string \<Rightarrow> string \<Rightarrow> string \<Rightarrow> string
    \<Rightarrow> sip_packet \<Rightarrow> 'm exporter \<Rightarrow> 'm exporter" where
  "handle_request cfg px carrier ua country direction p e =
     (let l = labels_of carrier ua country direction;
          now = px_now px;
          c = pk_call_id p;
          invite = (pk_method p = ''INVITE'');
          reinvite = (invite \<and> dialog_active p e);
          retransmission = (invite \<and> \<not> reinvite \<and> has_invite_tracker c (ex_calls e));
          il = (if invite then invite_labels_of cfg px p else other_labels_of px);
          e1 = emit (if reinvite then [MReinvite l]
                     else if retransmission then [MSIPRetransmission l ''INVITE'']
                     else [MRequest l il (pk_method p)]) e;
          e2 =
            (if pk_method p = ''REGISTER''
             then on_calls (store_register_time c carrier ua country (pk_source_ip p) now) e1
             else if invite then
               let e' = on_calls (observe_invite_transaction c (pk_cseq_id p) reinvite [sp_tag (pk_from p)] now) e1;
                   e'' = (if \<not> reinvite \<and> \<not> retransmission
                          then record_burst px p carrier country direction
                                 (on_calls (store_invite_time c carrier ua country direction now) e')
                          else e')
               in if is_sdp_content_type (pk_content_type p)
                  then on_calls (store_invite_sdp c (pk_cseq_id p) (pk_body p) [sp_tag (pk_from p)] now) e''
                  else e''
             else if pk_method p = ''CANCEL'' then on_calls (remove_invite_time c) e1
             else if pk_method p = ''OPTIONS'' then on_calls (store_options_time c carrier ua country now) e1
             else if pk_method p = ''BYE'' then on_calls (store_bye_time c carrier ua country now) e1
             else e1)
      in if is_vq_content_type (pk_content_type p)
         then emit (handle_vq_report (xc_parse_float cfg) (pk_body p) l) e2 else e2)"

section \<open>Responses\<close>

definition measure_pdd :: "call_labels \<Rightarrow> real \<Rightarrow> string \<Rightarrow> string \<Rightarrow> 'm exporter \<Rightarrow> 'm exporter" where
  "measure_pdd l delay_ms status call_id e =
     (if 3 \<le> length status \<and> status ! 1 = CHR ''8'' \<and> status ! 2 = CHR ''0''
      then on_calls (mark_pdd_measured call_id) (emit [MUpdatePDD l delay_ms] e) else e)"

definition handle_provisional_response :: "packet_context \<Rightarrow> sip_packet \<Rightarrow> 'm exporter \<Rightarrow> 'm exporter" where
  "handle_provisional_response px p e =
     (let c = pk_call_id p in
      case read_invite_entry c (px_now px) (ex_calls e) of
        None \<Rightarrow> e
      | Some r \<Rightarrow>
          let l = labels_of (ri_carrier r) (ri_ua_type r) (ri_source_country r) (ri_direction r);
              e1 = (if \<not> is_ttr_measured c (ex_calls e)
                    then on_calls (mark_ttr_measured c) (emit [MUpdateTTR l (ri_delay_ms r)] e) else e)
          in if \<not> is_pdd_measured c (ex_calls e1)
             then measure_pdd l (ri_delay_ms r) (pk_response_status p) c e1 else e1)"

text \<open>The labels of the INVITE, where it is known, replace those of the response.\<close>

definition handle_invite_response :: "packet_context \<Rightarrow> string \<Rightarrow> string \<Rightarrow> string \<Rightarrow> string \<Rightarrow> sip_packet
    \<Rightarrow> 'm exporter \<Rightarrow> (string \<times> string \<times> string \<times> string) \<times> 'm exporter" where
  "handle_invite_response px carrier ua country direction p e =
     (let (known, ok) = get_invite_carrier (pk_call_id p) (ex_calls e);
          labels = (if ok then known else (carrier, ua, country, direction));
          e1 = (if pk_response_status p \<noteq> [] then
                  (if hd (pk_response_status p) = CHR ''1'' then handle_provisional_response px p e
                   else on_calls (remove_invite_time (pk_call_id p)) e)
                else e)
      in (labels, e1))"

text \<open>
  The media part of \<open>handleInvite200OK\<close>: a re-INVITE with an offer first replaces the media of the call, then
  offer and answer are registered (once more, in that case).  It returns the endpoints of both bodies and
  whether the answer sets up SRTP.
\<close>

definition register_call_media :: "'m exporter_config \<Rightarrow> sip_packet \<Rightarrow> media_labels \<Rightarrow> bool \<Rightarrow> string option \<Rightarrow> 'm exporter
    \<Rightarrow> (media_endpoint list \<times> media_endpoint list \<times> bool) \<times> 'm exporter" where
  "register_call_media cfg p labels reinvite offer e =
     (let has_answer = is_sdp_content_type (pk_content_type p);
          offer_body = (case offer of None \<Rightarrow> [] | Some b \<Rightarrow> b);
          register = (\<lambda>body e. snd (register_media_endpoints cfg body labels e));
          e1 = (if reinvite \<and> offer \<noteq> None
                then replace_media_revision cfg (pk_call_id p)
                  (\<lambda>e. let e' = register offer_body e in if has_answer then register (pk_body p) e' else e') e
                else e);
          ((offer_eps, _), e2) =
            (if offer \<noteq> None then register_media_endpoints cfg offer_body labels e1 else (([], False), e1));
          ((answer_eps, answer_srtp), e3) =
            (if has_answer then register_media_endpoints cfg (pk_body p) labels e2 else (([], False), e2))
      in ((offer_eps, answer_eps, answer_srtp), e3))"

definition handle_invite_200ok :: "'m exporter_config \<Rightarrow> packet_context \<Rightarrow> string \<Rightarrow> string \<Rightarrow> string \<Rightarrow> string
    \<Rightarrow> sip_packet \<Rightarrow> bool \<Rightarrow> 'm exporter \<Rightarrow> 'm exporter" where
  "handle_invite_200ok cfg px carrier ua country direction p reinvite e =
     (case normalize_dialog_id (pk_call_id p) (sp_tag (pk_from p)) (sp_tag (pk_to p)) of
        None \<Rightarrow> e
      | Some did \<Rightarrow>
          let expires = (if pk_session_expires p = 0 then default_session_expires_sec else pk_session_expires p);
              until = expires_at (px_now px) expires;
              c = pk_call_id p;
              (known, dialogs) =
                (if reinvite then dialog_refresh did until (ex_dialogs e)
                 else (True, dialog_create
                   \<lparr>dp_dialog_id = did, dp_expires_at = until, dp_created_at = px_now px, dp_carrier = carrier,
                    dp_ua_type = ua, dp_source_country = country,
                    dp_destination_country = resolve_destination_country cfg (sp_user (pk_to p)),
                    dp_direction = direction, dp_call_id = c\<rparr> (ex_dialogs e)));
              e1 = e\<lparr>ex_dialogs := dialogs\<rparr>
          in if \<not> known then e1
             else
               let labels = \<lparr>ml_carrier = carrier, ml_ua_type = ua, ml_source_country = country,
                     ml_direction = direction, ml_call_id = c, ml_sdp_codecs = [], ml_clock_rates = []\<rparr>;
                   (offer, calls) = take_invite_sdp c (pk_cseq_id p) [sp_tag (pk_from p)] (ex_calls e1);
                   e2 = e1\<lparr>ex_calls := calls\<rparr>
               in if reinvite \<and> offer = None then e2
                  else
                    let ((offer_eps, answer_eps, answer_srtp), e3) = register_call_media cfg p labels reinvite offer e2;
                        offer_endpoints = append_fas_offer_endpoints [] offer_eps;
                        e4 = (if \<not> reinvite \<and> 0 < length offer_eps + length answer_eps
                              then on_fas (fas_store c
                                \<lparr>fe_created_at = zero_time, fe_deadline = zero_time, fe_bye_floor = zero_time,
                                 fe_carrier = carrier, fe_ua_type = ua, fe_source_country = country,
                                 fe_direction = direction\<rparr> offer_endpoints answer_srtp (px_now px)) e3
                              else e3)
                    in if reinvite then on_fas (fas_update_offer c offer_endpoints answer_srtp) e4 else e4)"

text \<open>The end of a call by BYE.\<close>

definition session_end_labels :: "cleanup_result \<Rightarrow> call_labels" where
  "session_end_labels r = labels_of (cr_carrier r) (cr_ua_type r) (cr_source_country r) (cr_direction r)"

definition finalize_fas :: "string \<Rightarrow> time \<Rightarrow> 'm exporter \<Rightarrow> 'm exporter" where
  "finalize_fas call_id now e =
     (case ex_fas e of
        None \<Rightarrow> e
      | Some f \<Rightarrow>
          let (reports, f') = fas_finalize_on_bye call_id now f
          in emit (map fas_report_event reports) (e\<lparr>ex_fas := Some f'\<rparr>))"

definition handle_bye_200ok :: "'m exporter_config \<Rightarrow> packet_context \<Rightarrow> sip_packet \<Rightarrow> 'm exporter \<Rightarrow> 'm exporter" where
  "handle_bye_200ok cfg px p e =
     (case normalize_dialog_id (pk_call_id p) (sp_tag (pk_from p)) (sp_tag (pk_to p)) of
        None \<Rightarrow> e
      | Some did \<Rightarrow>
          let c = pk_call_id p; now = px_now px;
              (result, dialogs) = dialog_delete did now (ex_dialogs e);
              e1 = on_calls (close_invite_transactions c now) (e\<lparr>ex_dialogs := dialogs\<rparr>);
              e2 = finalize_fas c now e1;
              (bye, calls) = measure_bye_time c now (ex_calls e2);
              e3 = e2\<lparr>ex_calls := calls\<rparr>;
              e4 = (case bye of
                 None \<Rightarrow> e3
               | Some (delay_ms, carrier, ua, country) \<Rightarrow>
                   emit [MUpdatePBD (labels_of carrier ua country (cr_direction result)) delay_ms] e3);
              ((rtp, _), e5) = unregister_media cfg c True e4;
              l = session_end_labels result;
              e6 = emit (rtp_dialog_events rtp l) e5
          in if 0 < cr_duration result
             then emit [MUpdateSPD l (cr_duration result), MUpdateShortCalls l (cr_duration result),
                 MSessionCompleted l,
                 MUpdateBillableSeconds (cr_carrier result) (cr_destination_country result)
                   (cr_direction result) (cr_duration result)] e6
             else e6)"

definition handle_register_200ok :: "packet_context \<Rightarrow> string \<Rightarrow> string \<Rightarrow> string \<Rightarrow> string \<Rightarrow> sip_packet
    \<Rightarrow> 'm exporter \<Rightarrow> 'm exporter" where
  "handle_register_200ok px carrier ua country direction p e =
     (let l = labels_of carrier ua country direction; now = px_now px;
          e1 = emit [MRegisterSuccess l] e;
          expires = (if pk_expires p \<le> 0 then default_register_expires_sec else pk_expires p);
          aor = sp_user (pk_from p) @ ''@'' @ sp_addr (pk_from p);
          (changed, calls) = store_registration aor carrier ua country direction expires now (ex_calls e1);
          e2 = e1\<lparr>ex_calls := calls\<rparr>;
          e3 = (if changed then emit [MRegisterCountryChange carrier country direction] e2 else e2);
          e4 = (case ex_scan e3 of
             None \<Rightarrow> e3
           | Some s \<Rightarrow>
               let (evs, s') = scan_record (pk_source_ip p) aor carrier country direction now s
               in emit evs (e3\<lparr>ex_scan := Some s'\<rparr>))
      in case get_register_time (pk_call_id p) (ex_calls e4) of
           None \<Rightarrow> e4
         | Some start \<Rightarrow>
             on_calls (remove_register_time (pk_call_id p)) (emit [MUpdateRRD l (elapsed_ms now start)] e4))"

definition handle_register_non200_response :: "packet_context \<Rightarrow> call_labels \<Rightarrow> sip_packet \<Rightarrow> 'm exporter \<Rightarrow> 'm exporter" where
  "handle_register_non200_response px l p e =
     (let status = pk_response_status p;
          e1 = (if status \<noteq> [] \<and> 51 \<le> code (hd status) then emit [MRegisterFailure l status] e else e)
      in if status \<noteq> [] \<and> hd status = CHR ''3'' then
           (case get_register_time (pk_call_id p) (ex_calls e1) of
              None \<Rightarrow> e1
            | Some start \<Rightarrow>
                on_calls (remove_register_time (pk_call_id p)) (emit [MUpdateLRD l (elapsed_ms (px_now px) start)] e1))
         else on_calls (remove_register_time (pk_call_id p)) e1)"

definition handle_200ok_response :: "'m exporter_config \<Rightarrow> packet_context \<Rightarrow> string \<Rightarrow> string \<Rightarrow> string \<Rightarrow> string
    \<Rightarrow> sip_packet \<Rightarrow> bool \<Rightarrow> bool \<Rightarrow> 'm exporter \<Rightarrow> 'm exporter" where
  "handle_200ok_response cfg px carrier ua country direction p register_response reinvite e =
     (let e1 = (if pk_cseq_method p = ''INVITE''
                then handle_invite_200ok cfg px carrier ua country direction p reinvite
                  (if \<not> reinvite
                   then emit [MInvite200OK (labels_of carrier ua country direction) (invite_labels_of cfg px p)] e else e)
                else e);
          e2 = (if pk_cseq_method p = ''BYE'' then handle_bye_200ok cfg px p e1 else e1)
      in if register_response then handle_register_200ok px carrier ua country direction p e2 else e2)"

definition handle_response :: "'m exporter_config \<Rightarrow> packet_context \<Rightarrow> string \<Rightarrow> string \<Rightarrow> string \<Rightarrow> string
    \<Rightarrow> sip_packet \<Rightarrow> 'm exporter \<Rightarrow> 'm exporter" where
  "handle_response cfg px carrier0 ua0 country0 direction0 p e =
     (let status = pk_response_status p; c = pk_call_id p;
          invite_cseq = (pk_cseq_method p = ''INVITE'');
          register_response = (pk_cseq_method p = ''REGISTER'');
          ok = (status = ''200'');
          ((invite_response, reinvite_response, process), labels, e1) =
            (if invite_cseq then
               let (cls, calls) = classify_invite_response c (pk_cseq_id p) (sp_tag (pk_from p)) status
                     (dialog_active p e) (px_now px) (ex_calls e);
                   (labels, e') = handle_invite_response px carrier0 ua0 country0 direction0 p (e\<lparr>ex_calls := calls\<rparr>)
               in (cls, labels,
                   if status \<noteq> [] \<and> 51 \<le> code (hd status)
                   then on_calls (delete_invite_sdp c (pk_cseq_id p) [sp_tag (pk_from p)]) e' else e')
             else ((False, False, True), (carrier0, ua0, country0, direction0), e));
          (carrier1, ua1, country1, direction) = labels;
          (known, registered) = get_register_carrier c (ex_calls e1);
          (carrier, ua, country, src_ip) =
            (if register_response \<and> registered then known else (carrier1, ua1, country1, pk_source_ip p));
          p' = p\<lparr>pk_source_ip := src_ip\<rparr>;
          (delay, calls) = (if pk_cseq_method p = ''OPTIONS'' then measure_options_time c (px_now px) (ex_calls e1)
                            else (None, ex_calls e1));
          e2 = e1\<lparr>ex_calls := calls\<rparr>;
          e3 = (case delay of
             None \<Rightarrow> e2
           | Some (ms, opt_carrier, opt_ua, opt_country) \<Rightarrow>
               emit [MUpdateORD (labels_of opt_carrier opt_ua opt_country direction) ms] e2);
          l = labels_of carrier ua country direction;
          e4 = emit [MResponseWithMetrics l status (invite_response \<and> \<not> reinvite_response) ok] e3
      in if ok \<and> (\<not> invite_cseq \<or> process)
         then handle_200ok_response cfg px carrier ua country direction p' register_response reinvite_response e4
         else if register_response then handle_register_non200_response px l p' e4
         else e4)"

section \<open>Messages\<close>

text \<open>\<open>None\<close> is a panic of the parser, which ends the process.\<close>

definition handle_message :: "'m exporter_config \<Rightarrow> packet_context \<Rightarrow> string \<Rightarrow> string \<Rightarrow> string \<Rightarrow> 'm exporter
    \<Rightarrow> (sip_error + 'm exporter) option" where
  "handle_message cfg px carrier country raw e =
     (case sip_packet_parse raw of
        None \<Rightarrow> None
      | Some (Inl err) \<Rightarrow> Some (Inl err)
      | Some (Inr p0) \<Rightarrow>
          let p = p0\<lparr>pk_source_ip := px_src_ip px\<rparr>;
              ua = resolve_ua cfg (pk_user_agent p);
              direction = direction_from_pkttype (px_type px) (pk_is_response p)
          in Some (Inr (if pk_is_response p then handle_response cfg px carrier ua country direction p e
                        else handle_request cfg px carrier ua country direction p e)))"

end
