(* ===== verification/Packet_Path.thy ===== *)
theory Packet_Path
  imports Sip_Exporter Rtcp_Packet
begin

text \<open>
  From a captured frame to a handler (\<open>internal/exporter/exporter.go\<close>, \<open>isSIPPacket\<close> to
  \<open>parseRawPacket\<close>, the RTP and RTCP handlers) and the periodic update (\<open>sipDialogMetricsUpdate\<close>).
  Frames are byte lists; an index or slice out of range is a panic, the value \<open>None\<close>.
\<close>

section \<open>Frames\<close>

definition eth_header_len :: nat where "eth_header_len = 14"
definition vlan_header_len :: nat where "vlan_header_len = 18"
definition ipv4_min_header_len :: nat where "ipv4_min_header_len = 20"
definition udp_header_len :: nat where "udp_header_len = 8"
definition min_raw_packet_len :: nat where "min_raw_packet_len = 42"
definition min_vlan_packet_len :: nat where "min_vlan_packet_len = 46"
definition min_sip_data_len :: nat where "min_sip_data_len = 50"

lemmas frame_lens = eth_header_len_def vlan_header_len_def ipv4_min_header_len_def udp_header_len_def
  min_raw_packet_len_def min_vlan_packet_len_def min_sip_data_len_def

datatype frame_error = ErrL2 | ErrL3 | ErrL4 | ErrSIP

definition ihl_ok :: "u8 \<Rightarrow> bool" where
  "ihl_ok ihl \<longleftrightarrow> 5 \<le> ihl \<and> ihl \<le> 15"

definition is_sip_packet :: "u8 list \<Rightarrow> u16 list \<Rightarrow> bool option" where
  "is_sip_packet packet ports =
     (if length packet < min_raw_packet_len then Some True
      else do {
        hi \<leftarrow> idx packet 12;
        lo \<leftarrow> (if hi = 0x81 then idx packet 13 else Some 0);
        let offset = (if hi = 0x81 \<and> lo = 0x00 then vlan_header_len else eth_header_len);
        b \<leftarrow> idx packet offset;
        let ihl = b AND 0x0F;
        if \<not> ihl_ok ihl then Some True
        else do {
          let udp_off = offset + unat ihl * 4;
          if length packet < udp_off + udp_header_len then Some True
          else do {
            src_port \<leftarrow> Option.bind (subslice packet udp_off (udp_off + 2)) be16;
            dst_port \<leftarrow> Option.bind (subslice packet (udp_off + 2) (udp_off + 4)) be16;
            Some (list_ex (\<lambda>p. src_port = p \<or> dst_port = p) ports) } } })"

definition parse_ethernet :: "u8 list \<Rightarrow> (frame_error + nat \<times> u8 list) option" where
  "parse_ethernet packet =
     (if length packet < min_raw_packet_len then Some (Inl ErrL2)
      else do {
        eth_type \<leftarrow> subslice packet 12 14;
        hi \<leftarrow> idx eth_type 0;
        lo \<leftarrow> (if hi = 0x81 then idx eth_type 1 else Some 0);
        if hi = 0x81 \<and> lo = 0x00 then
          (if length packet < min_vlan_packet_len then Some (Inl ErrL2)
           else map_option (\<lambda>t. Inr (vlan_header_len, t)) (subslice packet 16 18))
        else Some (Inr (eth_header_len, eth_type)) })"

definition parse_ipv4_header :: "u8 list \<Rightarrow> nat \<Rightarrow> (frame_error + u8 list \<times> nat) option" where
  "parse_ipv4_header packet ip_offset =
     (if length packet < ip_offset + ipv4_min_header_len then Some (Inl ErrL3)
      else do {
        ip_header \<leftarrow> subslice packet ip_offset (ip_offset + ipv4_min_header_len);
        b \<leftarrow> idx ip_header 0;
        let ihl = b AND 0x0F;
        if \<not> ihl_ok ihl then Some (Inl ErrL3)
        else Some (Inr (ip_header, unat ihl * 4)) })"

definition parse_udp_offset :: "u8 list \<Rightarrow> nat \<Rightarrow> nat \<Rightarrow> frame_error + nat" where
  "parse_udp_offset packet ip_offset ip_header_len =
     (let udp_offset = ip_offset + ip_header_len
      in if length packet < udp_offset + udp_header_len then Inl ErrL4 else Inr udp_offset)"

definition ip_at :: "u8 list \<Rightarrow> nat \<Rightarrow> ipv4 option" where
  "ip_at header i = do {
     a \<leftarrow> idx header i; b \<leftarrow> idx header (i + 1); c \<leftarrow> idx header (i + 2); d \<leftarrow> idx header (i + 3);
     Some (a, b, c, d) }"

text \<open>The datagram of a frame: addresses, ports and payload, or the layer that refuses it.\<close>

record datagram =
  dg_src_ip :: ipv4
  dg_dst_ip :: ipv4
  dg_src_port :: u16
  dg_dst_port :: u16
  dg_payload :: "u8 list"

definition parse_frame :: "u8 list \<Rightarrow> (frame_error + datagram) option" where
  "parse_frame packet = do {
     eth \<leftarrow> parse_ethernet packet;
     case eth of
       Inl err \<Rightarrow> Some (Inl err)
     | Inr (ip_offset, eth_type) \<Rightarrow> do {
         t0 \<leftarrow> idx eth_type 0;
         t1 \<leftarrow> (if t0 = 0x08 then idx eth_type 1 else Some 1);
         if t0 \<noteq> 0x08 \<or> t1 \<noteq> 0x00 then Some (Inl ErrL3)
         else do {
           ip \<leftarrow> parse_ipv4_header packet ip_offset;
           case ip of
             Inl err \<Rightarrow> Some (Inl err)
           | Inr (ip_header, ip_header_len) \<Rightarrow> do {
               proto \<leftarrow> idx ip_header 9;
               if proto \<noteq> 17 then Some (Inl ErrL4)
               else case parse_udp_offset packet ip_offset ip_header_len of
                 Inl err \<Rightarrow> Some (Inl err)
               | Inr udp_offset \<Rightarrow>
                   if length packet \<le> udp_offset + udp_header_len then Some (Inl ErrSIP)
                   else do {
                     payload \<leftarrow> subslice packet (udp_offset + udp_header_len) (length packet);
                     src_port \<leftarrow> Option.bind (subslice packet udp_offset (udp_offset + 2)) be16;
                     dst_port \<leftarrow> Option.bind (subslice packet (udp_offset + 2) (udp_offset + 4)) be16;
                     src \<leftarrow> ip_at ip_header 12;
                     dst \<leftarrow> ip_at ip_header 16;
                     Some (Inr \<lparr>dg_src_ip = src, dg_dst_ip = dst, dg_src_port = src_port,
                       dg_dst_port = dst_port, dg_payload = payload\<rparr>) } } } } }"

text \<open>What the first payload bytes make of a datagram.\<close>

definition is_rtp_version :: "u8 list \<Rightarrow> bool" where
  "is_rtp_version payload \<longleftrightarrow> (case payload of [] \<Rightarrow> False | b # _ \<Rightarrow> b AND 0xC0 = 0x80)"

definition is_rtcp_payload :: "u8 list \<Rightarrow> bool" where
  "is_rtcp_payload payload \<longleftrightarrow> 1 < length payload \<and> 200 \<le> payload ! 1 \<and> payload ! 1 \<le> 204"

section \<open>RTCP\<close>

text \<open>The middle 32 bits of the NTP timestamp; \<open>t\<close> counts nanoseconds since the Unix epoch.\<close>

definition now_ntp32 :: "time \<Rightarrow> u32" where
  "now_ntp32 t =
     (let secs = (word_of_int (t div second) :: u64) + 2208988800;
          frac = push_bit 32 (word_of_int (t mod second) :: u64) div word_of_int second;
          ntp64 = push_bit 32 secs OR frac
      in ucast (drop_bit 16 ntp64))"

definition rtcp_jitter_ms :: "u32 \<Rightarrow> u32 \<Rightarrow> real" where
  "rtcp_jitter_ms ticks clock_rate =
     (if clock_rate = 0 then 0 else real (unat ticks) / real (unat clock_rate) * 1000)"

definition stream_labels :: "media_labels \<Rightarrow> call_labels" where
  "stream_labels ml = labels_of (ml_carrier ml) (ml_ua_type ml) (ml_source_country ml) (ml_direction ml)"

text \<open>The round-trip time of a block in 1/65536 s; \<open>None\<close> when it is skipped.\<close>

definition rtt_units :: "u32 \<Rightarrow> report_block \<Rightarrow> u32 option" where
  "rtt_units now_ntp b =
     (if rb_lsr b \<noteq> 0 \<and> rb_dlsr b \<noteq> 0 then
        let u = now_ntp - rb_lsr b - rb_dlsr b in if 0 < sint u then Some u else None
      else None)"

definition report_block_events :: "call_labels \<Rightarrow> string \<Rightarrow> u32 \<Rightarrow> u32 \<Rightarrow> nat \<Rightarrow> string \<Rightarrow> report_block \<Rightarrow> metric_event list" where
  "report_block_events l codec clock_rate now_ntp loss_delta report_type b =
     [MUpdateRTCPJitter l codec (rtcp_jitter_ms (rb_jitter b) clock_rate),
      MUpdateRTCPLossFraction l codec (real (unat (rb_fraction_lost b)) / 256 * 100)] @
     (if 0 < loss_delta then [MUpdateRTCPCumulativeLoss l codec loss_delta] else []) @
     (case rtt_units now_ntp b of
        None \<Rightarrow> []
      | Some u \<Rightarrow> [MUpdateRTCPRTT l codec (real (unat u) / 65536 * 1000)]) @
     [MUpdateRTCPReport l report_type]"

definition handle_report_block :: "time \<Rightarrow> u32 \<Rightarrow> datagram \<Rightarrow> string \<Rightarrow> report_block \<Rightarrow> 'm exporter \<Rightarrow> 'm exporter" where
  "handle_report_block now now_ntp d report_type b e =
     (let (r, media) = record_rtcp_ipv4 (rb_ssrc b) (rb_cumulative_lost b) (dg_src_ip d) (dg_src_port d)
            (dg_dst_ip d) (dg_dst_port d) now (ex_media e);
          e1 = e\<lparr>ex_media := media\<rparr>
      in case r of
           None \<Rightarrow> emit [MUpdateRTCPOrphan] e1
         | Some (ctx, loss_delta) \<Rightarrow>
             emit (report_block_events (stream_labels (rc_labels ctx)) (rc_codec ctx) (rc_clock_rate ctx)
               now_ntp loss_delta report_type b) e1)"

definition handle_rtcp_report :: "time \<Rightarrow> u32 \<Rightarrow> datagram \<Rightarrow> rtcp_report \<Rightarrow> 'm exporter \<Rightarrow> 'm exporter" where
  "handle_rtcp_report now now_ntp d rep e =
     foldl (\<lambda>e b. handle_report_block now now_ntp d
       (if rep_type rep = pt_sender_report then ''sr'' else ''rr'') b e) e (rep_blocks rep)"

definition handle_rtcp :: "packet_context \<Rightarrow> datagram \<Rightarrow> 'm exporter \<Rightarrow> 'm exporter option" where
  "handle_rtcp px d e = do {
     (reports, err) \<leftarrow> rtcp_parse (dg_payload d);
     let e1 = (if err \<noteq> None then emit [MParseError ''rtcp''] e else e);
     let ts = (if is_zero_time (px_timestamp px) then px_now px else px_timestamp px);
     Some (foldl (\<lambda>e rep. handle_rtcp_report (px_now px) (now_ntp32 ts) d rep e) e1 reports) }"

section \<open>RTP\<close>

definition max_static_payload_type :: u8 where "max_static_payload_type = 34"
definition min_dynamic_payload_type :: u8 where "min_dynamic_payload_type = 96"

text \<open>\<open>rtpMetricHandle\<close>: the handle of a label set is bound once and kept.\<close>

definition rtp_metric_handle :: "call_labels \<Rightarrow> string \<Rightarrow> 'm exporter \<Rightarrow> 'm exporter" where
  "rtp_metric_handle l codec e =
     (if (l, codec) \<in> set (ex_rtp_handles e) then e
      else e\<lparr>ex_rtp_handles := ex_rtp_handles e @ [(l, codec)]\<rparr>)"

definition learn_alias :: "'m exporter_config \<Rightarrow> observe_result \<Rightarrow> 'm exporter \<Rightarrow> 'm exporter" where
  "learn_alias cfg res e =
     (case or_learned_endpoint res of
        None \<Rightarrow> e
      | Some ep \<Rightarrow>
          let e1 = on_filter (retain_endpoint (xc_bpf cfg) (me_ip ep) (me_port ep)) e;
              carrier = ml_carrier (or_labels res); direction = ml_direction (or_labels res);
              e2 = e1\<lparr>ex_alias_labels :=
                 mput (alias_key (ml_call_id (or_labels res)) ep) (carrier, direction) (ex_alias_labels e1)\<rparr>
          in emit [MRTPAliasLearned carrier direction ''source_port''] e2)"

definition count_rtp :: "observe_result \<Rightarrow> 'm exporter \<Rightarrow> 'm exporter" where
  "count_rtp res e =
     (let l = stream_labels (or_labels res); codec = or_codec res;
          e1 = on_fas (fas_clear_if_answer_media (ml_call_id (or_labels res))
                 \<lparr>fep_fallback_ip = [], fep_ip = ipv4_number (or_matched_ipv4 res), fep_port = or_matched_port res\<rparr>
                 (or_stream_packets_total res) (or_matched_by res)) e;
          e2 = rtp_metric_handle l codec e1
      in emit (MUpdateRTPPackets l codec #
           (if 1 < or_stream_packets_total res then [MUpdateRTPPDV l codec (or_delay_variation_ms res)] else [])) e2)"

definition handle_rtp :: "'m exporter_config \<Rightarrow> packet_context \<Rightarrow> datagram \<Rightarrow> 'm exporter \<Rightarrow> 'm exporter option" where
  "handle_rtp cfg px d e = do {
     hd \<leftarrow> parse_header (dg_payload d);
     case hd of
       Inl err \<Rightarrow> Some e
     | Inr h \<Rightarrow>
         if max_static_payload_type < h_payload_type h \<and> h_payload_type h < min_dynamic_payload_type then Some e
         else
           let missing = is_zero_time (px_timestamp px);
               arrival = (if missing then px_now px else px_timestamp px);
               e1 = (if missing then emit [MRTPKernelTimestampMissing] e else e);
               (r, media) = tracker_observe_ipv4 (dg_src_ip d) (dg_src_port d) (dg_dst_ip d) (dg_dst_port d)
                     h arrival (ex_media e1);
               e2 = e1\<lparr>ex_media := media\<rparr>
           in case r of
                None \<Rightarrow> Some e2
              | Some res \<Rightarrow>
                  let l = stream_labels (or_labels res); codec = or_codec res;
                      e3 = learn_alias cfg res e2;
                      e4 = (if or_counted res then count_rtp res e3 else e3)
                  in Some (emit
                       ((if or_duplicate res then [MUpdateRTPDuplicates l codec] else []) @
                        (if or_reorder res then [MUpdateRTPOutOfOrder l codec] else []) @
                        (if 0 < or_lost res then [MUpdateRTPLoss l codec (or_lost res)] else [])) e4) }"

section \<open>One packet\<close>

definition bytes_text :: "u8 list \<Rightarrow> string" where
  "bytes_text bs = map (\<lambda>b. char_of (unat b)) bs"

text \<open>
  \<open>parseRawPacket\<close>: a panic, the layer of an error with the state, or the state after the packet.
\<close>

definition parse_raw_packet :: "'m exporter_config \<Rightarrow> packet_context \<Rightarrow> u8 list \<Rightarrow> 'm exporter
    \<Rightarrow> (frame_error option \<times> 'm exporter) option" where
  "parse_raw_packet cfg px packet e = do {
     frame \<leftarrow> parse_frame packet;
     case frame of
       Inl err \<Rightarrow> Some (Some err, e)
     | Inr d \<Rightarrow>
         if is_rtp_version (dg_payload d) then
           map_option (Pair None)
             (if is_rtcp_payload (dg_payload d) then handle_rtcp px d e else handle_rtp cfg px d e)
         else
           let sip = bytes_text (dg_payload d) in
           if length (dg_payload d) < min_sip_data_len then Some (Some ErrSIP, e)
           else if \<not> is_sip_method sip then Some (Some ErrSIP, e)
           else
             let (carrier, carrier_country) = resolve_carrier cfg (dg_src_ip d) (dg_dst_ip d);
                 country = resolve_source_country cfg carrier_country (dg_src_ip d)
             in case handle_message cfg (px\<lparr>px_src_ip := ipv4_string (dg_src_ip d)\<rparr>) carrier country sip e of
                  None \<Rightarrow> None
                | Some (Inl err) \<Rightarrow> Some (Some ErrSIP, e)
                | Some (Inr e') \<Rightarrow> Some (None, e') }"

text \<open>
  What \<open>processPacketRingRun\<close> does with one frame: an error is counted under its kind.
\<close>

fun error_kind :: "frame_error \<Rightarrow> string" where
  "error_kind ErrL2 = ''l2''"
| "error_kind ErrL3 = ''l3''"
| "error_kind ErrL4 = ''l4''"
| "error_kind ErrSIP = ''sip''"

definition process_frame :: "'m exporter_config \<Rightarrow> packet_context \<Rightarrow> u8 list \<Rightarrow> 'm exporter \<Rightarrow> 'm exporter option" where
  "process_frame cfg px packet e =
     (case parse_raw_packet cfg px packet e of
        None \<Rightarrow> None
      | Some (None, e') \<Rightarrow> Some e'
      | Some (Some err, e') \<Rightarrow> Some (emit [MSystemError, MParseError (error_kind err)] e'))"

section \<open>The periodic update\<close>

record expired_dialog =
  ed_cleanup :: cleanup_result
  ed_rtp :: rtp_dialog_result
  ed_aliases :: "(string \<times> string) list"

fun expire_dialogs :: "'m exporter_config \<Rightarrow> time \<Rightarrow> cleanup_result list \<Rightarrow> 'm exporter
    \<Rightarrow> expired_dialog list \<times> 'm exporter" where
  "expire_dialogs cfg now [] e = ([], e)"
| "expire_dialogs cfg now (r # rs) e =
     (let e1 = on_fas (fas_clear (cr_call_id r)) (on_calls (close_invite_transactions (cr_call_id r) now) e);
          ((rtp, aliases), e2) = unregister_media cfg (cr_call_id r) False e1;
          (expired, e3) = expire_dialogs cfg now rs e2
      in (\<lparr>ed_cleanup = r, ed_rtp = rtp, ed_aliases = aliases\<rparr> # expired, e3))"

definition cleanup_expired_dialogs :: "'m exporter_config \<Rightarrow> time \<Rightarrow> 'm exporter \<Rightarrow> expired_dialog list \<times> 'm exporter" where
  "cleanup_expired_dialogs cfg now e =
     (let (results, dialogs) = dialog_cleanup now (ex_dialogs e)
      in expire_dialogs cfg now results (e\<lparr>ex_dialogs := dialogs\<rparr>))"

definition update_tracker_sizes :: "'m exporter \<Rightarrow> 'm exporter" where
  "update_tracker_sizes e =
     emit [MUpdateTrackerSize ''register'' (int (length (ct_register (ex_calls e)))),
       MUpdateTrackerSize ''invite'' (int (length (ct_invite (ex_calls e)))),
       MUpdateTrackerSize ''options'' (int (length (ct_options (ex_calls e)))),
       MUpdateTrackerSize ''bye'' (int (length (ct_bye (ex_calls e)))),
       MUpdateTrackerSize ''fas'' (case ex_fas e of None \<Rightarrow> 0 | Some f \<Rightarrow> int (fas_size f)),
       MUpdateTrackerSize ''rtp'' (int (stream_count (ex_media e)))] e"

definition stats_labels :: "stream_stats \<Rightarrow> call_labels" where
  "stats_labels s = stream_labels (ss_labels s)"

definition stats_events :: "stream_stats \<Rightarrow> metric_event list" where
  "stats_events s =
     (let l = stats_labels s; codec = ss_codec s
      in [MUpdateRTPJitter l codec (ss_jitter_ms s), MUpdateRTPMOS l codec (ss_mos s),
          MUpdateRTPMOSVariants l codec (ss_mos_f1 s) (ss_mos_f2 s) (ss_mos_adaptive s),
          MUpdateRTPRFactor l codec (ss_r_factor s),
          MUpdateRTPLossDistribution l codec (ss_burst_loss_density s) (ss_gap_loss_density s)])"

definition rtp_count_labels :: "call_labels \<times> string \<Rightarrow> (string, string) gomap" where
  "rtp_count_labels = (\<lambda>(l, codec).
     [(''carrier'', cl_carrier l), (''ua_type'', cl_ua_type l), (''codec'', codec),
      (''source_country'', cl_source_country l), (''direction'', cl_direction l)])"

definition update_rtp_metrics :: "'m exporter \<Rightarrow> 'm exporter" where
  "update_rtp_metrics e =
     (let (stats, media) = tracker_snapshot (ex_media e); e1 = e\<lparr>ex_media := media\<rparr>
      in if stats = [] then emit [MUpdateRTPActiveStreams []] e1
         else emit (concat (map stats_events stats) @
           [MUpdateRTPActiveStreams
             (map (\<lambda>(k, n). \<lparr>lc_labels = rtp_count_labels k, lc_count = n\<rparr>)
               (mtally (map (\<lambda>s. (stats_labels s, ss_codec s)) stats)))]) e1)"

definition expired_events :: "expired_dialog \<Rightarrow> metric_event list" where
  "expired_events r =
     (let c = ed_cleanup r; l = session_end_labels c
      in map (\<lambda>(carrier, direction). MRTPAliasReleased carrier direction) (ed_aliases r) @
         [MSessionCompleted l, MUpdateSPD l (cr_duration c), MUpdateShortCalls l (cr_duration c),
          MUpdateBillableSeconds (cr_carrier c) (cr_destination_country c) (cr_direction c) (cr_duration c)] @
         rtp_dialog_events (ed_rtp r) l)"

definition cleanup_calls :: "time \<Rightarrow> call_trackers \<Rightarrow> call_trackers" where
  "cleanup_calls now t =
     cleanup_bye_tracker now (cleanup_options_tracker now (cleanup_invite_transactions now
       (cleanup_invite_sdp now (cleanup_invite_tracker now (cleanup_expired_registrations now
         (cleanup_register_tracker now t))))))"

definition sweep_fas :: "time \<Rightarrow> 'm exporter \<Rightarrow> 'm exporter" where
  "sweep_fas now e =
     (case ex_fas e of
        None \<Rightarrow> e
      | Some f \<Rightarrow>
          let (reports, f') = fas_sweep now f
          in emit (map fas_report_event reports) (e\<lparr>ex_fas := Some f'\<rparr>))"

text \<open>
  One tick.  The reading of the socket counters and of the queue length (\<open>SocketStats\<close>,
  \<open>UpdateChannelLength\<close>) touches no state modelled here and is left out.
\<close>

definition dialog_metrics_tick :: "'m exporter_config \<Rightarrow> time \<Rightarrow> 'm exporter \<Rightarrow> 'm exporter" where
  "dialog_metrics_tick cfg now e =
     (let (expired, e1) = cleanup_expired_dialogs cfg now e;
          e2 = on_calls (cleanup_calls now)
                 (e1\<lparr>ex_scan := map_option (scan_cleanup now) (ex_scan e1),
                     ex_burst := map_option (burst_cleanup now) (ex_burst e1)\<rparr>);
          e3 = e2\<lparr>ex_media := tracker_cleanup now (ex_media e2)\<rparr>;
          e4 = sweep_fas now (on_filter (reconcile_endpoints (xc_bpf cfg)) e3);
          size = dialog_size (ex_dialogs e4);
          e5 = emit (concat (map expired_events expired)) e4;
          e6 = emit [MUpdateSessions (dialog_counts (ex_dialogs e5)),
                 MUpdateActiveRegistrations (registration_counts (ex_calls e5))] e5;
          e7 = update_rtp_metrics (update_tracker_sizes e6)
      in emit [MUpdateActiveDialogs (int size)] e7)"

end
