(* ===== verification/Frame_Properties.thy ===== *)
theory Frame_Properties
  imports Packet_Path
begin

text \<open>
  The frame decoder is total, reads back every well-formed Ethernet/IPv4/UDP frame, and the first byte
  of a payload separates RTP from SIP.
\<close>

section \<open>No panic\<close>

lemma idx_total: "i < length xs \<Longrightarrow> \<exists>x. idx xs i = Some x"
  by (simp add: idx_Some)

lemma read16_total: "a + 2 \<le> length xs \<Longrightarrow> \<exists>x. Option.bind (subslice xs a (a + 2)) be16 = Some x"
proof -
  assume "a + 2 \<le> length xs"
  then have "subslice xs a (a + 2) = Some (take 2 (drop a xs))" by (simp add: subslice_Some)
  moreover have "length (take 2 (drop a xs)) = 2" using \<open>a + 2 \<le> length xs\<close> by simp
  ultimately show ?thesis using be16_total [of "take 2 (drop a xs)"] by auto
qed

lemma parse_ethernet_cases:
  "parse_ethernet packet \<noteq> None"
  "parse_ethernet packet = Some (Inr (off, ty)) \<Longrightarrow>
     (off = 14 \<or> off = 18) \<and> length ty = 2 \<and> off + 28 \<le> length packet"
proof -
  have "min_raw_packet_len \<le> length packet \<Longrightarrow> subslice packet 12 14 = Some (take 2 (drop 12 packet))"
    "min_vlan_packet_len \<le> length packet \<Longrightarrow> subslice packet 16 18 = Some (take 2 (drop 16 packet))"
    by (simp_all add: subslice_Some frame_lens)
  moreover have "min_raw_packet_len \<le> length packet \<Longrightarrow> length (take 2 (drop 12 packet)) = 2"
    "min_vlan_packet_len \<le> length packet \<Longrightarrow> length (take 2 (drop 16 packet)) = 2"
    by (simp_all add: frame_lens)
  ultimately show "parse_ethernet packet \<noteq> None"
    "parse_ethernet packet = Some (Inr (off, ty)) \<Longrightarrow>
     (off = 14 \<or> off = 18) \<and> length ty = 2 \<and> off + 28 \<le> length packet"
    unfolding parse_ethernet_def
    by (auto simp: idx_def not_less frame_lens split: if_splits)
qed

lemma parse_ipv4_header_cases:
  "parse_ipv4_header packet off \<noteq> None"
  "parse_ipv4_header packet off = Some (Inr (h, n)) \<Longrightarrow> length h = 20"
proof -
  have "off + ipv4_min_header_len \<le> length packet \<Longrightarrow>
      subslice packet off (off + ipv4_min_header_len) = Some (take 20 (drop off packet)) \<and>
      length (take 20 (drop off packet)) = 20"
    by (simp add: subslice_Some frame_lens)
  then show "parse_ipv4_header packet off \<noteq> None"
    "parse_ipv4_header packet off = Some (Inr (h, n)) \<Longrightarrow> length h = 20"
    unfolding parse_ipv4_header_def by (auto simp: idx_def Let_def not_less split: if_splits)
qed

lemma ip_at_total: "i + 4 \<le> length h \<Longrightarrow> ip_at h i \<noteq> None"
  by (simp add: ip_at_def idx_def)

lemma ports_total:
  assumes "u + udp_header_len \<le> length packet"
  shows "\<exists>x y z. Option.bind (subslice packet u (u + 2)) be16 = Some x \<and>
    Option.bind (subslice packet (u + 2) (u + 4)) be16 = Some y \<and>
    subslice packet (u + udp_header_len) (length packet) = Some z"
proof -
  have "u + 2 + 2 = u + 4" by simp
  note second = read16_total [of "u + 2" packet, unfolded this]
  show ?thesis using assms read16_total [of u packet] second
    by (auto simp: frame_lens subslice_Some simp del: add_2_eq_Suc add_2_eq_Suc')
qed

lemma parse_frame_total: "parse_frame packet \<noteq> None"
proof (cases "parse_ethernet packet")
  case (Some r)
  show ?thesis
  proof (cases r)
    case (Inr eth)
    then obtain off ty where eth: "parse_ethernet packet = Some (Inr (off, ty))" using Some by (cases eth) simp
    then have ty: "length ty = 2" using parse_ethernet_cases(2) by blast
    obtain ip where ip: "parse_ipv4_header packet off = Some ip" using parse_ipv4_header_cases(1) by blast
    show ?thesis
    proof (cases ip)
      case (Inl err)
      then show ?thesis using eth ip ty by (auto simp: parse_frame_def idx_def)
    next
      case ip': (Inr hn)
      obtain h n where hn: "hn = (h, n)" by force
      then have h: "length h = 20" using parse_ipv4_header_cases(2) ip ip' by blast
      show ?thesis
      proof (cases "parse_udp_offset packet off n")
        case (Inl err)
        then show ?thesis using eth ip ip' hn ty h by (auto simp: parse_frame_def idx_def)
      next
        case (Inr u)
        then have "u + udp_header_len \<le> length packet"
          by (auto simp: parse_udp_offset_def Let_def split: if_splits)
        from ports_total [OF this] obtain x y z where xyz: "Option.bind (subslice packet u (u + 2)) be16 = Some x"
          "Option.bind (subslice packet (u + 2) (u + 4)) be16 = Some y"
          "subslice packet (u + udp_header_len) (length packet) = Some z" by blast
        obtain s d where "ip_at h 12 = Some s" "ip_at h 16 = Some d"
          using ip_at_total [of 12 h] ip_at_total [of 16 h] h by auto
        with Inr eth ip ip' hn ty h xyz show ?thesis by (auto simp: parse_frame_def idx_def)
      qed
    qed
  qed (use Some in \<open>simp add: parse_frame_def\<close>)
qed (use parse_ethernet_cases(1) in blast)

lemma is_sip_packet_total: "is_sip_packet packet ports \<noteq> None"
proof (cases "length packet < min_raw_packet_len")
  case False
  define off where "off = (if packet ! 12 = 0x81 \<and> packet ! 13 = 0x00 then vlan_header_len else eth_header_len)"
  define u where "u = off + unat (packet ! off AND 0x0F) * 4"
  have i: "idx packet 12 = Some (packet ! 12)" "idx packet 13 = Some (packet ! 13)" "idx packet off = Some (packet ! off)"
    using False by (simp_all add: idx_def off_def frame_lens)
  have eq: "is_sip_packet packet ports =
      (if \<not> ihl_ok (packet ! off AND 0x0F) \<or> length packet < u + udp_header_len then Some True
       else do {
         x \<leftarrow> Option.bind (subslice packet u (u + 2)) be16;
         y \<leftarrow> Option.bind (subslice packet (u + 2) (u + 4)) be16;
         Some (list_ex (\<lambda>p. x = p \<or> y = p) ports) })"
    using False i by (auto simp: is_sip_packet_def Let_def u_def off_def)
  show ?thesis
  proof (cases "\<not> ihl_ok (packet ! off AND 0x0F) \<or> length packet < u + udp_header_len")
    case fits: False
    then have "u + udp_header_len \<le> length packet" by simp
    from ports_total [OF this] obtain x y where
      xy: "Option.bind (subslice packet u (u + 2)) be16 = Some x"
      "Option.bind (subslice packet (u + 2) (u + 4)) be16 = Some y" by blast
    show ?thesis unfolding eq if_not_P [OF fits] xy by simp
  qed (simp add: eq)
qed (simp add: is_sip_packet_def)

text \<open>
    whatever bytes are captured, however short or malformed, neither the port test of the reader nor
  the frame decoder indexes out of range.
\<close>

theorem frame_no_panic: "parse_frame packet \<noteq> None \<and> is_sip_packet packet ports \<noteq> None"
  using parse_frame_total is_sip_packet_total by blast

section \<open>RTP and SIP\<close>

lemma method_first_byte:
  assumes "is_sip_method (bytes_text (b # bs))"
  shows "char_of (unat b) \<in> set ''IABCORSNPUM''"
  using assms
  by (auto simp: is_sip_method_def sip_methods_def has_method_prefix_def has_prefix_def bytes_text_def)

lemma byte_of_char: "char_of (unat b) = c \<Longrightarrow> b = word_of_nat (code c)" for b :: u8
proof -
  have "unat b < 256" using unsigned_less [of b] by simp
  then have "code (char_of (unat b) :: char) = unat b" by simp
  moreover have "word_of_nat (unat b) = b" by simp
  ultimately show "char_of (unat b) = c \<Longrightarrow> b = word_of_nat (code c)" by metis
qed

text \<open>
  no datagram is both: a payload that starts like a SIP message has a first byte outside
  \<open>0x80..0xBF\<close>, so testing for RTP first never takes a SIP message away from the SIP parser.
\<close>

theorem rtp_and_sip_disjoint: "\<not> (is_rtp_version payload \<and> is_sip_method (bytes_text payload))"
proof (cases payload)
  case (Cons b bs)
  have "b AND 0xC0 \<noteq> 0x80" if "is_sip_method (bytes_text (b # bs))"
  proof -
    from method_first_byte [OF that] obtain c where "char_of (unat b) = c" "c \<in> set ''IABCORSNPUM''" by blast
    then show ?thesis by (auto dest!: byte_of_char)
  qed
  with Cons show ?thesis by (auto simp: is_rtp_version_def)
qed (simp add: is_rtp_version_def)

section \<open>Round trip\<close>

text \<open>
  A frame as it stands on the wire: both MAC addresses, an optional VLAN tag, the IPv4 header with its
  options, the UDP header and the payload.  The fields the exporter does not read are arbitrary.
\<close>

record frame_rest =
  fr_macs :: "u8 list"
  fr_vlan :: "u8 list option"
  fr_ip_fields :: "u8 list"
  fr_checksum :: "u8 list"
  fr_options :: "u8 list"
  fr_udp_fields :: "u8 list"

definition frame_rest_wf :: "frame_rest \<Rightarrow> bool" where
  "frame_rest_wf r \<longleftrightarrow> length (fr_macs r) = 12 \<and> (case fr_vlan r of None \<Rightarrow> True | Some tci \<Rightarrow> length tci = 2) \<and>
     length (fr_ip_fields r) = 8 \<and> length (fr_checksum r) = 2 \<and> length (fr_udp_fields r) = 4 \<and>
     length (fr_options r) mod 4 = 0 \<and> length (fr_options r) \<le> 40"

definition ip_bytes :: "ipv4 \<Rightarrow> u8 list" where
  "ip_bytes = (\<lambda>(a, b, c, d). [a, b, c, d])"

definition ip_header_bytes :: "frame_rest \<Rightarrow> datagram \<Rightarrow> u8 list" where
  "ip_header_bytes r d =
     (0x40 OR of_nat (5 + length (fr_options r) div 4)) # fr_ip_fields r @ [17] @ fr_checksum r @
     ip_bytes (dg_src_ip d) @ ip_bytes (dg_dst_ip d)"

definition eth_bytes :: "frame_rest \<Rightarrow> u8 list" where
  "eth_bytes r = fr_macs r @ (case fr_vlan r of None \<Rightarrow> [] | Some tci \<Rightarrow> [0x81, 0x00] @ tci) @ [0x08, 0x00]"

definition encode_frame :: "frame_rest \<Rightarrow> datagram \<Rightarrow> u8 list" where
  "encode_frame r d = eth_bytes r @ ip_header_bytes r d @ fr_options r @
     enc16 (dg_src_port d) @ enc16 (dg_dst_port d) @ fr_udp_fields r @ dg_payload d"

lemma length_ip_bytes [simp]: "length (ip_bytes a) = 4"
  by (cases a) (simp add: ip_bytes_def)

lemma length_ip_header: "frame_rest_wf r \<Longrightarrow> length (ip_header_bytes r d) = 20"
  by (simp add: ip_header_bytes_def frame_rest_wf_def)

lemma length_eth: "frame_rest_wf r \<Longrightarrow> length (eth_bytes r) = (if fr_vlan r = None then 14 else 18)"
  by (auto simp: eth_bytes_def frame_rest_wf_def split: option.splits)

lemma idx_append: "idx (xs @ ys) i = (if i < length xs then idx xs i else idx ys (i - length xs))"
  by (auto simp: idx_def nth_append)

lemma parse_ethernet_frame:
  assumes "frame_rest_wf r" and "28 \<le> length rest"
  shows "parse_ethernet (eth_bytes r @ rest) = Some (Inr (length (eth_bytes r), [0x08, 0x00]))"
proof (cases "fr_vlan r")
  case None
  with assms show ?thesis
    by (simp add: parse_ethernet_def eth_bytes_def frame_rest_wf_def frame_lens subslice_def idx_def)
next
  case (Some tci)
  with assms show ?thesis
    by (simp add: parse_ethernet_def eth_bytes_def frame_rest_wf_def frame_lens subslice_def idx_def)
qed

lemma ihl_nibble:
  assumes "n \<le> 10"
  shows "(0x40 OR of_nat (5 + n) :: u8) AND 0x0F = of_nat (5 + n)" and "unat (of_nat (5 + n) :: u8) = 5 + n"
    and "ihl_ok (of_nat (5 + n))"
proof -
  let ?b = "\<lambda>n. of_nat (5 + n) :: u8"
  have "list_all (\<lambda>n. (0x40 OR ?b n) AND 0x0F = ?b n \<and> unat (?b n) = 5 + n \<and> ihl_ok (?b n)) [0..<11]"
    by (simp add: upt_rec ihl_ok_def)
  with assms have "(0x40 OR ?b n) AND 0x0F = ?b n \<and> unat (?b n) = 5 + n \<and> ihl_ok (?b n)"
    unfolding list_all_iff by (auto dest: bspec [of _ _ n])
  then show "(0x40 OR of_nat (5 + n) :: u8) AND 0x0F = of_nat (5 + n)" "unat (of_nat (5 + n) :: u8) = 5 + n"
    "ihl_ok (of_nat (5 + n))" by simp_all
qed

lemma parse_ipv4_header_frame:
  assumes "frame_rest_wf r"
  shows "parse_ipv4_header (eth @ ip_header_bytes r d @ rest) (length eth) =
    Some (Inr (ip_header_bytes r d, 20 + length (fr_options r)))"
proof -
  let ?n = "length (fr_options r) div 4"
  have n: "?n \<le> 10" "4 * ?n = length (fr_options r)" using assms by (auto simp: frame_rest_wf_def)
  have s: "subslice (eth @ ip_header_bytes r d @ rest) (length eth) (length eth + ipv4_min_header_len) = Some (ip_header_bytes r d)"
    using length_ip_header [OF assms, of d] by (simp add: subslice_def frame_lens)
  have i: "idx (ip_header_bytes r d) 0 = Some (0x40 OR of_nat (5 + ?n))"
    by (simp add: ip_header_bytes_def idx_def)
  show ?thesis
    unfolding parse_ipv4_header_def s using length_ip_header [OF assms, of d] i ihl_nibble [OF n(1)] n
    by (simp add: frame_lens Let_def)
qed

lemma ip_header_fields:
  assumes "frame_rest_wf r"
  shows "idx (ip_header_bytes r d) 9 = Some 17" "ip_at (ip_header_bytes r d) 12 = Some (dg_src_ip d)"
    "ip_at (ip_header_bytes r d) 16 = Some (dg_dst_ip d)"
proof -
  obtain a1 a2 a3 a4 where s: "dg_src_ip d = (a1, a2, a3, a4)" by (metis prod_cases4)
  obtain b1 b2 b3 b4 where e: "dg_dst_ip d = (b1, b2, b3, b4)" by (metis prod_cases4)
  note l = assms [unfolded frame_rest_wf_def]
  show "idx (ip_header_bytes r d) 9 = Some 17"
    using l by (simp add: ip_header_bytes_def idx_def nth_append)
  show "ip_at (ip_header_bytes r d) 12 = Some (dg_src_ip d)" "ip_at (ip_header_bytes r d) 16 = Some (dg_dst_ip d)"
    using l by (simp_all add: ip_at_def ip_header_bytes_def ip_bytes_def s e idx_def nth_append)
qed

lemma parse_encoded_frame:
  assumes "frame_rest_wf r" and "dg_payload d \<noteq> []"
  shows "parse_frame (encode_frame r d) = Some (Inr d)"
proof -
  let ?eth = "eth_bytes r" and ?ip = "ip_header_bytes r d" and ?opt = "fr_options r"
  let ?udp = "enc16 (dg_src_port d) @ enc16 (dg_dst_port d) @ fr_udp_fields r @ dg_payload d"
  let ?u = "length ?eth + (20 + length ?opt)"
  have f: "encode_frame r d = ?eth @ ?ip @ ?opt @ ?udp" by (simp add: encode_frame_def)
  have l: "length ?ip = 20" "length (fr_udp_fields r) = 4" using length_ip_header assms(1) by (auto simp: frame_rest_wf_def)
  have eth: "parse_ethernet (encode_frame r d) = Some (Inr (length ?eth, [0x08, 0x00]))"
    unfolding f using assms(1) l by (intro parse_ethernet_frame) simp_all
  have ip: "parse_ipv4_header (encode_frame r d) (length ?eth) = Some (Inr (?ip, 20 + length ?opt))"
    unfolding f by (rule parse_ipv4_header_frame [OF assms(1)])
  have udp: "parse_udp_offset (encode_frame r d) (length ?eth) (20 + length ?opt) = Inr ?u"
    using l by (simp add: parse_udp_offset_def f frame_lens)
  have pre: "encode_frame r d = (?eth @ ?ip @ ?opt) @ ?udp" by (simp add: f)
  have lp: "length (?eth @ ?ip @ ?opt) = ?u" using l by simp
  have at: "subslice (encode_frame r d) (?u + i) (?u + j) = subslice ?udp i j" if "i \<le> j" for i j
    unfolding pre using lp that by (simp add: subslice_append_right)
  have "length (encode_frame r d) = ?u + (8 + length (dg_payload d))" using l by (simp add: f)
  with at [of 8 "8 + length (dg_payload d)"] l have pay: "subslice (encode_frame r d) (?u + udp_header_len) (length (encode_frame r d)) = Some (dg_payload d)"
    by (simp add: subslice_def frame_lens)
  have ports: "Option.bind (subslice (encode_frame r d) ?u (?u + 2)) be16 = Some (dg_src_port d)"
    "Option.bind (subslice (encode_frame r d) (?u + 2) (?u + 4)) be16 = Some (dg_dst_port d)"
    using at [of 0 2] at [of 2 4] by (simp_all add: subslice_def enc16_def be16_enc16_only [unfolded enc16_def])
  have long: "\<not> length (encode_frame r d) \<le> ?u + udp_header_len" using l assms(2) by (simp add: f frame_lens)
  have "parse_frame (encode_frame r d) = Some (Inr \<lparr>dg_src_ip = dg_src_ip d, dg_dst_ip = dg_dst_ip d,
      dg_src_port = dg_src_port d, dg_dst_port = dg_dst_port d, dg_payload = dg_payload d\<rparr>)"
    unfolding parse_frame_def eth
    using ip udp long pay ports ip_header_fields [OF assms(1), of d]
    by (simp add: idx_def)
  then show ?thesis by simp
qed

text \<open>
  C34:   a UDP datagram framed with or without a VLAN tag, with any IPv4 options, is read back exactly:
  addresses, ports and payload.
\<close>

theorem frame_roundtrip:
  assumes "frame_rest_wf r" and "dg_payload d \<noteq> []"
  shows "parse_frame (encode_frame r d) = Some (Inr d)"
  by (rule parse_encoded_frame [OF assms])

definition sample_rest :: frame_rest where
  "sample_rest = \<lparr>fr_macs = replicate 12 1, fr_vlan = Some [0, 7], fr_ip_fields = replicate 8 0,
     fr_checksum = [0, 0], fr_options = [1, 1, 1, 1], fr_udp_fields = [0, 0, 0, 0]\<rparr>"

definition sample_datagram :: datagram where
  "sample_datagram = \<lparr>dg_src_ip = (10, 0, 0, 1), dg_dst_ip = (10, 0, 0, 2), dg_src_port = 5060,
     dg_dst_port = 5062, dg_payload = [0x80, 0]\<rparr>"

theorem frame_roundtrip_witness: "parse_frame (encode_frame sample_rest sample_datagram) = Some (Inr sample_datagram)"
  by (rule frame_roundtrip) (simp_all add: sample_rest_def sample_datagram_def frame_rest_wf_def)

end
