(* ===== verification/Media_Balance.thy ===== *)
theory Media_Balance
  imports Tracker_Invariant Endpoint_Filter
begin

text \<open>
  How many references the endpoints of the media tracker stand for.  Every endpoint a dialog owns, every
  alias it learned and every RTCP endpoint of it is one reference in the kernel filter; the lemmas say how
  each tracker operation changes that number, which is what the exporter must retain and release.
\<close>

section \<open>Sums over maps\<close>

definition msum :: "('k \<Rightarrow> 'v \<Rightarrow> nat) \<Rightarrow> ('k, 'v) gomap \<Rightarrow> nat" where
  "msum f m = sum_list (map (\<lambda>(k, v). f k v) m)"

lemma msum_simps [simp]: "msum f [] = 0" "msum f ((k, v) # m) = f k v + msum f m"
  by (simp_all add: msum_def)

lemma msum_mput: "msum f (mput k v m) + (case mget m k of None \<Rightarrow> 0 | Some v' \<Rightarrow> f k v') = msum f m + f k v"
  by (induction m) auto

lemma msum_mdel: "mwf m \<Longrightarrow> msum f (mdel k m) + (case mget m k of None \<Rightarrow> 0 | Some v \<Rightarrow> f k v) = msum f m"
proof (induction m)
  case (Cons e m)
  obtain k' v where e: "e = (k', v)" by force
  show ?case
  proof (cases "k' = k")
    case True
    with Cons.prems e have "mget m k = None" "mdel k m = m"
      by (simp_all add: mget_None_keys delete_id image_image)
    with True e show ?thesis by simp
  qed (use Cons e in simp)
qed simp

text \<open>Where the value of a missing key weighs nothing, the map may be read with a default.\<close>

lemma msum_put:
  assumes "\<And>k. f k z = 0"
  shows "msum f (mput k v m) + f k (mget_or z m k) = msum f m + f k v"
  using msum_mput [of f k v m] assms by (simp add: mget_or_def split: option.splits)

lemma msum_del:
  assumes "mwf m" and "\<And>k. f k z = 0"
  shows "msum f (mdel k m) + f k (mget_or z m k) = msum f m"
  using msum_mdel [OF assms(1), of f k] assms(2) by (simp add: mget_or_def split: option.splits)

section \<open>What a tracker holds\<close>

definition key_weight :: "(media_endpoint \<Rightarrow> nat) \<Rightarrow> (endpoint_key, 'v) gomap \<Rightarrow> nat" where
  "key_weight g m = msum (\<lambda>k v. g (endpoint_of k)) m"

definition value_weight :: "(media_endpoint \<Rightarrow> nat) \<Rightarrow> (endpoint_key, endpoint_key) gomap \<Rightarrow> nat" where
  "value_weight g m = msum (\<lambda>p a. g (endpoint_of a)) m"

definition own_weight :: "(media_endpoint \<Rightarrow> nat) \<Rightarrow> 'v owned \<Rightarrow> nat" where
  "own_weight g s = msum (\<lambda>c. key_weight g) (ow_calls s)"

definition alias_weight :: "(media_endpoint \<Rightarrow> nat) \<Rightarrow> tracker \<Rightarrow> nat" where
  "alias_weight g t = msum (\<lambda>c. value_weight g) (tk_source_aliases t)"

definition held :: "(media_endpoint \<Rightarrow> nat) \<Rightarrow> tracker \<Rightarrow> nat" where
  "held g t = own_weight g (tk_media t) + alias_weight g t + own_weight g (tk_rtcp t)"

lemma weight_empty [simp]: "key_weight g [] = 0" "value_weight g [] = 0"
  by (simp_all add: key_weight_def value_weight_def)

lemma key_weight_keys: "key_weight g m = sum_list (map g (map endpoint_of (mkeys m)))"
  by (induction m) (auto simp: key_weight_def)

lemma value_weight_values: "value_weight g m = sum_list (map g (map endpoint_of (map snd m)))"
  by (induction m) (auto simp: value_weight_def)

lemma held_new: "held g (new_tracker ttl) = 0"
  by (simp add: held_def own_weight_def alias_weight_def new_tracker_def no_owned_def)

lemma own_weight_add:
  "own_weight g (snd (own_add c k v s)) = own_weight g s + (if fst (own_add c k v s) then g (endpoint_of k) else 0)"
proof -
  let ?E = "own_entries c s"
  have calls: "ow_calls (snd (own_add c k v s)) = mput c (mput k v ?E) (ow_calls s)"
    by (simp add: own_add_def Let_def)
  have "msum (\<lambda>c. key_weight g) (mput c (mput k v ?E) (ow_calls s)) + key_weight g ?E =
      msum (\<lambda>c. key_weight g) (ow_calls s) + key_weight g (mput k v ?E)"
    unfolding own_entries_def by (rule msum_put) simp
  moreover have "key_weight g (mput k v ?E) + (if mget ?E k = None then 0 else g (endpoint_of k)) =
      key_weight g ?E + g (endpoint_of k)"
    using msum_mput [of "\<lambda>k v. g (endpoint_of k)" k v ?E]
    by (auto simp: key_weight_def split: option.splits)
  ultimately show ?thesis
    unfolding own_weight_def calls own_add_flag own_owns_def by (cases "mget ?E k = None") auto
qed

lemma own_weight_remove:
  assumes "own_inv tag s"
  shows "own_weight g (own_remove_call c z s) + key_weight g (own_entries c s) = own_weight g s"
proof -
  have i: "mwf (ow_calls s)" "distinct (mkeys (own_entries c s))" using assms by (simp_all add: own_inv_def)
  have "ow_calls (own_remove_call c z s) = mdel c (ow_calls s)"
    using own_release_loop(1) [OF i(2), of c z s] by (simp add: own_remove_call_def Let_def)
  then show ?thesis
    unfolding own_weight_def own_entries_def by (simp only:) (rule msum_del [OF i(1)], simp)
qed

lemma held_cong:
  "tk_media t' = tk_media t \<Longrightarrow> tk_source_aliases t' = tk_source_aliases t \<Longrightarrow> tk_rtcp t' = tk_rtcp t \<Longrightarrow>
   held g t' = held g t"
  by (simp add: held_def alias_weight_def)

section \<open>Registration\<close>

text \<open>The tracker invariant with the outer alias map's well-formedness.\<close>

definition media_inv :: "tracker \<Rightarrow> bool" where
  "media_inv t \<longleftrightarrow> tracker_inv t \<and> mwf (tk_source_aliases t)"

lemma media_inv_new: "media_inv (new_tracker ttl)"
  by (simp add: media_inv_def tracker_inv_new) (simp add: new_tracker_def)

lemma value_weight_delete:
  "value_weight g (delete_alias_value key m) + (if key \<in> snd ` set m then g (endpoint_of key) else 0) = value_weight g m"
proof (induction key m rule: delete_alias_value.induct)
  case (2 key peer al m)
  then show ?case by (cases "al = key"; cases "key \<in> snd ` set m") (simp_all add: value_weight_def)
qed simp

lemma displace_alias_weight:
  assumes "media_inv t" and al: "mget (tk_media_aliases t) key = Some al"
  shows "alias_weight g (displace_alias key al t) + g (endpoint_of key) = alias_weight g t"
    and "mwf (tk_source_aliases (displace_alias key al t))"
proof -
  let ?c = "ml_call_id al" and ?inner = "delete_alias_value key (sa_of t (ml_call_id al))"
  have a: "alias_inv t" and wf: "mwf (tk_source_aliases t)"
    using assms(1) by (simp_all add: media_inv_def tracker_inv_def)
  have sa: "tk_source_aliases (displace_alias key al t) =
      (if ?inner = [] then mdel ?c (tk_source_aliases t) else mput ?c ?inner (tk_source_aliases t))"
    by (simp add: displace_alias_def Let_def sa_of_def)
  obtain p where "mget (sa_of t ?c) p = Some key" using a al unfolding alias_inv_def by blast
  then have "key \<in> snd ` set (sa_of t ?c)" by (metis map_of_SomeD snd_conv image_eqI)
  then have inner: "value_weight g ?inner + g (endpoint_of key) = value_weight g (sa_of t ?c)"
    using value_weight_delete [of g key "sa_of t ?c"] by simp
  have "msum (\<lambda>c. value_weight g) (tk_source_aliases (displace_alias key al t)) + value_weight g (sa_of t ?c) =
      alias_weight g t + value_weight g ?inner"
  proof (cases "?inner = []")
    case True
    with msum_del [OF wf, of "\<lambda>c. value_weight g" "[]" ?c] show ?thesis
      by (simp add: sa alias_weight_def sa_of_def)
  next
    case False
    with msum_put [of "\<lambda>c. value_weight g" "[]" ?c ?inner "tk_source_aliases t"] show ?thesis
      by (simp add: sa alias_weight_def sa_of_def)
  qed
  with inner show "alias_weight g (displace_alias key al t) + g (endpoint_of key) = alias_weight g t"
    by (simp add: alias_weight_def)
  show "mwf (tk_source_aliases (displace_alias key al t))" using wf by (simp add: sa)
qed

lemma endpoint_of_text: "endpoint_of (new_binary_endpoint_key ip port) = \<lparr>me_ip = ip, me_port = port\<rparr>"
proof -
  have "ek_port (new_binary_endpoint_key ip port) = port"
    by (simp add: new_binary_endpoint_key_def split: option.split)
  moreover have "ip_string (new_binary_endpoint_key ip port) = ip"
    by (simp add: ip_string_def new_binary_endpoint_key_def ipv4_parse_print split: option.split)
  ultimately show ?thesis by (simp add: endpoint_of_def)
qed

lemma register_balance:
  assumes "media_inv t" and "tracker_register ip port labels t = (r, t')"
  shows "media_inv t'"
    and "held g t' + (case rr_displaced_alias r of None \<Rightarrow> 0 | Some (ep, c) \<Rightarrow> g ep) =
      held g t + (if rr_added r then g \<lparr>me_ip = ip, me_port = port\<rparr> else 0)"
    and "case rr_displaced_alias r of None \<Rightarrow> True | Some (ep, c) \<Rightarrow> ep = \<lparr>me_ip = ip, me_port = port\<rparr>"
proof -
  let ?k = "new_binary_endpoint_key ip port" and ?c = "ml_call_id labels"
  define t1 where "t1 = (case mget (tk_media_aliases t) ?k of None \<Rightarrow> t | Some al \<Rightarrow> displace_alias ?k al t)"
  have r: "rr_added r = fst (own_add ?c ?k labels (tk_media t1))"
    "rr_displaced_alias r = map_option (\<lambda>al. (\<lparr>me_ip = ip, me_port = port\<rparr>, ml_call_id al)) (mget (tk_media_aliases t) ?k)"
    "tk_media t' = snd (own_add ?c ?k labels (tk_media t1))"
    "tk_source_aliases t' = tk_source_aliases t1" "tk_rtcp t' = tk_rtcp t1"
    using assms(2) by (auto simp: tracker_register_def Let_def t1_def case_prod_beta split: option.splits if_splits)
  have t1: "tk_media t1 = tk_media t" "tk_rtcp t1 = tk_rtcp t" "mwf (tk_source_aliases t1)"
    "alias_weight g t1 + (case mget (tk_media_aliases t) ?k of None \<Rightarrow> 0 | Some al \<Rightarrow> g (endpoint_of ?k)) = alias_weight g t"
    using displace_alias_weight [OF assms(1), of ?k] assms(1)
    by (auto simp: t1_def media_inv_def split: option.split)
  have "tracker_inv t'" using tracker_register_inv [of t ip port labels] assms by (simp add: media_inv_def)
  then show "media_inv t'" using t1(3) by (simp add: media_inv_def r)
  have "alias_weight g t' = alias_weight g t1" by (simp add: alias_weight_def r)
  then show "held g t' + (case rr_displaced_alias r of None \<Rightarrow> 0 | Some (ep, c) \<Rightarrow> g ep) =
      held g t + (if rr_added r then g \<lparr>me_ip = ip, me_port = port\<rparr> else 0)"
    using t1(4) by (cases "mget (tk_media_aliases t) ?k")
      (simp_all add: held_def r t1(1,2) own_weight_add endpoint_of_text)
  show "case rr_displaced_alias r of None \<Rightarrow> True | Some (ep, c) \<Rightarrow> ep = \<lparr>me_ip = ip, me_port = port\<rparr>"
    by (cases "mget (tk_media_aliases t) ?k") (simp_all add: r)
qed

lemma register_rtcp_balance:
  assumes "media_inv t" and "tracker_register_rtcp ip port rip rport c t = (added, t')"
  shows "media_inv t'" and "held g t' = held g t + (if added then g \<lparr>me_ip = ip, me_port = port\<rparr> else 0)"
proof -
  have "tracker_inv t'" using tracker_register_rtcp_inv [of t ip port rip rport c] assms by (simp add: media_inv_def)
  with assms show "media_inv t'"
    by (auto simp: media_inv_def tracker_register_rtcp_def Let_def case_prod_beta)
  show "held g t' = held g t + (if added then g \<lparr>me_ip = ip, me_port = port\<rparr> else 0)"
    using assms(2) by (auto simp: tracker_register_rtcp_def Let_def case_prod_beta held_def alias_weight_def
        own_weight_add endpoint_of_text)
qed

section \<open>Removal\<close>

lemma remove_call_balance:
  assumes "media_inv t" and "remove_call_media c t = (deleted, t')"
  shows "media_inv t'" and "held g t' + sum_list (map g deleted) = held g t"
proof -
  have i: "own_inv ml_call_id (tk_media t)" "own_inv re_call_id (tk_rtcp t)" "mwf (tk_source_aliases t)"
    using assms(1) by (simp_all add: media_inv_def tracker_inv_def)
  have t': "t' = snd (remove_call_media c t)" using assms(2) by simp
  have sa: "tk_source_aliases t' = mdel c (tk_source_aliases t)"
    by (simp add: t' remove_call_media_def Let_def)
  have "tracker_inv t'" using remove_call_inv [of t c] assms(1) by (simp add: t' media_inv_def)
  with i(3) show "media_inv t'" by (simp add: media_inv_def sa)
  have d: "deleted = map endpoint_of (mkeys (own_entries c (tk_media t))) @
      map endpoint_of (map snd (mget_or [] (tk_source_aliases t) c)) @ map endpoint_of (mkeys (own_entries c (tk_rtcp t)))"
    using assms(2) by (simp add: remove_call_media_def Let_def)
  have "alias_weight g t' + value_weight g (mget_or [] (tk_source_aliases t) c) = alias_weight g t"
    unfolding alias_weight_def sa by (rule msum_del [OF i(3)]) simp
  with own_weight_remove [OF i(1), of g c zero_media_labels] own_weight_remove [OF i(2), of g c zero_rtcp_entry]
  show "held g t' + sum_list (map g deleted) = held g t"
    unfolding d held_def t' remove_call_frame
    by (simp add: t' [symmetric] key_weight_keys [symmetric] value_weight_values [symmetric] del: map_map)
qed

lemma unregister_balance:
  assumes "media_inv t" and "tracker_unregister c t = ((r, deleted), t')"
  shows "media_inv t'" and "held g t' + sum_list (map g deleted) = held g t"
proof -
  obtain t1 where rem: "remove_call_media c t = (deleted, t1)"
    and t': "tk_media t' = tk_media t1" "tk_source_aliases t' = tk_source_aliases t1" "tk_rtcp t' = tk_rtcp t1"
    using assms(2) by (auto simp: tracker_unregister_def Let_def case_prod_beta prod_eq_iff)
  have "tracker_inv t'" using tracker_unregister_inv [of t c] assms by (simp add: media_inv_def)
  then show "media_inv t'" using remove_call_balance(1) [OF assms(1) rem] by (simp add: media_inv_def t')
  show "held g t' + sum_list (map g deleted) = held g t"
    using remove_call_balance(2) [OF assms(1) rem, of g] held_cong [of t' t1 g] t' by simp
qed

section \<open>Learning\<close>

lemma learn_balance:
  assumes wf: "mwf (tk_source_aliases t)" and "learn_source_alias c matched source t = (ep, t')"
  shows "mwf (tk_source_aliases t')" and "held g t' = held g t + (case ep of None \<Rightarrow> 0 | Some e \<Rightarrow> g e)"
proof -
  have "mwf (tk_source_aliases t') \<and> held g t' = held g t + (case ep of None \<Rightarrow> 0 | Some e \<Rightarrow> g e)"
  proof (cases rule: learn_cases [where c = c and matched = matched and source = source and t = t])
    case Same
    with assms wf show ?thesis by simp
  next
    case (New peer)
    let ?E = "sa_of t c"
    from New(8) assms(2) have t': "ep = Some (endpoint_of source)" "tk_media t' = tk_media t"
      "tk_rtcp t' = tk_rtcp t" "tk_source_aliases t' = mput c (mput peer source ?E) (tk_source_aliases t)"
      by auto
    have "alias_weight g t' + value_weight g ?E = alias_weight g t + value_weight g (mput peer source ?E)"
      unfolding alias_weight_def t' sa_of_def by (rule msum_put) simp
    moreover have "value_weight g (mput peer source ?E) = value_weight g ?E + g (endpoint_of source)"
      using msum_mput [of "\<lambda>p a. g (endpoint_of a)" peer source ?E] New(6) by (simp add: value_weight_def)
    ultimately show ?thesis using wf by (simp add: held_def t')
  qed
  then show "mwf (tk_source_aliases t')" "held g t' = held g t + (case ep of None \<Rightarrow> 0 | Some e \<Rightarrow> g e)"
    by simp_all
qed

lemma observe_balance:
  assumes "media_inv t" and obs: "tracker_observe_keys src dst h arrival t = (r, t')"
  shows "media_inv t'"
    and "held g t' = held g t +
      (case r of None \<Rightarrow> 0 | Some res \<Rightarrow> (case or_learned_endpoint res of None \<Rightarrow> 0 | Some e \<Rightarrow> g e))"
proof -
  have wf: "mwf (tk_source_aliases t)" using assms(1) by (simp add: media_inv_def)
  have "mwf (tk_source_aliases t') \<and> held g t' = held g t +
      (case r of None \<Rightarrow> 0 | Some res \<Rightarrow> (case or_learned_endpoint res of None \<Rightarrow> 0 | Some e \<Rightarrow> g e))"
  proof (cases "lookup_labels src dst t")
    case None
    with obs wf show ?thesis by (simp add: tracker_observe_keys_def)
  next
    case (Some lab)
    obtain labels ep side where lab: "lab = (labels, ep, side)" by (cases lab) auto
    let ?codec = "codec_name (h_payload_type h) (ml_sdp_codecs labels)"
    let ?key = "\<lparr>sk_endpoint = ep, sk_ssrc = h_ssrc h\<rparr>"
    define t1 where "t1 = ensure_stream ?key labels ?codec (clock_rate_for labels (h_payload_type h)) arrival t"
    have t1: "tk_source_aliases t1 = tk_source_aliases t" "held g t1 = held g t"
      using held_cong [of t1 t g] by (simp_all add: t1_def)
    show ?thesis
    proof (cases "mget (tk_streams t1) ?key")
      case None
      with \<open>lookup_labels src dst t = Some lab\<close> lab obs wf t1 show ?thesis
        by (simp add: tracker_observe_keys_def Let_def t1_def [symmetric])
    next
      case (Some entry)
      define new where "new = (if is_audio_codec ?codec then observe_audio h arrival (se_state entry)
        else observe_non_audio h arrival (se_state entry))"
      define t2 where "t2 = t1\<lparr>tk_streams := mput ?key (entry\<lparr>se_state := new\<rparr>) (tk_streams t1)\<rparr>"
      have t2: "mwf (tk_source_aliases t2)" "held g t2 = held g t"
        using wf t1 held_cong [of t2 t1 g] by (simp_all add: t2_def)
      obtain learned t3 where l: "(if st_total (se_state entry) < st_total new \<and> side = ''dst''
          then learn_source_alias (ml_call_id labels) ep src t2 else (None, t2)) = (learned, t3)" by force
      have "tracker_observe_keys src dst h arrival t = (r, t') \<Longrightarrow>
          t' = t3 \<and> (\<exists>res. r = Some res \<and> or_learned_endpoint res = learned)"
        unfolding tracker_observe_keys_def Let_def \<open>lookup_labels src dst t = Some lab\<close> lab
          option.case prod.case t1_def [symmetric] Some new_def [symmetric] t2_def [symmetric] l
        by (elim Pair_inject) (rule conjI, erule sym, rule exI, rule conjI, erule sym, simp)
      with obs have "t' = t3" "\<exists>res. r = Some res \<and> or_learned_endpoint res = learned" by blast+
      moreover have "mwf (tk_source_aliases t3) \<and>
          held g t3 = held g t2 + (case learned of None \<Rightarrow> 0 | Some e \<Rightarrow> g e)"
        using l t2(1) learn_balance [OF t2(1)] by (auto split: if_splits)
      ultimately show ?thesis using t2(2) by auto
    qed
  qed
  then show "held g t' = held g t +
      (case r of None \<Rightarrow> 0 | Some res \<Rightarrow> (case or_learned_endpoint res of None \<Rightarrow> 0 | Some e \<Rightarrow> g e))"
    and "media_inv t'"
    using tracker_observe_keys_inv [of t src dst h arrival] assms by (auto simp: media_inv_def)
qed

section \<open>Operations that hold what they find\<close>

lemma record_rtcp_balance:
  assumes "media_inv t"
  shows "media_inv (snd (record_rtcp_keys ssrc n src dst now t))"
    and "held g (snd (record_rtcp_keys ssrc n src dst now t)) = held g t"
proof -
  let ?t = "snd (record_rtcp_keys ssrc n src dst now t)"
  have f: "tk_media ?t = tk_media t" "tk_source_aliases ?t = tk_source_aliases t" "tk_rtcp ?t = tk_rtcp t"
    by (simp_all add: record_rtcp_keys_def case_prod_beta split: option.split)
  then show "held g ?t = held g t" by (rule held_cong)
  show "media_inv ?t" using record_rtcp_keys_inv [of t ssrc n src dst now] assms by (simp add: media_inv_def f)
qed

lemma snapshot_balance:
  assumes "media_inv t"
  shows "media_inv (snd (tracker_snapshot t))" and "held g (snd (tracker_snapshot t)) = held g t"
proof -
  have f: "tk_media (snd (tracker_snapshot t)) = tk_media t" "tk_rtcp (snd (tracker_snapshot t)) = tk_rtcp t"
    "tk_source_aliases (snd (tracker_snapshot t)) = tk_source_aliases t"
    by (simp_all add: tracker_snapshot_def Let_def)
  then show "held g (snd (tracker_snapshot t)) = held g t" by (intro held_cong)
  show "media_inv (snd (tracker_snapshot t))"
    using tracker_snapshot_inv [of t] assms by (simp add: media_inv_def f)
qed

lemma cleanup_balance:
  assumes "media_inv t"
  shows "media_inv (tracker_cleanup now t)" and "held g (tracker_cleanup now t) = held g t"
proof -
  show "held g (tracker_cleanup now t) = held g t"
    by (rule held_cong) (simp_all add: tracker_cleanup_def)
  show "media_inv (tracker_cleanup now t)"
    using tracker_cleanup_inv [of t now] assms by (simp add: media_inv_def) (simp add: tracker_cleanup_def)
qed

section \<open>The filter's side\<close>

text \<open>The weight of an endpoint for a filter key: one if it maps to the key.\<close>

definition hits :: "rtp_endpoint_key \<Rightarrow> media_endpoint \<Rightarrow> nat" where
  "hits key ep = (if ip_port_to_key (me_ip ep) (me_port ep) = Some key then 1 else 0)"

lemma hits_rebuilt [simp]: "hits key \<lparr>me_ip = me_ip ep, me_port = me_port ep\<rparr> = hits key ep"
  by (simp add: hits_def)

lemma retain_refs_hits: "refs_of (retain_endpoint bpf ip port f) key = refs_of f key + hits key \<lparr>me_ip = ip, me_port = port\<rparr>"
  by (simp add: retain_refs hits_def)

lemma release_refs_hits: "refs_of (release_endpoint bpf ip port f) key = refs_of f key - hits key \<lparr>me_ip = ip, me_port = port\<rparr>"
  by (simp add: release_refs hits_def)

lemma retain_list_refs:
  "refs_of (foldl (\<lambda>f ep. retain_endpoint bpf (me_ip ep) (me_port ep) f) f eps) key =
     refs_of f key + sum_list (map (hits key) eps)"
  by (induction eps arbitrary: f) (simp_all add: retain_refs hits_def)

lemma release_list_refs:
  "refs_of (foldl (\<lambda>f ep. release_endpoint bpf (me_ip ep) (me_port ep) f) f eps) key =
     refs_of f key - sum_list (map (hits key) eps)"
  by (induction eps arbitrary: f) (simp_all add: release_refs hits_def)

lemma retain_list_inv:
  "bpf_laws bpf has \<Longrightarrow> filter_inv has f \<Longrightarrow>
   filter_inv has (foldl (\<lambda>f ep. retain_endpoint bpf (me_ip ep) (me_port ep) f) f eps)"
  by (induction eps arbitrary: f) (simp_all add: retain_inv)

lemma release_list_inv:
  "bpf_laws bpf has \<Longrightarrow> filter_inv has f \<Longrightarrow>
   filter_inv has (foldl (\<lambda>f ep. release_endpoint bpf (me_ip ep) (me_port ep) f) f eps)"
  by (induction eps arbitrary: f) (simp_all add: release_inv)

section \<open>Recovery\<close>

text \<open>
  A set of map states \<open>up\<close> in which the kernel calls succeed, and keep succeeding.
\<close>

definition calls_succeed :: "'m bpf_map \<Rightarrow> ('m \<Rightarrow> bool) \<Rightarrow> bool" where
  "calls_succeed bpf up \<longleftrightarrow>
     (\<forall>k m. up m \<longrightarrow> fst (bm_update bpf k m) = None \<and> up (snd (bm_update bpf k m))) \<and>
     (\<forall>k m. up m \<longrightarrow> fst (bm_delete bpf k m) \<in> {None, Some ErrKeyNotExist} \<and> up (snd (bm_delete bpf k m)))"

lemma apply_presence_up:
  assumes "calls_succeed bpf up" and "list_all up ms"
  shows "fst (apply_presence bpf key present ms) \<and> list_all up (snd (apply_presence bpf key present ms))"
  using assms(2) by (induction ms) (use assms(1) in \<open>auto simp: calls_succeed_def case_prod_beta\<close>)

lemma set_presence_up:
  assumes "calls_succeed bpf up" and "list_all up (fs_maps f)"
  shows "list_all up (fs_maps (set_presence bpf key present f))"
    and "fs_dirty (set_presence bpf key present f) = mdel key (fs_dirty f)"
  using apply_presence_up [OF assms, of key present] by (simp_all add: set_presence_def case_prod_beta)

lemma release_up:
  "calls_succeed bpf up \<Longrightarrow> list_all up (fs_maps f) \<Longrightarrow> list_all up (fs_maps (release_endpoint bpf ip port f))"
  by (auto simp: release_endpoint_def set_presence_up(1) split: option.split)

lemma release_list_up:
  "calls_succeed bpf up \<Longrightarrow> list_all up (fs_maps f) \<Longrightarrow>
   list_all up (fs_maps (foldl (\<lambda>f ep. release_endpoint bpf (me_ip ep) (me_port ep) f) f eps))"
  by (induction eps arbitrary: f) (simp_all add: release_up)

text \<open>Once the calls succeed one reconciliation leaves nothing to retry.\<close>

lemma reconcile_clean:
  assumes "calls_succeed bpf up" and "list_all up (fs_maps f)"
  shows "mget (fs_dirty (reconcile_endpoints bpf f)) key = None"
proof -
  have "list_all up (fs_maps f) \<Longrightarrow>
      mget (fs_dirty (foldl (\<lambda>f (key, present). set_presence bpf key present f) f ds)) key =
      (if key \<in> set (mkeys ds) then None else mget (fs_dirty f) key)" for ds f
  proof (induction ds arbitrary: f)
    case (Cons d ds)
    then show ?case by (cases d) (simp add: set_presence_up [OF assms(1)])
  qed simp
  from this [OF assms(2), of "fs_dirty f"] show ?thesis
    using mget_None_keys [of "fs_dirty f" key] by (simp add: reconcile_endpoints_def split: if_splits)
qed

end
