(* ===== verification/Exporter_Invariant.thy ===== *)
theory Exporter_Invariant
  imports Packet_Path Media_Balance
begin

text \<open>
  Invariants of the whole exporter, over every sequence of packets and periodic updates.  The kernel
  filter: its reference counts are exactly the endpoints the media tracker holds.  The sessions: what was
  completed and what is active never exceeds what was answered.  Each handler gets a lemma for either; most
  touch neither and are dismissed by the two views.
\<close>

section \<open>Views\<close>

text \<open>What the media invariant reads of a state, and what the session invariant reads.\<close>

definition media_view :: "'m exporter \<Rightarrow> tracker \<times> 'm filter_state" where
  "media_view e = (ex_media e, ex_filter e)"

fun is_answer :: "metric_event \<Rightarrow> bool" where
  "is_answer (SipEv (EvInvite200OK l i)) = True"
| "is_answer _ = False"

fun is_sample :: "metric_event \<Rightarrow> bool" where
  "is_sample (SessionEv (EvSPD l d)) = True"
| "is_sample _ = False"

fun is_completion :: "metric_event \<Rightarrow> bool" where
  "is_completion (SipEv (EvCall SessionCompleted l)) = True"
| "is_completion _ = False"

text \<open>A write of the sessions gauge for one label set, outside the snapshots.\<close>

fun is_session_write :: "metric_event \<Rightarrow> bool" where
  "is_session_write (SessionEv (EvSession l n)) = True"
| "is_session_write _ = False"

definition session_trace :: "metric_event list \<Rightarrow> metric_event list" where
  "session_trace evs = filter (\<lambda>ev. is_answer ev \<or> is_sample ev \<or> is_completion ev \<or> is_session_write ev) evs"

definition session_view :: "'m exporter \<Rightarrow> dialogs \<times> metric_event list" where
  "session_view e = (ex_dialogs e, session_trace (ex_events e))"

named_theorems views

lemma session_trace_append [simp]: "session_trace (xs @ ys) = session_trace xs @ session_trace ys"
  by (simp add: session_trace_def)

lemma session_trace_simps [simp]:
  "session_trace [] = []"
  "session_trace (ev # evs) =
     (if is_answer ev \<or> is_sample ev \<or> is_completion ev \<or> is_session_write ev then ev # session_trace evs
      else session_trace evs)"
  by (simp_all add: session_trace_def)

lemma view_updates [views]:
  "media_view (emit evs e) = media_view e"
  "media_view (on_calls f e) = media_view e"
  "media_view (on_fas g e) = media_view e"
  "media_view (e\<lparr>ex_calls := c\<rparr>) = media_view e"
  "media_view (e\<lparr>ex_scan := s\<rparr>) = media_view e"
  "media_view (e\<lparr>ex_burst := b\<rparr>) = media_view e"
  "media_view (e\<lparr>ex_fas := a\<rparr>) = media_view e"
  "media_view (e\<lparr>ex_dialogs := d\<rparr>) = media_view e"
  "media_view (e\<lparr>ex_alias_labels := al\<rparr>) = media_view e"
  "media_view (e\<lparr>ex_rtp_handles := hs\<rparr>) = media_view e"
  "session_view (on_calls f e) = session_view e"
  "session_view (on_fas g e) = session_view e"
  "session_view (on_filter k e) = session_view e"
  "session_view (e\<lparr>ex_calls := c\<rparr>) = session_view e"
  "session_view (e\<lparr>ex_scan := s\<rparr>) = session_view e"
  "session_view (e\<lparr>ex_burst := b\<rparr>) = session_view e"
  "session_view (e\<lparr>ex_fas := a\<rparr>) = session_view e"
  "session_view (e\<lparr>ex_media := t\<rparr>) = session_view e"
  "session_view (e\<lparr>ex_filter := f0\<rparr>) = session_view e"
  "session_view (e\<lparr>ex_alias_labels := al\<rparr>) = session_view e"
  "session_view (e\<lparr>ex_rtp_handles := hs\<rparr>) = session_view e"
  "session_view (emit evs e) = (fst (session_view e), snd (session_view e) @ session_trace evs)"
  by (simp_all add: media_view_def session_view_def emit_def on_calls_def on_fas_def on_filter_def)

text \<open>Events of other kinds leave the session trace alone.\<close>

lemma quiet_events [views]:
  "session_trace (rtp_dialog_events r l) = []"
  "session_trace (fst (burst_record src carrier country direction now b)) = []"
  "session_trace (fst (scan_record src aor carrier country direction now s)) = []"
  "session_trace (map fas_report_event rs) = []"
  "session_trace (handle_vq_report pf body l) = []"
  "session_trace (map (\<lambda>(carrier, direction). MRTPAliasReleased carrier direction) as) = []"
proof -
  show "session_trace (map fas_report_event rs) = []" by (induction rs) (simp_all add: fas_report_event_def)
  show "session_trace (map (\<lambda>(carrier, direction). MRTPAliasReleased carrier direction) as) = []"
    by (induction as) auto
qed (simp_all add: rtp_dialog_events_def burst_record_def scan_record_def Let_def handle_vq_report_def
    split: option.split)

lemma release_aliases_views [views]:
  "media_view (snd (release_rtp_aliases c eps e)) = media_view e"
  "session_view (snd (release_rtp_aliases c eps e)) = session_view e"
  by (induction c eps e rule: release_rtp_aliases.induct)
    (auto simp: Let_def case_prod_beta views split: option.split)

declare release_rtp_aliases.simps [simp del]

lemma emit_alias_views [views]:
  "media_view (emit_alias_released as e) = media_view e"
  "session_view (emit_alias_released as e) = session_view e"
  by (simp_all add: emit_alias_released_def views)

section \<open>Handlers that leave media and sessions alone\<close>

lemma record_burst_views [views]:
  "media_view (record_burst px p carrier country direction e) = media_view e"
  "session_view (record_burst px p carrier country direction e) = session_view e"
  by (simp_all add: record_burst_def views case_prod_beta split: option.split)

lemma handle_request_views [views]:
  "media_view (handle_request cfg px carrier ua country direction p e) = media_view e"
  "session_view (handle_request cfg px carrier ua country direction p e) = session_view e"
  by (simp_all add: handle_request_def Let_def views)

lemma provisional_views [views]:
  "media_view (handle_provisional_response px p e) = media_view e"
  "session_view (handle_provisional_response px p e) = session_view e"
  by (simp_all add: handle_provisional_response_def measure_pdd_def Let_def views split: option.split)

lemma invite_response_views [views]:
  "media_view (snd (handle_invite_response px carrier ua country direction p e)) = media_view e"
  "session_view (snd (handle_invite_response px carrier ua country direction p e)) = session_view e"
  by (simp_all add: handle_invite_response_def Let_def case_prod_beta views)

lemma finalize_fas_views [views]:
  "media_view (finalize_fas c now e) = media_view e"
  "session_view (finalize_fas c now e) = session_view e"
  by (simp_all add: finalize_fas_def case_prod_beta views split: option.split)

lemma register_views [views]:
  "media_view (handle_register_200ok px carrier ua country direction p e) = media_view e"
  "session_view (handle_register_200ok px carrier ua country direction p e) = session_view e"
  "media_view (handle_register_non200_response px l p e) = media_view e"
  "session_view (handle_register_non200_response px l p e) = session_view e"
  by (simp_all add: handle_register_200ok_def handle_register_non200_response_def Let_def case_prod_beta views
      split: option.split)

section \<open>Media: references and endpoints agree\<close>

text \<open>
  The tracker is consistent, the kernel maps follow the reference counts, and a key has one reference for
  each endpoint held that maps to it, and \<open>x key\<close> more.
\<close>

definition media_bal :: "('m \<Rightarrow> rtp_endpoint_key \<Rightarrow> bool) \<Rightarrow> (rtp_endpoint_key \<Rightarrow> nat) \<Rightarrow> 'm exporter \<Rightarrow> bool" where
  "media_bal has x e \<longleftrightarrow> media_inv (ex_media e) \<and> filter_inv has (ex_filter e) \<and>
     (\<forall>key. refs_of (ex_filter e) key = held (hits key) (ex_media e) + x key)"

lemma media_bal_view: "media_view e' = media_view e \<Longrightarrow> media_bal has x e' = media_bal has x e"
  by (simp add: media_bal_def media_view_def)

lemma media_bal_views [simp]:
  "media_bal has x (emit evs e) = media_bal has x e"
  "media_bal has x (on_calls f e) = media_bal has x e"
  "media_bal has x (on_fas g e) = media_bal has x e"
  "media_bal has x (snd (release_rtp_aliases c eps e)) = media_bal has x e"
  "media_bal has x (emit_alias_released as e) = media_bal has x e"
  by (rule media_bal_view, simp add: views)+

lemma retain_all_bal:
  assumes "bpf_laws (xc_bpf cfg) has" and "media_bal has x e"
  shows "media_bal has (\<lambda>key. x key + sum_list (map (hits key) eps)) (retain_all cfg eps e)"
  using assms by (simp add: media_bal_def retain_all_def on_filter_def retain_list_refs retain_list_inv)

lemma release_all_bal:
  assumes "bpf_laws (xc_bpf cfg) has" and "media_bal has (\<lambda>key. x key + sum_list (map (hits key) eps)) e"
  shows "media_bal has x (release_all cfg eps e)"
  using assms by (simp add: media_bal_def release_all_def on_filter_def release_list_refs release_list_inv)

text \<open>One endpoint more in the tracker, one reference more in the filter; a displaced alias gives its own back.\<close>

lemma register_rtcp_bal:
  assumes laws: "bpf_laws (xc_bpf cfg) has" and e: "media_bal has x e"
    and reg: "tracker_register_rtcp ip port rip rport c (ex_media e) = (added, media)"
  shows "media_bal has x (if added then on_filter (retain_endpoint (xc_bpf cfg) ip port) (e\<lparr>ex_media := media\<rparr>)
    else e\<lparr>ex_media := media\<rparr>)"
proof -
  have "media_inv (ex_media e)" using e by (simp add: media_bal_def)
  note b = register_rtcp_balance [OF this reg]
  from e b laws show ?thesis by (simp add: media_bal_def on_filter_def retain_refs_hits retain_inv)
qed

lemma register_one_bal:
  assumes laws: "bpf_laws (xc_bpf cfg) has" and e: "media_bal has x e"
  shows "media_bal has x (register_one_media cfg labels m e)"
proof -
  let ?ml = "labels\<lparr>ml_sdp_codecs := sm_codecs m, ml_clock_rates := sm_clock_rates m\<rparr>"
  let ?ep = "\<lparr>me_ip = sm_ip m, me_port = sm_port m\<rparr>"
  obtain r media where reg: "tracker_register (sm_ip m) (sm_port m) ?ml (ex_media e) = (r, media)" by force
  define e1 where "e1 = e\<lparr>ex_media := media\<rparr>"
  define e2 where "e2 = (if rr_added r then on_filter (retain_endpoint (xc_bpf cfg) (sm_ip m) (sm_port m)) e1 else e1)"
  define e3 where "e3 = (case rr_displaced_alias r of
             None \<Rightarrow> e2
           | Some (ep, owner) \<Rightarrow>
               let (aliases, e') = release_rtp_aliases owner [ep] e2
               in on_filter (release_endpoint (xc_bpf cfg) (me_ip ep) (me_port ep)) (emit_alias_released aliases e'))"
  have "media_inv (ex_media e)" using e by (simp add: media_bal_def)
  note b = register_balance [OF this reg]
  let ?d = "\<lambda>key. case rr_displaced_alias r of None \<Rightarrow> 0 | Some (ep, c) \<Rightarrow> hits key ep"
  have e2: "media_bal has (\<lambda>key. x key + ?d key) e2"
    unfolding media_bal_def
  proof (intro conjI allI)
    show "media_inv (ex_media e2)" "filter_inv has (ex_filter e2)"
      using e b(1) laws by (simp_all add: e2_def e1_def on_filter_def media_bal_def retain_inv)
    show "refs_of (ex_filter e2) key = held (hits key) (ex_media e2) + (x key + ?d key)" for key
      using e b(2) [of "hits key"] by (simp add: e2_def e1_def on_filter_def media_bal_def retain_refs_hits)
  qed
  have e3: "media_bal has x e3"
  proof (cases "rr_displaced_alias r")
    case None
    with e2 show ?thesis by (simp add: e3_def)
  next
    case (Some d)
    obtain ep owner where d: "d = (ep, owner)" by force
    have "media_bal has (\<lambda>key. x key + sum_list (map (hits key) [ep]))
        (emit_alias_released (fst (release_rtp_aliases owner [ep] e2)) (snd (release_rtp_aliases owner [ep] e2)))"
      using e2 Some d by simp
    from release_all_bal [OF laws this] show ?thesis
      by (simp add: e3_def Some d case_prod_beta release_all_def)
  qed
  have "register_one_media cfg labels m e =
      (case resolve_rtcp_endpoint m of
           None \<Rightarrow> e3
         | Some (rtcp_ip, rtcp_port) \<Rightarrow>
             let (added, media') =
                   tracker_register_rtcp rtcp_ip rtcp_port (sm_ip m) (sm_port m) (ml_call_id labels) (ex_media e3);
                 e4 = e3\<lparr>ex_media := media'\<rparr>
             in if added then on_filter (retain_endpoint (xc_bpf cfg) rtcp_ip rtcp_port) e4 else e4)"
    unfolding register_one_media_def Let_def reg prod.case e1_def e2_def e3_def ..
  with e3 register_rtcp_bal [OF laws e3] show ?thesis
    by (auto simp: Let_def split: option.split prod.split)
qed

lemma register_media_bal:
  assumes "bpf_laws (xc_bpf cfg) has" and "media_bal has x e"
  shows "media_bal has x (snd (register_media_endpoints cfg body labels e))"
proof -
  have "media_bal has x (foldl (\<lambda>e m. register_one_media cfg labels m e) e ms)" for ms
    using assms(2) by (induction ms arbitrary: e) (simp_all add: register_one_bal [OF assms(1)])
  then show ?thesis by (simp add: register_media_endpoints_def Let_def)
qed

lemma unregister_bal:
  assumes laws: "bpf_laws (xc_bpf cfg) has" and e: "media_bal has x e"
  shows "media_bal has x (snd (unregister_media cfg c b e))"
proof -
  obtain r deleted media where un: "tracker_unregister c (ex_media e) = ((r, deleted), media)" by (metis surj_pair)
  have "media_inv (ex_media e)" using e by (simp add: media_bal_def)
  note u = unregister_balance [OF this un]
  have bal: "refs_of (ex_filter e) key = held (hits key) media + (x key + sum_list (map (hits key) deleted))" for key
    using e u(2) [of "hits key"] by (simp add: media_bal_def)
  have "media_bal has (\<lambda>key. x key + sum_list (map (hits key) deleted)) (e\<lparr>ex_media := media\<rparr>)"
    using e u(1) bal by (simp add: media_bal_def)
  from release_all_bal [OF laws this] show ?thesis
    by (simp add: unregister_media_def Let_def un case_prod_beta)
qed

lemma replace_bal:
  assumes laws: "bpf_laws (xc_bpf cfg) has" and e: "media_bal has x e"
    and cont: "\<And>y e'. media_bal has y e' \<Longrightarrow> media_bal has y (register_next e')"
  shows "media_bal has x (replace_media_revision cfg c register_next e)"
proof -
  let ?owned = "owned_endpoints c (ex_media e)"
  define y where "y = (\<lambda>key. x key + sum_list (map (hits key) ?owned))"
  define e1 where "e1 = retain_all cfg ?owned e"
  have e1: "media_bal has y e1" unfolding y_def e1_def by (rule retain_all_bal [OF laws e])
  obtain deleted media where rem: "tracker_replace c (ex_media e1) = (deleted, media)" by force
  have "media_inv (ex_media e1)" using e1 by (simp add: media_bal_def)
  note u = remove_call_balance [OF this rem [unfolded tracker_replace_def]]
  have bal: "refs_of (ex_filter e1) key = held (hits key) media + (y key + sum_list (map (hits key) deleted))" for key
    using e1 u(2) [of "hits key"] by (simp add: media_bal_def)
  have "media_bal has (\<lambda>key. y key + sum_list (map (hits key) deleted)) (e1\<lparr>ex_media := media\<rparr>)"
    using e1 u(1) bal by (simp add: media_bal_def)
  note release_all_bal [OF laws this]
  then have "media_bal has y (let (aliases, e3) = release_rtp_aliases c deleted (release_all cfg deleted (e1\<lparr>ex_media := media\<rparr>))
      in emit_alias_released aliases e3)"
    by (simp add: case_prod_beta)
  from release_all_bal [OF laws cont [OF this, unfolded y_def]] show ?thesis
    by (simp add: replace_media_revision_def Let_def e1_def [symmetric] rem case_prod_beta)
qed

lemma learn_alias_bal:
  assumes laws: "bpf_laws (xc_bpf cfg) has" and e: "media_inv (ex_media e)" "filter_inv has (ex_filter e)"
    and bal: "\<And>key. refs_of (ex_filter e) key + (case or_learned_endpoint res of None \<Rightarrow> 0 | Some ep \<Rightarrow> hits key ep) =
      held (hits key) (ex_media e) + x key"
  shows "media_bal has x (learn_alias cfg res e)"
proof (cases "or_learned_endpoint res")
  case None
  with e bal show ?thesis by (simp add: learn_alias_def media_bal_def)
next
  case (Some ep)
  let ?e = "on_filter (retain_endpoint (xc_bpf cfg) (me_ip ep) (me_port ep)) e"
  have "media_bal has x ?e"
    using e bal Some laws by (simp add: media_bal_def on_filter_def retain_refs_hits retain_inv)
  moreover have "media_view (learn_alias cfg res e) = media_view ?e"
    by (simp add: learn_alias_def Some Let_def views)
  ultimately show ?thesis using media_bal_view by blast
qed

section \<open>The handlers keep media balanced\<close>

lemma media_bal_updates [simp]:
  "media_bal has x (e\<lparr>ex_calls := c\<rparr>) = media_bal has x e"
  "media_bal has x (e\<lparr>ex_dialogs := d\<rparr>) = media_bal has x e"
  "media_bal has x (e\<lparr>ex_scan := s\<rparr>) = media_bal has x e"
  "media_bal has x (e\<lparr>ex_burst := b\<rparr>) = media_bal has x e"
  "media_bal has x (e\<lparr>ex_fas := a\<rparr>) = media_bal has x e"
  "media_bal has x (handle_request cfg px carrier ua country direction p e) = media_bal has x e"
  "media_bal has x (snd (handle_invite_response px carrier ua country direction p e)) = media_bal has x e"
  "media_bal has x (finalize_fas cid now e) = media_bal has x e"
  "media_bal has x (handle_register_200ok px carrier ua country direction p e) = media_bal has x e"
  "media_bal has x (handle_register_non200_response px l p e) = media_bal has x e"
  by (rule media_bal_view, simp add: views)+

lemma call_media_bal:
  assumes laws: "bpf_laws (xc_bpf cfg) has" and e: "media_bal has x e"
  shows "media_bal has x (snd (register_call_media cfg p labels reinvite offer e))"
proof -
  have rep: "media_bal has x (replace_media_revision cfg c (\<lambda>e. snd (register_media_endpoints cfg body' labels e)) e)"
    "media_bal has x (replace_media_revision cfg c
      (\<lambda>e. snd (register_media_endpoints cfg body labels (snd (register_media_endpoints cfg body' labels e)))) e)"
    for c body body'
    by (rule replace_bal [OF laws e], simp add: register_media_bal [OF laws])+
  show ?thesis
    unfolding register_call_media_def Let_def case_prod_beta
    by (cases "offer = None"; cases reinvite; cases "is_sdp_content_type (pk_content_type p)")
      (simp_all add: e rep register_media_bal [OF laws])
qed

lemma invite_200ok_bal:
  assumes laws: "bpf_laws (xc_bpf cfg) has" and e: "media_bal has x e"
  shows "media_bal has x (handle_invite_200ok cfg px carrier ua country direction p reinvite e)"
  unfolding handle_invite_200ok_def Let_def case_prod_beta
  by (simp add: e call_media_bal [OF laws] split: option.split)

lemma bye_200ok_bal:
  assumes laws: "bpf_laws (xc_bpf cfg) has" and e: "media_bal has x e"
  shows "media_bal has x (handle_bye_200ok cfg px p e)"
  unfolding handle_bye_200ok_def Let_def case_prod_beta
  by (auto simp: e unregister_bal [OF laws] split: option.split)

lemma ok_response_bal:
  assumes "bpf_laws (xc_bpf cfg) has" and "media_bal has x e"
  shows "media_bal has x (handle_200ok_response cfg px carrier ua country direction p reg reinvite e)"
  unfolding handle_200ok_response_def Let_def by (simp add: invite_200ok_bal bye_200ok_bal assms)

lemma handle_response_bal:
  assumes laws: "bpf_laws (xc_bpf cfg) has" and e: "media_bal has x e"
  shows "media_bal has x (handle_response cfg px carrier ua country direction p e)"
  unfolding handle_response_def Let_def case_prod_beta
  by (auto simp: e ok_response_bal [OF laws] split: option.split)

lemma handle_message_bal:
  assumes "bpf_laws (xc_bpf cfg) has" and "media_bal has x e"
    and "handle_message cfg px carrier country raw e = Some (Inr e')"
  shows "media_bal has x e'"
  using assms by (auto simp: handle_message_def Let_def handle_response_bal split: option.splits sum.splits if_splits)

lemma report_block_bal:
  assumes "media_bal has x e"
  shows "media_bal has x (handle_report_block now ntp d k b e)"
proof -
  obtain r media where rec: "record_rtcp_ipv4 (rb_ssrc b) (rb_cumulative_lost b) (dg_src_ip d) (dg_src_port d)
      (dg_dst_ip d) (dg_dst_port d) now (ex_media e) = (r, media)" by force
  have "media_inv (ex_media e)" using assms by (simp add: media_bal_def)
  note b = record_rtcp_balance [OF this]
  have "media = snd (record_rtcp_keys (rb_ssrc b) (rb_cumulative_lost b) (new_ipv4_endpoint_key (dg_src_ip d) (dg_src_port d))
      (new_ipv4_endpoint_key (dg_dst_ip d) (dg_dst_port d)) now (ex_media e))"
    using rec by (simp add: record_rtcp_ipv4_def)
  then have "media_bal has x (e\<lparr>ex_media := media\<rparr>)" using assms b by (simp add: media_bal_def)
  then show ?thesis by (simp add: handle_report_block_def Let_def rec split: option.split prod.split)
qed

lemma handle_rtcp_bal:
  assumes "media_bal has x e" and "handle_rtcp px d e = Some e'"
  shows "media_bal has x e'"
proof -
  have blocks: "media_bal has x (foldl (\<lambda>e b. handle_report_block now ntp d k b e) e bs)"
    if "media_bal has x e" for now ntp k bs and e :: "'a exporter"
    using that by (induction bs arbitrary: e) (simp_all add: report_block_bal)
  have reports: "media_bal has x (foldl (\<lambda>e rep. handle_rtcp_report now ntp d rep e) e rs)"
    if "media_bal has x e" for now ntp rs and e :: "'a exporter"
    using that by (induction rs arbitrary: e) (simp_all add: handle_rtcp_report_def blocks)
  from assms show ?thesis
    by (auto simp: handle_rtcp_def Let_def reports split: Option.bind_splits prod.splits)
qed

lemma rtp_handle_view [views]: "media_view (rtp_metric_handle l c e) = media_view e"
  "session_view (rtp_metric_handle l c e) = session_view e"
  by (simp_all add: rtp_metric_handle_def views)

lemma count_rtp_views [views]: "media_view (count_rtp res e) = media_view e"
  "session_view (count_rtp res e) = session_view e"
  by (simp_all add: count_rtp_def Let_def views)

lemma learn_alias_session [views]: "session_view (learn_alias cfg res e) = session_view e"
  by (simp add: learn_alias_def Let_def views split: option.split)

lemma handle_rtp_bal:
  assumes laws: "bpf_laws (xc_bpf cfg) has" and e: "media_bal has x e" and rtp: "handle_rtp cfg px d e = Some e'"
  shows "media_bal has x e'"
proof -
  obtain hd where hd: "parse_header (dg_payload d) = Some hd"
    using rtp by (auto simp: handle_rtp_def split: Option.bind_splits)
  show ?thesis
  proof (cases hd)
    case (Inl err)
    with hd rtp e show ?thesis by (simp add: handle_rtp_def)
  next
    case (Inr h)
    let ?missing = "is_zero_time (px_timestamp px)"
    let ?arrival = "if ?missing then px_now px else px_timestamp px"
    define e1 where "e1 = (if ?missing then emit [MRTPKernelTimestampMissing] e else e)"
    have e1: "media_bal has x e1" using e by (simp add: e1_def)
    obtain r media where obs: "tracker_observe_ipv4 (dg_src_ip d) (dg_src_port d) (dg_dst_ip d) (dg_dst_port d)
        h ?arrival (ex_media e1) = (r, media)" by force
    define e2 where "e2 = e1\<lparr>ex_media := media\<rparr>"
    have "media_inv (ex_media e1)" using e1 by (simp add: media_bal_def)
    note b = observe_balance [OF this obs [unfolded tracker_observe_ipv4_def]]
    have "\<exists>evs. handle_rtp cfg px d e =
        (if max_static_payload_type < h_payload_type h \<and> h_payload_type h < min_dynamic_payload_type then Some e
         else case r of None \<Rightarrow> Some e2
           | Some res \<Rightarrow> Some (emit (evs res)
               (if or_counted res then count_rtp res (learn_alias cfg res e2) else learn_alias cfg res e2)))"
      unfolding handle_rtp_def hd Inr bind.simps sum.case Let_def e1_def [symmetric] obs prod.case e2_def [symmetric]
      by (rule exI) (rule refl)
    then obtain evs where eq: "handle_rtp cfg px d e =
        (if max_static_payload_type < h_payload_type h \<and> h_payload_type h < min_dynamic_payload_type then Some e
         else case r of None \<Rightarrow> Some e2
           | Some res \<Rightarrow> Some (emit (evs res)
               (if or_counted res then count_rtp res (learn_alias cfg res e2) else learn_alias cfg res e2)))" ..
    have plain: "media_bal has x e2" if "r = None" using e1 b that by (simp add: e2_def media_bal_def)
    have learnt: "media_bal has x (learn_alias cfg res e2)" if "r = Some res" for res
    proof (rule learn_alias_bal [OF laws])
      show "media_inv (ex_media e2)" "filter_inv has (ex_filter e2)"
        using e1 b by (simp_all add: e2_def media_bal_def)
      show "refs_of (ex_filter e2) key + (case or_learned_endpoint res of None \<Rightarrow> 0 | Some ep \<Rightarrow> hits key ep) =
          held (hits key) (ex_media e2) + x key" for key
        using e1 b(2) [of "hits key"] that by (simp add: e2_def media_bal_def)
    qed
    have count: "media_bal has x (count_rtp res e3) = media_bal has x e3" for res e3
      by (rule media_bal_view) (simp add: views)
    show ?thesis using rtp [unfolded eq] e plain learnt count
      by (auto split: if_splits option.splits)
  qed
qed

lemma parse_raw_packet_bal:
  assumes laws: "bpf_laws (xc_bpf cfg) has" and e: "media_bal has x e"
    and pkt: "parse_raw_packet cfg px packet e = Some (r, e')"
  shows "media_bal has x e'"
proof -
  obtain frame where fr: "parse_frame packet = Some frame"
    using pkt by (auto simp: parse_raw_packet_def split: Option.bind_splits)
  show ?thesis
  proof (cases frame)
    case (Inl err)
    with fr pkt e show ?thesis by (simp add: parse_raw_packet_def)
  next
    case (Inr d)
    note pkt' = pkt [unfolded parse_raw_packet_def fr Inr, simplified]
    show ?thesis
    proof (cases "is_rtp_version (dg_payload d)")
      case True
      with pkt' have "handle_rtcp px d e = Some e' \<or> handle_rtp cfg px d e = Some e'"
        by (auto split: if_splits)
      with e show ?thesis using handle_rtcp_bal handle_rtp_bal [OF laws] by blast
    next
      case False
      with pkt' show ?thesis
        using e by (auto simp: Let_def split: if_splits prod.splits option.splits sum.splits
            intro: handle_message_bal [OF laws])
    qed
  qed
qed

lemma reconcile_bal:
  assumes "bpf_laws (xc_bpf cfg) has" and "media_bal has x e"
  shows "media_bal has x (on_filter (reconcile_endpoints (xc_bpf cfg)) e)"
  using assms by (simp add: media_bal_def on_filter_def reconcile_inv)

lemma expire_dialogs_bal:
  assumes laws: "bpf_laws (xc_bpf cfg) has"
  shows "media_bal has x e \<Longrightarrow> media_bal has x (snd (expire_dialogs cfg now rs e))"
proof (induction rs arbitrary: e)
  case (Cons r rs)
  let ?e = "on_fas (fas_clear (cr_call_id r)) (on_calls (close_invite_transactions (cr_call_id r) now) e)"
  have "media_bal has x (snd (unregister_media cfg (cr_call_id r) False ?e))"
    using Cons.prems by (intro unregister_bal [OF laws]) simp
  from Cons.IH [OF this] show ?case by (simp add: Let_def case_prod_beta)
qed simp

lemma sweep_fas_views [views]: "media_view (sweep_fas now e) = media_view e"
  "session_view (sweep_fas now e) = session_view e"
  by (simp_all add: sweep_fas_def case_prod_beta views split: option.split)

lemma tracker_update_bal:
  assumes "media_bal has x e"
  shows "media_bal has x (e\<lparr>ex_media := tracker_cleanup now (ex_media e)\<rparr>)"
    and "media_bal has x (e\<lparr>ex_media := snd (tracker_snapshot (ex_media e))\<rparr>)"
  using assms by (simp_all add: media_bal_def cleanup_balance snapshot_balance)

lemma update_rtp_metrics_bal: "media_bal has x e \<Longrightarrow> media_bal has x (update_rtp_metrics e)"
  using tracker_update_bal(2) [of has x e] by (simp add: update_rtp_metrics_def Let_def case_prod_beta)

lemma tick_bal:
  assumes laws: "bpf_laws (xc_bpf cfg) has" and e: "media_bal has x e"
  shows "media_bal has x (dialog_metrics_tick cfg now e)"
proof -
  have sw: "media_bal has x (sweep_fas now e') = media_bal has x e'" for e'
    by (rule media_bal_view) (simp add: views)
  have sz: "media_bal has x (update_tracker_sizes e') = media_bal has x e'" for e'
    by (simp add: update_tracker_sizes_def)
  have "media_bal has x (snd (cleanup_expired_dialogs cfg now e))"
    unfolding cleanup_expired_dialogs_def case_prod_beta Let_def
    by (rule expire_dialogs_bal [OF laws]) (simp add: e)
  then show ?thesis
    unfolding dialog_metrics_tick_def Let_def case_prod_beta
    by (simp add: sw sz update_rtp_metrics_bal reconcile_bal [OF laws] tracker_update_bal)
qed

section \<open>Sessions\<close>

definition answered :: "metric_event list \<Rightarrow> nat" where
  "answered evs = length (filter is_answer evs)"

definition completed :: "metric_event list \<Rightarrow> nat" where
  "completed evs = length (filter is_completion evs)"

definition sampled :: "metric_event list \<Rightarrow> nat" where
  "sampled evs = length (filter is_sample evs)"

definition direct_writes :: "metric_event list \<Rightarrow> nat" where
  "direct_writes evs = length (filter is_session_write evs)"

lemma session_counts [simp]:
  "answered (session_trace evs) = answered evs" "completed (session_trace evs) = completed evs"
  "sampled (session_trace evs) = sampled evs" "direct_writes (session_trace evs) = direct_writes evs"
  unfolding answered_def completed_def sampled_def direct_writes_def session_trace_def filter_filter
  by (rule arg_cong [where f = length], rule filter_cong, simp_all, blast)+

text \<open>The invariant, as a property of the session view.\<close>

definition session_ok :: "dialogs \<times> metric_event list \<Rightarrow> bool" where
  "session_ok = (\<lambda>(d, tr). completed tr + dialog_size d \<le> answered tr \<and> sampled tr = completed tr \<and>
     direct_writes tr = 0)"

lemma register_one_session [views]: "session_view (register_one_media cfg labels m e) = session_view e"
  by (simp add: register_one_media_def Let_def case_prod_beta views split: option.split)

lemma register_media_session [views]: "session_view (snd (register_media_endpoints cfg body labels e)) = session_view e"
proof -
  have "session_view (foldl (\<lambda>e m. register_one_media cfg labels m e) e ms) = session_view e" for ms
    by (induction ms arbitrary: e) (simp_all add: views)
  then show ?thesis by (simp add: register_media_endpoints_def Let_def)
qed

lemma media_list_session [views]:
  "session_view (retain_all cfg eps e) = session_view e" "session_view (release_all cfg eps e) = session_view e"
  by (simp_all add: retain_all_def release_all_def views)

lemma unregister_session [views]: "session_view (snd (unregister_media cfg c b e)) = session_view e"
  by (simp add: unregister_media_def Let_def case_prod_beta views)

lemma replace_session:
  "(\<And>e'. session_view (f e') = session_view e') \<Longrightarrow> session_view (replace_media_revision cfg c f e) = session_view e"
  by (simp add: replace_media_revision_def Let_def case_prod_beta views)

lemma call_media_session [views]:
  "session_view (snd (register_call_media cfg p labels reinvite offer e)) = session_view e"
proof -
  have "session_view (replace_media_revision cfg c (\<lambda>e. snd (register_media_endpoints cfg body' labels e)) e) = session_view e"
    "session_view (replace_media_revision cfg c
      (\<lambda>e. snd (register_media_endpoints cfg body labels (snd (register_media_endpoints cfg body' labels e)))) e) = session_view e"
    for c body body'
    by (rule replace_session, simp add: views)+
  then show ?thesis
    unfolding register_call_media_def Let_def case_prod_beta
    by (cases "offer = None"; cases reinvite; cases "is_sdp_content_type (pk_content_type p)") (simp_all add: views)
qed

lemma dialog_create_size: "dialog_size (dialog_create p d) \<le> Suc (dialog_size d)"
  by (simp add: dialog_create_def dialog_size_def length_mput_le)

lemma dialog_refresh_size: "dialog_size (snd (dialog_refresh did t d)) = dialog_size d"
  by (simp add: dialog_refresh_def dialog_size_def length_mput split: option.split)

lemma dialog_delete_size:
  "dialog_size (snd (dialog_delete did now d)) + (if 0 < cr_duration (fst (dialog_delete did now d)) then 1 else 0) \<le> dialog_size d"
proof (cases "mget d did")
  case (Some e)
  then have "(did, e) \<in> set d" by (rule map_of_SomeD)
  then have "length (mdel did d) < length d"
    unfolding AList.delete_eq by (intro length_filter_less [of "(did, e)"]) auto
  with Some show ?thesis by (simp add: dialog_delete_def dialog_size_def Let_def)
qed (simp add: dialog_delete_def zero_cleanup_def)

lemma dialog_cleanup_size: "length (fst (dialog_cleanup now d)) + dialog_size (snd (dialog_cleanup now d)) \<le> dialog_size d"
proof -
  have "length (fst (dialog_cleanup_walk now d)) + length (snd (dialog_cleanup_walk now d)) \<le> length d"
    by (induction d) (auto simp: Let_def case_prod_beta)
  then show ?thesis by (simp add: dialog_cleanup_def dialog_size_def)
qed

lemma invite_200ok_session:
  obtains d where "session_view (handle_invite_200ok cfg px carrier ua country direction p reinvite e) = (d, snd (session_view e))"
    and "dialog_size d \<le> dialog_size (fst (session_view e)) + (if reinvite then 0 else 1)"
proof -
  let ?v = "session_view (handle_invite_200ok cfg px carrier ua country direction p reinvite e)"
  have dlg: "session_view (e'\<lparr>ex_dialogs := d\<rparr>) = (d, snd (session_view e'))" for e' :: "'a exporter" and d
    by (simp add: session_view_def)
  have "fst ?v = ex_dialogs e \<or> (\<exists>did t. fst ?v = snd (dialog_refresh did t (ex_dialogs e))) \<or>
      (\<not> reinvite \<and> (\<exists>dp. fst ?v = dialog_create dp (ex_dialogs e)))" "snd ?v = snd (session_view e)"
    unfolding handle_invite_200ok_def Let_def case_prod_beta
    by (auto simp: views dlg session_view_def [of e] split: option.split)
  then show thesis
    using that [of "fst ?v"] dialog_create_size [of _ "ex_dialogs e"] dialog_refresh_size [of _ _ "ex_dialogs e"]
    by (auto simp: prod_eq_iff session_view_def [of e])
qed

lemma counts_simps [simp]:
  "answered [] = 0" "completed [] = 0" "sampled [] = 0" "direct_writes [] = 0"
  "answered (ev # evs) = (if is_answer ev then 1 else 0) + answered evs"
  "completed (ev # evs) = (if is_completion ev then 1 else 0) + completed evs"
  "sampled (ev # evs) = (if is_sample ev then 1 else 0) + sampled evs"
  "answered (xs @ ys) = answered xs + answered ys" "completed (xs @ ys) = completed xs + completed ys"
  "sampled (xs @ ys) = sampled xs + sampled ys"
  "direct_writes (ev # evs) = (if is_session_write ev then 1 else 0) + direct_writes evs"
  "direct_writes (xs @ ys) = direct_writes xs + direct_writes ys"
  by (simp_all add: answered_def completed_def sampled_def direct_writes_def)

text \<open>The INVITE that creates a dialog was counted as answered just before.\<close>

lemma invite_answer_ok:
  assumes "session_ok (session_view e)"
  shows "session_ok (session_view (handle_invite_200ok cfg px carrier ua country direction p reinvite
    (if \<not> reinvite then emit [MInvite200OK l i] e else e)))"
proof -
  let ?e = "if \<not> reinvite then emit [MInvite200OK l i] e else e"
  obtain d where "session_view (handle_invite_200ok cfg px carrier ua country direction p reinvite ?e) =
      (d, snd (session_view ?e))" "dialog_size d \<le> dialog_size (fst (session_view ?e)) + (if reinvite then 0 else 1)"
    by (rule invite_200ok_session)
  with assms show ?thesis
    by (cases reinvite) (auto simp: session_ok_def case_prod_beta views)
qed

lemma bye_200ok_session:
  assumes "session_ok (session_view e)"
  shows "session_ok (session_view (handle_bye_200ok cfg px p e))"
proof (cases "normalize_dialog_id (pk_call_id p) (sp_tag (pk_from p)) (sp_tag (pk_to p))")
  case None
  with assms show ?thesis by (simp add: handle_bye_200ok_def)
next
  case (Some did)
  let ?del = "dialog_delete did (px_now px) (ex_dialogs e)"
  let ?r = "fst ?del" let ?l = "session_end_labels ?r"
  let ?fin = "if 0 < cr_duration ?r then [MUpdateSPD ?l (cr_duration ?r), MSessionCompleted ?l] else []"
  have dlg: "session_view (e'\<lparr>ex_dialogs := d\<rparr>) = (d, snd (session_view e'))" for e' :: "'a exporter" and d
    by (simp add: session_view_def)
  have "session_view (handle_bye_200ok cfg px p e) = (snd ?del, snd (session_view e) @ ?fin)"
    unfolding handle_bye_200ok_def Some option.case Let_def case_prod_beta
    by (simp add: views dlg split: option.split)
  moreover have "fst (session_view e) = ex_dialogs e" by (simp add: session_view_def)
  ultimately show ?thesis
    using assms dialog_delete_size [of did "px_now px" "ex_dialogs e"]
    by (auto simp: session_ok_def case_prod_beta)
qed

lemma ok_response_session:
  assumes "session_ok (session_view e)"
  shows "session_ok (session_view (handle_200ok_response cfg px carrier ua country direction p reg reinvite e))"
proof -
  define e1 where "e1 = (if pk_cseq_method p = ''INVITE''
                then handle_invite_200ok cfg px carrier ua country direction p reinvite
                  (if \<not> reinvite
                   then emit [MInvite200OK (labels_of carrier ua country direction) (invite_labels_of cfg px p)] e else e)
                else e)"
  define e2 where "e2 = (if pk_cseq_method p = ''BYE'' then handle_bye_200ok cfg px p e1 else e1)"
  have "session_ok (session_view e1)"
    unfolding e1_def by (cases "pk_cseq_method p = ''INVITE''")
      (simp_all only: simp_thms if_True if_False assms invite_answer_ok [OF assms])
  then have "session_ok (session_view e2)" by (simp add: e2_def bye_200ok_session)
  then show ?thesis
    unfolding handle_200ok_response_def Let_def e1_def [symmetric] e2_def [symmetric] by (simp add: views)
qed

lemma handle_response_session:
  assumes "session_ok (session_view e)"
  shows "session_ok (session_view (handle_response cfg px carrier ua country direction p e))"
proof -
  have quiet: "session_ok (session_view (emit [MUpdateORD l x] e')) = session_ok (session_view e')"
    "session_ok (session_view (emit [MResponseWithMetrics l s b b'] e')) = session_ok (session_view e')"
    for e' :: "'a exporter" and l x s b b'
    by (simp_all add: views)
  show ?thesis
    unfolding handle_response_def Let_def case_prod_beta
    by (auto simp: assms ok_response_session quiet views split: option.split)
qed

lemma handle_message_session:
  assumes "session_ok (session_view e)" and "handle_message cfg px carrier country raw e = Some (Inr e')"
  shows "session_ok (session_view e')"
  using assms by (auto simp: handle_message_def Let_def handle_response_session views
      split: option.splits sum.splits if_splits)

lemma report_block_session [views]: "session_view (handle_report_block now ntp d k b e) = session_view e"
  by (simp add: handle_report_block_def Let_def case_prod_beta report_block_events_def views split: option.split)

lemma handle_rtcp_session:
  assumes "handle_rtcp px d e = Some e'"
  shows "session_view e' = session_view e"
proof -
  have blocks: "session_view (foldl (\<lambda>e b. handle_report_block now ntp d k b e) e bs) = session_view e"
    for now ntp k bs and e :: "'a exporter"
    by (induction bs arbitrary: e) (simp_all add: views)
  have reports: "session_view (foldl (\<lambda>e rep. handle_rtcp_report now ntp d rep e) e rs) = session_view e"
    for now ntp rs and e :: "'a exporter"
    by (induction rs arbitrary: e) (simp_all add: handle_rtcp_report_def blocks)
  from assms show ?thesis
    by (auto simp: handle_rtcp_def Let_def reports views split: Option.bind_splits prod.splits)
qed

lemma handle_rtp_session:
  assumes "handle_rtp cfg px d e = Some e'"
  shows "session_view e' = session_view e"
  using assms unfolding handle_rtp_def Let_def case_prod_beta
  by (auto simp: views split: Option.bind_splits sum.splits if_splits option.splits)

lemma parse_raw_packet_session:
  assumes "session_ok (session_view e)" and "parse_raw_packet cfg px packet e = Some (r, e')"
  shows "session_ok (session_view e')"
proof -
  obtain frame where fr: "parse_frame packet = Some frame"
    using assms(2) by (auto simp: parse_raw_packet_def split: Option.bind_splits)
  show ?thesis
  proof (cases frame)
    case (Inl err)
    with fr assms show ?thesis by (simp add: parse_raw_packet_def)
  next
    case (Inr d)
    note pkt = assms(2) [unfolded parse_raw_packet_def fr Inr, simplified]
    show ?thesis
    proof (cases "is_rtp_version (dg_payload d)")
      case True
      with pkt have "handle_rtcp px d e = Some e' \<or> handle_rtp cfg px d e = Some e'" by (auto split: if_splits)
      with assms(1) show ?thesis using handle_rtcp_session handle_rtp_session by metis
    next
      case False
      with pkt show ?thesis
        using assms(1) by (auto simp: Let_def split: if_splits prod.splits option.splits sum.splits
            intro: handle_message_session)
    qed
  qed
qed

lemma expire_dialogs_session:
  "session_view (snd (expire_dialogs cfg now rs e)) = session_view e"
  "length (fst (expire_dialogs cfg now rs e)) = length rs"
  by (induction rs arbitrary: e) (simp_all add: Let_def case_prod_beta views)

lemma expired_events_counts:
  "answered (concat (map expired_events rs)) = 0" "completed (concat (map expired_events rs)) = length rs"
  "sampled (concat (map expired_events rs)) = length rs" "direct_writes (concat (map expired_events rs)) = 0"
proof -
  have "session_trace (expired_events r) = [MSessionCompleted (session_end_labels (ed_cleanup r)),
      MUpdateSPD (session_end_labels (ed_cleanup r)) (cr_duration (ed_cleanup r))]" for r
    by (simp add: expired_events_def Let_def views)
  then have one: "answered (expired_events r) = 0" "completed (expired_events r) = 1" "sampled (expired_events r) = 1"
    "direct_writes (expired_events r) = 0" for r
    using session_counts [of "expired_events r"] by simp_all
  then show "answered (concat (map expired_events rs)) = 0" "completed (concat (map expired_events rs)) = length rs"
    "sampled (concat (map expired_events rs)) = length rs" "direct_writes (concat (map expired_events rs)) = 0"
    by (induction rs) simp_all
qed

lemma quiet_metrics [views]:
  "session_view (update_tracker_sizes e) = session_view e"
  "session_view (update_rtp_metrics e) = session_view e"
proof -
  show "session_view (update_tracker_sizes e) = session_view e" by (simp add: update_tracker_sizes_def views)
  have "session_trace (concat (map stats_events ss)) = []" for ss
    by (induction ss) (simp_all add: stats_events_def Let_def)
  then show "session_view (update_rtp_metrics e) = session_view e"
    by (simp add: update_rtp_metrics_def Let_def case_prod_beta views)
qed

lemma tick_session:
  assumes "session_ok (session_view e)"
  shows "session_ok (session_view (dialog_metrics_tick cfg now e))"
proof -
  let ?cl = "dialog_cleanup now (ex_dialogs e)"
  obtain expired e1 where ex: "expire_dialogs cfg now (fst ?cl) (e\<lparr>ex_dialogs := snd ?cl\<rparr>) = (expired, e1)" by force
  have e1: "session_view e1 = (snd ?cl, snd (session_view e))" "length expired = length (fst ?cl)"
    using expire_dialogs_session [of cfg now "fst ?cl" "e\<lparr>ex_dialogs := snd ?cl\<rparr>"] ex
    by (simp_all add: session_view_def)
  have "session_view (dialog_metrics_tick cfg now e) =
      (fst (session_view e1), snd (session_view e1) @ session_trace (concat (map expired_events expired)))"
    unfolding dialog_metrics_tick_def cleanup_expired_dialogs_def case_prod_beta Let_def
    by (simp add: ex views)
  moreover have "fst (session_view e) = ex_dialogs e" by (simp add: session_view_def)
  ultimately show ?thesis
    using assms dialog_cleanup_size [of now "ex_dialogs e"]
    by (simp add: session_ok_def case_prod_beta e1 expired_events_counts)
qed

end
