(* ===== verification/Exporter_Properties.thy ===== *)
theory Exporter_Properties
  imports Exporter_Invariant Frame_Properties
begin

text \<open>
  Properties of the running exporter.  Its steps are the packets, each with the context and the clock
  reading it was taken with, and the periodic updates, in any order; a packet that makes a handler panic has
  no step.
\<close>

section \<open>Reachable states\<close>

inductive exporter_step :: "'m exporter_config \<Rightarrow> 'm exporter \<Rightarrow> 'm exporter \<Rightarrow> bool" for cfg where
  packet: "process_frame cfg px frame e = Some e' \<Longrightarrow> exporter_step cfg e e'"
| tick: "exporter_step cfg e (dialog_metrics_tick cfg now e)"

inductive reachable :: "'m exporter_config \<Rightarrow> 'm exporter \<Rightarrow> 'm exporter \<Rightarrow> bool" for cfg start where
  init: "reachable cfg start start"
| step: "reachable cfg start e \<Longrightarrow> exporter_step cfg e e' \<Longrightarrow> reachable cfg start e'"

text \<open>Counting a parse error touches neither the media nor the sessions.\<close>

lemma process_frame_parse:
  assumes "process_frame cfg px frame e = Some e'"
  shows "\<exists>r e1. parse_raw_packet cfg px frame e = Some (r, e1) \<and> media_view e' = media_view e1 \<and>
    session_view e' = session_view e1"
  using assms by (auto simp: process_frame_def views split: option.splits)

lemma reachable_media:
  assumes "bpf_laws (xc_bpf cfg) has" and "reachable cfg start e" and "media_bal has x start"
  shows "media_bal has x e"
  using assms(2)
proof induction
  case (step e e')
  from step.hyps(2) show ?case
  proof (cases rule: exporter_step.cases)
    case (packet px frame)
    then obtain r e1 where "parse_raw_packet cfg px frame e = Some (r, e1)" "media_view e' = media_view e1"
      using process_frame_parse by blast
    then show ?thesis using parse_raw_packet_bal [OF assms(1) step.IH] media_bal_view by metis
  next
    case (tick now)
    then show ?thesis by (simp add: tick_bal [OF assms(1) step.IH])
  qed
qed (rule assms(3))

lemma reachable_session:
  assumes "reachable cfg start e" and "session_ok (session_view start)"
  shows "session_ok (session_view e)"
  using assms(1)
proof induction
  case (step e e')
  from step.hyps(2) show ?case
  proof (cases rule: exporter_step.cases)
    case (packet px frame)
    then obtain r e1 where "parse_raw_packet cfg px frame e = Some (r, e1)" "session_view e' = session_view e1"
      using process_frame_parse by blast
    then show ?thesis using parse_raw_packet_session [OF step.IH] by metis
  next
    case (tick now)
    then show ?thesis by (simp add: tick_session [OF step.IH])
  qed
qed (rule assms(2))

text \<open>The state of \<open>NewExporter\<close> with empty kernel maps.\<close>

lemma new_exporter_media:
  assumes "list_all (\<lambda>m. \<forall>k. \<not> has m k) maps"
  shows "media_bal has (\<lambda>_. 0) (new_exporter maps sl sw bl bw fl)"
proof -
  have "filter_inv has (new_filter maps)"
    using assms by (auto simp: filter_inv_def new_filter_def list_all_iff mget_or_def)
  then show ?thesis
    by (simp add: media_bal_def new_exporter_def media_inv_new held_new) (simp add: new_filter_def mget_or_def)
qed

section \<open>The kernel filter\<close>

lemma reachable_filter:
  assumes "bpf_laws (xc_bpf cfg) has" and "list_all (\<lambda>m. \<forall>k. \<not> has m k) maps"
    and "reachable cfg (new_exporter maps sl sw bl bw fl) e"
  shows "refs_of (ex_filter e) key = held (hits key) (ex_media e)"
    and "presence_ok has (fs_maps (ex_filter e)) key (mget (fs_dirty (ex_filter e)) key) (0 < held (hits key) (ex_media e))"
proof -
  have "media_bal has (\<lambda>_. 0) e"
    by (rule reachable_media [OF assms(1,3) new_exporter_media [OF assms(2)]])
  then show "refs_of (ex_filter e) key = held (hits key) (ex_media e)"
    and "presence_ok has (fs_maps (ex_filter e)) key (mget (fs_dirty (ex_filter e)) key) (0 < held (hits key) (ex_media e))"
    unfolding media_bal_def filter_inv_def by (metis add_0_right)+
qed

text \<open>A periodic update reconciles after it has released the media of the expired dialogs.\<close>

lemma expire_dialogs_up:
  assumes up: "calls_succeed (xc_bpf cfg) up"
  shows "list_all up (fs_maps (ex_filter e)) \<Longrightarrow> list_all up (fs_maps (ex_filter (snd (expire_dialogs cfg now rs e))))"
proof (induction rs arbitrary: e)
  case (Cons r rs)
  have un: "list_all up (fs_maps (ex_filter (snd (unregister_media cfg c False e'))))"
    if "list_all up (fs_maps (ex_filter e'))" for c e'
  proof -
    have "media_view (snd (unregister_media cfg c False e')) =
        media_view (release_all cfg (snd (fst (tracker_unregister c (ex_media e'))))
          (e'\<lparr>ex_media := snd (tracker_unregister c (ex_media e'))\<rparr>))"
      by (simp add: unregister_media_def Let_def case_prod_beta views)
    then have "ex_filter (snd (unregister_media cfg c False e')) =
        foldl (\<lambda>f ep. release_endpoint (xc_bpf cfg) (me_ip ep) (me_port ep) f) (ex_filter e')
          (snd (fst (tracker_unregister c (ex_media e'))))"
      by (simp add: media_view_def release_all_def on_filter_def)
    with that show ?thesis by (simp add: release_list_up [OF up])
  qed
  let ?e = "on_fas (fas_clear (cr_call_id r)) (on_calls (close_invite_transactions (cr_call_id r) now) e)"
  have "ex_filter ?e = ex_filter e" by (simp add: on_fas_def on_calls_def)
  with Cons show ?case by (simp add: Let_def case_prod_beta un)
qed simp

lemma tick_filter:
  "ex_filter (dialog_metrics_tick cfg now e) =
     reconcile_endpoints (xc_bpf cfg) (ex_filter (snd (cleanup_expired_dialogs cfg now e)))"
proof -
  have "ex_filter (sweep_fas now e') = ex_filter e'" for e' :: "'a exporter"
    by (simp add: sweep_fas_def emit_def case_prod_beta split: option.split)
  then show ?thesis
    by (simp add: dialog_metrics_tick_def Let_def case_prod_beta update_rtp_metrics_def update_tracker_sizes_def
        emit_def on_calls_def on_filter_def)
qed

lemma tick_clean:
  assumes "calls_succeed (xc_bpf cfg) up" and "list_all up (fs_maps (ex_filter e))"
  shows "mget (fs_dirty (ex_filter (dialog_metrics_tick cfg now e))) key = None"
  unfolding tick_filter
proof (rule reconcile_clean [OF assms(1)])
  show "list_all up (fs_maps (ex_filter (snd (cleanup_expired_dialogs cfg now e))))"
    using assms(2) by (simp add: cleanup_expired_dialogs_def case_prod_beta Let_def expire_dialogs_up [OF assms(1)])
qed

text \<open>
  C1: in every reachable state, whatever packets came and whichever kernel calls failed, the reference count
  of a filter key is the number of endpoints the media tracker holds for it: endpoints of live calls, their
  RTCP endpoints and the aliases learned.  So a key that awaits no retry is in every kernel map exactly while
  a call holds an endpoint of it, and no endpoint outlives its call.
\<close>

theorem filter_matches_calls:
  assumes "bpf_laws (xc_bpf cfg) has" and "list_all (\<lambda>m. \<forall>k. \<not> has m k) maps"
    and "reachable cfg (new_exporter maps sl sw bl bw fl) e"
  shows "refs_of (ex_filter e) key = held (hits key) (ex_media e) \<and>
    presence_ok has (fs_maps (ex_filter e)) key (mget (fs_dirty (ex_filter e)) key) (0 < held (hits key) (ex_media e))"
  using reachable_filter [OF assms] by blast

text \<open>
  C10: recovery.  If from some moment on the kernel calls succeed, then after the next periodic update every
  kernel map has exactly the keys for which a call holds an endpoint, whatever failed before.
\<close>

theorem filter_recovers:
  assumes "bpf_laws (xc_bpf cfg) has" and "list_all (\<lambda>m. \<forall>k. \<not> has m k) maps"
    and "reachable cfg (new_exporter maps sl sw bl bw fl) e"
    and "calls_succeed (xc_bpf cfg) up" and "list_all up (fs_maps (ex_filter e))"
  shows "let e' = dialog_metrics_tick cfg now e in
    list_all (\<lambda>m. has m key = (0 < held (hits key) (ex_media e'))) (fs_maps (ex_filter e'))"
proof -
  let ?e = "dialog_metrics_tick cfg now e"
  have "reachable cfg (new_exporter maps sl sw bl bw fl) ?e"
    using assms(3) reachable.step exporter_step.tick by metis
  then have "presence_ok has (fs_maps (ex_filter ?e)) key (mget (fs_dirty (ex_filter ?e)) key)
      (0 < held (hits key) (ex_media ?e))"
    by (rule reachable_filter(2) [OF assms(1,2)])
  moreover have "mget (fs_dirty (ex_filter ?e)) key = None" by (rule tick_clean [OF assms(4,5)])
  ultimately show ?thesis by (simp add: Let_def)
qed

section \<open>Sessions\<close>

text \<open>
  C2: the session counters.  At any moment the sessions completed and the dialogs still active are together
  no more than the INVITEs answered with 200, and every completed session contributed exactly one duration
  sample.
\<close>

theorem sessions_accounted:
  assumes "reachable cfg (new_exporter maps sl sw bl bw fl) e"
  shows "completed (ex_events e) + dialog_size (ex_dialogs e) \<le> answered (ex_events e) \<and>
    sampled (ex_events e) = completed (ex_events e)"
proof -
  have "session_ok (session_view (new_exporter maps sl sw bl bw fl))"
    by (simp add: session_ok_def session_view_def new_exporter_def new_dialoger_def dialog_size_def)
  from reachable_session [OF assms this] show ?thesis by (simp add: session_ok_def session_view_def)
qed

section \<open>No panic\<close>

lemma handle_rtp_total: "handle_rtp cfg px d e \<noteq> None"
proof -
  obtain hd where hd: "parse_header (dg_payload d) = Some hd" using parse_header_total by blast
  show ?thesis
  proof (cases hd)
    case (Inr h)
    show ?thesis unfolding handle_rtp_def hd Inr bind.simps sum.case Let_def case_prod_beta
      by (simp split: option.split)
  qed (simp add: handle_rtp_def hd)
qed

definition frame_safe :: "u8 list \<Rightarrow> bool" where
  "frame_safe frame = (case parse_frame frame of
     Some (Inr d) \<Rightarrow> is_rtp_version (dg_payload d) \<or> ascii (bytes_text (dg_payload d)) | _ \<Rightarrow> True)"

lemma parse_raw_packet_no_panic:
  assumes "frame_safe frame"
  shows "parse_raw_packet cfg px frame e \<noteq> None"
proof -
  obtain r where fr: "parse_frame frame = Some r" using parse_frame_total by blast
  show ?thesis
  proof (cases r)
    case (Inr d)
    have "handle_rtcp px d e \<noteq> None"
      using rtcp_parse_total [of "dg_payload d"] by (auto simp: handle_rtcp_def Let_def)
    moreover have "handle_message cfg px' carrier country (bytes_text (dg_payload d)) e \<noteq> None"
      if "ascii (bytes_text (dg_payload d))" "is_sip_method (bytes_text (dg_payload d))" for px' carrier country
      using sip_parse_total [OF that] by (auto simp: handle_message_def Let_def split: option.split sum.split)
    ultimately show ?thesis
      using assms [unfolded frame_safe_def] handle_rtp_total [of cfg px d e]
      unfolding parse_raw_packet_def fr Inr bind.simps sum.case option.case Let_def case_prod_beta
      by (simp del: not_None_eq split: option.split sum.split) blast
  qed (simp add: fr parse_raw_packet_def)
qed


section \<open>Witnesses\<close>

text \<open>
  An exporter with two kernel maps, the second of which refuses its first call; it drops a frame that is
  too short, then updates.
\<close>

definition sample_config :: "(rtp_endpoint_key list \<times> nat) exporter_config" where
  "sample_config = \<lparr>xc_carriers = None, xc_ua = None, xc_geoip = None, xc_local_country = ''DE'', xc_host_labels = False,
     xc_parse_float = (\<lambda>_. None), xc_bpf = flaky_map\<rparr>"

definition sample_context :: packet_context where
  "sample_context = \<lparr>px_src_ip = [], px_iface = ''eth0'', px_type = 0, px_timestamp = 5, px_now = 7\<rparr>"

definition sample_start :: "(rtp_endpoint_key list \<times> nat) exporter" where
  "sample_start = new_exporter [([], 0), ([], 1)] 20 60 10 60 30"

definition sample_run :: "(rtp_endpoint_key list \<times> nat) exporter" where
  "sample_run = dialog_metrics_tick sample_config 9 (emit [MSystemError, MParseError ''l2''] sample_start)"

lemma sample_reachable: "reachable sample_config sample_start sample_run"
proof -
  have "parse_raw_packet sample_config sample_context [0, 1, 2] sample_start = Some (Some ErrL2, sample_start)"
    by (simp add: parse_raw_packet_def parse_frame_def parse_ethernet_def min_raw_packet_len_def)
  then have "process_frame sample_config sample_context [0, 1, 2] sample_start =
      Some (emit [MSystemError, MParseError ''l2''] sample_start)"
    by (simp add: process_frame_def)
  note first = exporter_step.packet [OF this]
  show ?thesis
    unfolding sample_run_def by (rule reachable.step [OF reachable.step [OF reachable.init first] exporter_step.tick])
qed

lemma flaky_map_laws: "bpf_laws flaky_map (\<lambda>m k. k \<in> set (fst m))" "calls_succeed flaky_map (\<lambda>m. snd m = 0)"
  by (auto simp: bpf_laws_def calls_succeed_def flaky_map_def case_prod_beta split: if_splits)

theorem filter_matches_calls_witness:
  "refs_of (ex_filter sample_run) \<lparr>rk_ip = 1, rk_port = 2\<rparr> = held (hits \<lparr>rk_ip = 1, rk_port = 2\<rparr>) (ex_media sample_run) \<and>
   presence_ok (\<lambda>m k. k \<in> set (fst m)) (fs_maps (ex_filter sample_run)) \<lparr>rk_ip = 1, rk_port = 2\<rparr>
     (mget (fs_dirty (ex_filter sample_run)) \<lparr>rk_ip = 1, rk_port = 2\<rparr>)
     (0 < held (hits \<lparr>rk_ip = 1, rk_port = 2\<rparr>) (ex_media sample_run))"
  by (rule filter_matches_calls [OF _ _ sample_reachable [unfolded sample_start_def]])
    (simp_all add: sample_config_def flaky_map_laws)

theorem sessions_accounted_witness:
  "completed (ex_events sample_run) + dialog_size (ex_dialogs sample_run) \<le> answered (ex_events sample_run) \<and>
   sampled (ex_events sample_run) = completed (ex_events sample_run)"
  by (rule sessions_accounted [OF sample_reachable [unfolded sample_start_def]])

theorem filter_recovers_witness:
  "let start = new_exporter [([], 0)] 20 60 10 60 30; e = dialog_metrics_tick sample_config 9 start in
   list_all (\<lambda>m. (\<lparr>rk_ip = 1, rk_port = 2\<rparr> \<in> set (fst m)) = (0 < held (hits \<lparr>rk_ip = 1, rk_port = 2\<rparr>) (ex_media e)))
     (fs_maps (ex_filter e))"
proof -
  let ?start = "new_exporter [([], 0)] 20 60 10 60 30 :: (rtp_endpoint_key list \<times> nat) exporter"
  have "list_all (\<lambda>m. snd m = 0) (fs_maps (ex_filter ?start))" by (simp add: new_exporter_def new_filter_def)
  from filter_recovers [OF _ _ reachable.init _ this, of sample_config "\<lambda>m k. k \<in> set (fst m)"] show ?thesis
    by (simp add: sample_config_def flaky_map_laws)
qed


end
