(* ===== verification/Packet_Ring.thy ===== *)
theory Packet_Ring
  imports Frame_Properties
begin

text \<open>
  The TPACKET_V3 ring (\<open>internal/exporter/packet_ring.go\<close>): the request built from a geometry, the blocks
  of the ring's memory and the frames of a block.  The sizes come from the Linux interface the code names
  (\<open>SizeofTpacket3Hdr\<close> 48, \<open>SizeofSockaddrLinklayer\<close> 20, \<open>TPACKET_ALIGNMENT\<close> 16).  \<open>binary.NativeEndian\<close>
  is little-endian, as on the platforms the program is built for.  Sums and products the code forms in
  \<open>uint64\<close> from 32-bit values cannot wrap there and are natural numbers here.
\<close>

section \<open>Constants and readers\<close>

definition block_header_len :: nat where "block_header_len = 48"
definition block_status_off :: nat where "block_status_off = 8"
definition frame_header_len :: nat where "frame_header_len = 68"
definition packet_type_off :: nat where "packet_type_off = 58"
definition frame_alignment :: u32 where "frame_alignment = 8"
definition tpacket_alignment :: u32 where "tpacket_alignment = 16"
definition max_packet_ring_bytes :: nat where "max_packet_ring_bytes = 8 * 1024 * 1024"
definition read_buf_size :: nat where "read_buf_size = 65536"

lemmas ring_consts = block_header_len_def block_status_off_def frame_header_len_def packet_type_off_def
  frame_alignment_def

lemma le32_Some: "4 \<le> length b \<Longrightarrow>
  le32 b = Some (ucast (b ! 0) OR push_bit 8 (ucast (b ! 1)) OR push_bit 16 (ucast (b ! 2)) OR push_bit 24 (ucast (b ! 3)))"
  by (auto simp: le32_def idx_def)

lemma le16_Some: "2 \<le> length b \<Longrightarrow> le16 b = Some (ucast (b ! 0) OR push_bit 8 (ucast (b ! 1)))"
  by (auto simp: le16_def idx_def)

lemma le_total: "4 \<le> length b \<Longrightarrow> \<exists>w. le32 b = Some w" "2 \<le> length b \<Longrightarrow> \<exists>v. le16 b = Some v"
  by (simp_all add: le32_Some le16_Some)

lemma le32_enc32 [simp]: "le32 (rev (enc32 w) @ xs) = Some w"
proof -
  have "be32 (enc32 w) = Some w" by simp
  then show ?thesis by (simp add: be32_Some le32_Some enc32_def or.assoc or.commute or.left_commute)
qed

lemma le16_enc16 [simp]: "le16 (rev (enc16 w) @ xs) = Some w"
proof -
  have "be16 (enc16 w) = Some w" by simp
  then show ?thesis by (simp add: be16_Some le16_Some enc16_def or.commute)
qed

section \<open>Geometry\<close>

record ring_geometry =
  rg_block_size :: u32
  rg_block_count :: u32
  rg_frame_size :: u32
  rg_retire_timeout_ms :: u32

record ring_request =
  rq_block_size :: u32
  rq_block_nr :: u32
  rq_frame_size :: u32
  rq_frame_nr :: u32
  rq_retire_blk_tov :: u32

definition default_ring_geometry :: ring_geometry where
  "default_ring_geometry =
     \<lparr>rg_block_size = 0x100000, rg_block_count = 8, rg_frame_size = 0x800, rg_retire_timeout_ms = 60\<rparr>"

text \<open>\<open>None\<close> is \<open>EINVAL\<close>.\<close>

definition ring_request_of :: "u32 \<Rightarrow> ring_geometry \<Rightarrow> ring_request option" where
  "ring_request_of page_size g =
     (if page_size = 0 \<or> rg_block_size g = 0 \<or> rg_block_size g mod page_size \<noteq> 0 then None
      else if unat (rg_frame_size g) \<le> frame_header_len \<or> rg_frame_size g mod tpacket_alignment \<noteq> 0 then None
      else if rg_block_size g mod rg_frame_size g \<noteq> 0 \<or> rg_block_count g = 0 then None
      else if rg_retire_timeout_ms g = 0 \<or>
        unat (rg_block_size g) < read_buf_size + block_header_len + frame_header_len then None
      else
        let total_bytes = unat (rg_block_size g) * unat (rg_block_count g);
            frame_count = unat (rg_block_size g div rg_frame_size g) * unat (rg_block_count g)
        in if max_packet_ring_bytes < total_bytes then None
           else Some \<lparr>rq_block_size = rg_block_size g, rq_block_nr = rg_block_count g, rq_frame_size = rg_frame_size g,
                  rq_frame_nr = word_of_nat frame_count, rq_retire_blk_tov = rg_retire_timeout_ms g\<rparr>)"

section \<open>Blocks\<close>

datatype ring_error =
    ErrRingGeometry | ErrTruncatedBlock | ErrFirstOffset | ErrPacketCount
  | ErrFrameMetadata | ErrDataOffset | ErrFrameData | ErrNextOffset

record packet_ring =
  pr_block_size :: u32
  pr_block_count :: u32
  pr_memory :: "u8 list"

record ring_block =
  bk_data :: "u8 list"
  bk_packet_count :: u32
  bk_first_offset :: u32

text \<open>A panic, an error, \<open>None\<close> for a block the kernel still owns, or the block.\<close>

definition decode_block :: "u32 \<Rightarrow> packet_ring \<Rightarrow> (ring_error + ring_block option) option" where
  "decode_block index r =
     (if unat (pr_block_size r) < block_header_len \<or> pr_block_count r = 0 then Some (Inl ErrRingGeometry)
      else
        let start = unat (index mod pr_block_count r) * unat (pr_block_size r);
            finish = start + unat (pr_block_size r)
        in if length (pr_memory r) < finish then Some (Inl ErrTruncatedBlock)
           else do {
             block \<leftarrow> subslice (pr_memory r) start finish;
             status \<leftarrow> Option.bind (subslice block block_status_off (block_status_off + 4)) le32;
             if status AND 1 = 0 then Some (Inr None)
             else do {
               packet_count \<leftarrow> Option.bind (subslice block 12 16) le32;
               first_offset \<leftarrow> Option.bind (subslice block 16 20) le32;
               if packet_count = 0
               then Some (Inr (Some \<lparr>bk_data = block, bk_packet_count = 0, bk_first_offset = 0\<rparr>))
               else if unat first_offset < block_header_len \<or> length block < unat first_offset + frame_header_len
               then Some (Inl ErrFirstOffset)
               else
                 let capacity = (word_of_nat (length block) - first_offset) div word_of_nat frame_header_len
                 in if capacity < packet_count then Some (Inl ErrPacketCount)
                    else Some (Inr (Some \<lparr>bk_data = block, bk_packet_count = packet_count,
                           bk_first_offset = first_offset\<rparr>)) } })"

section \<open>Frames\<close>

record ring_frame =
  rf_data :: "u8 list"
  rf_ts :: time
  rf_pkttype :: u8

record frame_iterator =
  fi_block :: ring_block
  fi_index :: u32
  fi_offset :: u32

definition block_iterator :: "ring_block \<Rightarrow> frame_iterator" where
  "block_iterator b = \<lparr>fi_block = b, fi_index = 0, fi_offset = bk_first_offset b\<rparr>"

text \<open>\<open>time.Unix\<close> of seconds and nanoseconds.\<close>

definition unix_time :: "u32 \<Rightarrow> u32 \<Rightarrow> time" where
  "unix_time sec nsec = int (unat sec) * second + int (unat nsec)"

definition iterator_invalid :: "ring_error \<Rightarrow> frame_iterator \<Rightarrow> (ring_error + ring_frame option) \<times> frame_iterator" where
  "iterator_invalid err i = (Inl err, i\<lparr>fi_index := bk_packet_count (fi_block i)\<rparr>)"

text \<open>One step of the iterator: a panic; an error; the end (\<open>None\<close>); or a frame.\<close>

definition iterator_next :: "frame_iterator \<Rightarrow> ((ring_error + ring_frame option) \<times> frame_iterator) option" where
  "iterator_next i =
     (let count = bk_packet_count (fi_block i); data = bk_data (fi_block i) in
      if count \<le> fi_index i then Some (Inr None, i)
      else
        let start = unat (fi_offset i); header_end = start + frame_header_len
        in if length data < header_end then Some (iterator_invalid ErrFrameMetadata i)
           else do {
             header \<leftarrow> subslice data start header_end;
             next_offset \<leftarrow> Option.bind (subslice header 0 4) le32;
             snaplen \<leftarrow> Option.bind (subslice header 12 16) le32;
             mac_offset \<leftarrow> Option.bind (subslice header 24 26) le16;
             let payload_start = start + unat mac_offset;
             let payload_end = payload_start + unat snaplen;
             if unat mac_offset < frame_header_len then Some (iterator_invalid ErrDataOffset i)
             else if length data < payload_end then Some (iterator_invalid ErrFrameData i)
             else
               let more = (fi_index i + 1 < count); next_start = start + unat next_offset
               in if more \<and> (next_offset mod frame_alignment \<noteq> 0 \<or> next_start < payload_end \<or>
                     length data < next_start + frame_header_len)
                  then Some (iterator_invalid ErrNextOffset i)
                  else do {
                    payload \<leftarrow> subslice data payload_start payload_end;
                    sec \<leftarrow> Option.bind (subslice header 4 8) le32;
                    nsec \<leftarrow> Option.bind (subslice header 8 12) le32;
                    pkttype \<leftarrow> idx header packet_type_off;
                    Some (Inr (Some \<lparr>rf_data = payload, rf_ts = unix_time sec nsec, rf_pkttype = pkttype\<rparr>),
                      i\<lparr>fi_offset := (if more then fi_offset i + next_offset else fi_offset i),
                        fi_index := fi_index i + 1\<rparr>) } })"

text \<open>What a step of the iterator guarantees, for any memory: it never panics and stays inside the block.\<close>

definition step_ok :: "frame_iterator \<Rightarrow> (ring_error + ring_frame option) \<times> frame_iterator \<Rightarrow> bool" where
  "step_ok i = (\<lambda>(r, i'). fi_block i' = fi_block i \<and>
     (case r of Inr (Some f) \<Rightarrow> fi_index i < bk_packet_count (fi_block i) \<and> fi_index i' = fi_index i + 1 \<and>
          unat (fi_offset i) + length (rf_data f) \<le> length (bk_data (fi_block i)) \<and>
          (fi_index i' < bk_packet_count (fi_block i) \<longrightarrow>
             length (bk_data (fi_block i)) < 2 ^ 32 \<longrightarrow>
             unat (fi_offset i) + length (rf_data f) \<le> unat (fi_offset i') \<and>
             unat (fi_offset i') \<le> length (bk_data (fi_block i)))
        | Inr None \<Rightarrow> bk_packet_count (fi_block i) \<le> fi_index i
        | Inl err \<Rightarrow> True))"

lemma slice_word:
  "b \<le> length xs \<Longrightarrow> a + 4 = b \<Longrightarrow> \<exists>w. Option.bind (subslice xs a b) le32 = Some w"
  "b \<le> length xs \<Longrightarrow> a + 2 = b \<Longrightarrow> \<exists>v. Option.bind (subslice xs a b) le16 = Some v"
  using le_total [of "take (b - a) (drop a xs)"] by (auto simp: subslice_Some)

lemma iterator_step: "\<exists>p. iterator_next i = Some p \<and> step_ok i p"
proof -
  let ?count = "bk_packet_count (fi_block i)" and ?data = "bk_data (fi_block i)"
  let ?start = "unat (fi_offset i)"
  consider (fin) "?count \<le> fi_index i" | (short) "fi_index i < ?count" "length ?data < ?start + frame_header_len"
    | (frame) "fi_index i < ?count" "?start + frame_header_len \<le> length ?data"
    by fastforce
  then show ?thesis
  proof cases
    case fin
    then show ?thesis by (simp add: iterator_next_def Let_def step_ok_def)
  next
    case short
    then show ?thesis by (simp add: iterator_next_def Let_def step_ok_def iterator_invalid_def)
  next
    case frame
    define header where "header = take frame_header_len (drop ?start ?data)"
    have sub: "subslice ?data ?start (?start + frame_header_len) = Some header"
      using frame(2) by (simp add: header_def subslice_Some)
    have len: "length header = 68" using frame(2) by (simp add: header_def frame_header_len_def)
    obtain next_offset snaplen mac_offset where r1:
      "Option.bind (subslice header 0 4) le32 = Some next_offset" "Option.bind (subslice header 12 16) le32 = Some snaplen"
      "Option.bind (subslice header 24 26) le16 = Some mac_offset"
      using slice_word(1) [of 4 header 0] slice_word(1) [of 16 header 12] slice_word(2) [of 26 header 24] len by auto
    obtain sec nsec where r2:
      "Option.bind (subslice header 4 8) le32 = Some sec" "Option.bind (subslice header 8 12) le32 = Some nsec"
      using slice_word(1) [of 8 header 4] slice_word(1) [of 12 header 8] len by auto
    note rd = r1 r2
    have pt: "idx header packet_type_off = Some (header ! packet_type_off)"
      by (simp add: idx_def packet_type_off_def len)
    let ?ps = "?start + unat mac_offset" let ?pe = "?ps + unat snaplen" let ?ns = "?start + unat next_offset"
    let ?more = "fi_index i + 1 < ?count"
    let ?f = "\<lambda>payload. \<lparr>rf_data = payload, rf_ts = unix_time sec nsec, rf_pkttype = header ! packet_type_off\<rparr>"
    let ?i = "i\<lparr>fi_offset := (if ?more then fi_offset i + next_offset else fi_offset i), fi_index := fi_index i + 1\<rparr>"
    have go: "\<not> ?count \<le> fi_index i" "\<not> length ?data < ?start + frame_header_len" using frame by auto
    have eq: "iterator_next i =
       (if unat mac_offset < frame_header_len then Some (iterator_invalid ErrDataOffset i)
        else if length ?data < ?pe then Some (iterator_invalid ErrFrameData i)
        else if ?more \<and> (next_offset mod frame_alignment \<noteq> 0 \<or> ?ns < ?pe \<or> length ?data < ?ns + frame_header_len)
        then Some (iterator_invalid ErrNextOffset i)
        else Option.bind (subslice ?data ?ps ?pe) (\<lambda>payload. Some (Inr (Some (?f payload)), ?i)))"
      unfolding iterator_next_def Let_def if_not_P [OF go(1)] if_not_P [OF go(2)] sub bind.simps rd pt ..
    consider (err) err where "iterator_next i = Some (iterator_invalid err i)"
      | (ok) "frame_header_len \<le> unat mac_offset" "?pe \<le> length ?data"
        "?more \<longrightarrow> ?pe \<le> ?ns \<and> ?ns + frame_header_len \<le> length ?data"
      unfolding eq by (metis linorder_not_le)
    then show ?thesis
    proof cases
      case err
      then show ?thesis by (simp add: step_ok_def iterator_invalid_def)
    next
      case ok
      have "subslice ?data ?ps ?pe = Some (take (unat snaplen) (drop ?ps ?data))"
        using ok(2) by (simp add: subslice_Some)
      moreover have "length (take (unat snaplen) (drop ?ps ?data)) = unat snaplen" using ok(2) by simp
      ultimately obtain payload where pl: "subslice ?data ?ps ?pe = Some payload" "length payload = unat snaplen" by blast
      have "unat (fi_offset i + next_offset) = ?ns" if "?more" "length ?data < 2 ^ 32"
      proof -
        have "?ns < 2 ^ 32" using ok(3) that by (simp add: frame_header_len_def)
        then show ?thesis by (intro unat_add_lem [THEN iffD1]) simp
      qed
      then have fine: "step_ok i (Inr (Some (?f payload)), ?i)"
        using frame ok pl(2) by (auto simp: step_ok_def frame_header_len_def)
      consider err where "iterator_next i = Some (iterator_invalid err i)"
        | "iterator_next i = Some (Inr (Some (?f payload)), ?i)"
        unfolding eq pl(1) bind.simps by metis
      then show ?thesis using fine by cases (auto simp: step_ok_def iterator_invalid_def)
    qed
  qed
qed

text \<open>The iterator ends: every frame brings its index one closer to the count.\<close>

lemma iterator_frame:
  assumes "iterator_next i = Some (Inr (Some f), i')"
  shows "fi_block i' = fi_block i" "fi_index i < bk_packet_count (fi_block i)" "unat (fi_index i') = Suc (unat (fi_index i))"
proof -
  have s: "step_ok i (Inr (Some f), i')" using iterator_step [of i] assms by auto
  then show "fi_block i' = fi_block i" and less: "fi_index i < bk_packet_count (fi_block i)" by (simp_all add: step_ok_def)
  have "fi_index i' = fi_index i + 1" using s by (simp add: step_ok_def)
  moreover have "fi_index i \<noteq> - 1" using less word_order.extremum_strict by metis
  then have "1 + fi_index i \<noteq> 0" by (metis add_eq_0_iff)
  ultimately show "unat (fi_index i') = Suc (unat (fi_index i))" using unatSuc [of "fi_index i"] by (simp add: add.commute)
qed

lemma iterator_frame_measure:
  "iterator_next i = Some (Inr (Some f), i') \<Longrightarrow>
    unat (bk_packet_count (fi_block i')) - unat (fi_index i') < unat (bk_packet_count (fi_block i)) - unat (fi_index i)"
  using iterator_frame [of i f i'] by (simp add: word_less_nat_alt)

section \<open>Splitting a block into runs\<close>

text \<open>
  \<open>enqueueRun\<close> cuts a SIP run into pieces of at most the queue's capacity.  The two admissions it calls are
  arguments here that pass a state and tell whether the queue still runs.
\<close>

function chunks :: "nat \<Rightarrow> 'a list \<Rightarrow> 'a list list" where
  "chunks cap frames = (if cap = 0 \<or> frames = [] then [] else take cap frames # chunks cap (drop cap frames))"
  by pat_completeness auto
termination by (relation "measure (\<lambda>(cap, frames). length frames)") auto

declare chunks.simps [simp del]

fun enqueue_all :: "('a \<Rightarrow> 's \<Rightarrow> bool \<times> 's) \<Rightarrow> 'a list \<Rightarrow> 's \<Rightarrow> bool \<times> 's" where
  "enqueue_all enq [] s = (True, s)"
| "enqueue_all enq (c # cs) s = (let (ok, s') = enq c s in if ok then enqueue_all enq cs s' else (False, s'))"

definition enqueue_run ::
  "nat \<Rightarrow> (bool \<Rightarrow> ring_frame list \<Rightarrow> 's \<Rightarrow> bool \<times> 's) \<Rightarrow> bool \<Rightarrow> ring_frame list \<Rightarrow> 's \<Rightarrow> bool \<times> 's" where
  "enqueue_run capacity admit sip frames s =
     (if sip \<and> 0 < capacity \<and> capacity < length frames then enqueue_all (admit True) (chunks capacity frames) s
      else admit sip frames s)"

text \<open>The loop of \<open>enqueueBlock\<close>: the frames so far, where the current run starts and whether it is SIP.\<close>

function enqueue_loop ::
  "(bool \<Rightarrow> ring_frame list \<Rightarrow> 's \<Rightarrow> bool \<times> 's) \<Rightarrow> u16 list \<Rightarrow> frame_iterator \<Rightarrow> ring_frame list \<Rightarrow> nat \<Rightarrow> bool \<Rightarrow> 's
    \<Rightarrow> ((bool \<times> ring_error option) \<times> 's) option" where
  "enqueue_loop enq ports i frames run_start run_sip s =
     (let flush = (if run_start < length frames then enq run_sip (drop run_start frames) s else (True, s)) in
      case iterator_next i of
        None \<Rightarrow> None
      | Some (Inl err, _) \<Rightarrow> Some ((fst flush, if fst flush then Some err else None), snd flush)
      | Some (Inr None, _) \<Rightarrow> Some ((fst flush, None), snd flush)
      | Some (Inr (Some f), i') \<Rightarrow>
          (case is_sip_packet (rf_data f) ports of
             None \<Rightarrow> None
           | Some sip \<Rightarrow>
               if frames = [] then enqueue_loop enq ports i' (frames @ [f]) run_start sip s
               else if sip \<noteq> run_sip then
                 (let (ok, s') = enq run_sip (drop run_start frames) s
                  in if ok then enqueue_loop enq ports i' (frames @ [f]) (length frames) sip s'
                     else Some ((False, None), s'))
               else enqueue_loop enq ports i' (frames @ [f]) run_start run_sip s))"
  by pat_completeness auto
termination by (relation "measure (\<lambda>(enq, ports, i, r). unat (bk_packet_count (fi_block i)) - unat (fi_index i))") (auto dest: iterator_frame_measure)

definition enqueue_block ::
  "(bool \<Rightarrow> ring_frame list \<Rightarrow> 's \<Rightarrow> bool \<times> 's) \<Rightarrow> u16 list \<Rightarrow> ring_block \<Rightarrow> 's
    \<Rightarrow> ((bool \<times> ring_error option) \<times> 's) option" where
  "enqueue_block enq ports block s = enqueue_loop enq ports (block_iterator block) [] 0 False s"

section \<open>What a block holds\<close>

text \<open>The frames of a block in order, and the error that ended them: the reference the loop is compared with.\<close>

function block_frames :: "frame_iterator \<Rightarrow> (ring_frame list \<times> ring_error option) option" where
  "block_frames i =
     (case iterator_next i of
        None \<Rightarrow> None
      | Some (Inl err, _) \<Rightarrow> Some ([], Some err)
      | Some (Inr None, _) \<Rightarrow> Some ([], None)
      | Some (Inr (Some f), i') \<Rightarrow> map_option (\<lambda>(fs, err). (f # fs, err)) (block_frames i'))"
  by pat_completeness auto
termination by (relation "measure (\<lambda>i. unat (bk_packet_count (fi_block i)) - unat (fi_index i))")
  (auto dest: iterator_frame_measure)

declare enqueue_loop.simps [simp del] block_frames.simps [simp del]

definition payload_bytes :: "ring_frame list \<Rightarrow> nat" where
  "payload_bytes fs = sum_list (map (length \<circ> rf_data) fs)"

lemma block_frames_total:
  "length (bk_data (fi_block i)) < 2 ^ 32 \<Longrightarrow> unat (fi_offset i) \<le> length (bk_data (fi_block i)) \<Longrightarrow>
   \<exists>fs err. block_frames i = Some (fs, err) \<and>
     unat (fi_offset i) + payload_bytes fs \<le> length (bk_data (fi_block i)) \<and>
     (fi_index i \<le> bk_packet_count (fi_block i) \<longrightarrow>
        (unat (fi_index i) + length fs \<le> unat (bk_packet_count (fi_block i))) \<and>
        (err = None \<longleftrightarrow> unat (fi_index i) + length fs = unat (bk_packet_count (fi_block i))))"
proof (induction i rule: block_frames.induct)
  case (1 i)
  obtain r i' where n: "iterator_next i = Some (r, i')" and ok: "step_ok i (r, i')" using iterator_step [of i] by auto
  show ?case
  proof (cases r)
    case (Inl err)
    have "bk_packet_count (fi_block i) \<noteq> fi_index i"
    proof
      assume "bk_packet_count (fi_block i) = fi_index i"
      then have "iterator_next i = Some (Inr None, i)" by (simp add: iterator_next_def)
      then show False using n Inl by simp
    qed
    then have "\<not> unat (fi_index i) = unat (bk_packet_count (fi_block i))" using word_unat_eq_iff by metis
    then show ?thesis using 1(3) by (auto simp: block_frames.simps [of i] n Inl payload_bytes_def word_le_nat_alt)
  next
    case (Inr fo)
    show ?thesis
    proof (cases fo)
      case None
      then show ?thesis using ok 1(3)
        by (auto simp: block_frames.simps [of i] n Inr payload_bytes_def step_ok_def word_le_nat_alt)
    next
      case (Some f)
      have n': "iterator_next i = Some (Inr (Some f), i')" using n Inr Some by simp
      note fr = iterator_frame [OF n']
      show ?thesis
      proof (cases "fi_index i' < bk_packet_count (fi_block i)")
        case True
        then have o: "unat (fi_offset i) + length (rf_data f) \<le> unat (fi_offset i')"
          "unat (fi_offset i') \<le> length (bk_data (fi_block i))"
          using ok 1(2) by (simp_all add: step_ok_def Inr Some)
        obtain fs err where ih: "block_frames i' = Some (fs, err)"
          "unat (fi_offset i') + payload_bytes fs \<le> length (bk_data (fi_block i))"
          "unat (fi_index i') + length fs \<le> unat (bk_packet_count (fi_block i))"
          "err = None \<longleftrightarrow> unat (fi_index i') + length fs = unat (bk_packet_count (fi_block i))"
          using "1.IH" [OF n refl Inr Some] 1(2) o(2) True fr(1) by (auto simp: less_imp_le)
        then show ?thesis using o(1) fr by (auto simp: block_frames.simps [of i] n' payload_bytes_def)
      next
        case False
        then have "iterator_next i' = Some (Inr None, i')" by (simp add: iterator_next_def fr(1) not_less)
        then have "block_frames i' = Some ([], None)" by (simp add: block_frames.simps [of i'])
        moreover have "unat (fi_offset i) + length (rf_data f) \<le> length (bk_data (fi_block i))"
          using ok by (simp add: step_ok_def Inr Some)
        moreover have "unat (fi_index i') = unat (bk_packet_count (fi_block i))"
          using False fr by (simp add: word_less_nat_alt)
        ultimately show ?thesis using fr by (auto simp: block_frames.simps [of i] n' payload_bytes_def)
      qed
    qed
  qed
qed

lemma iterator_block_frames: "\<exists>p. block_frames i = Some p"
proof (induction i rule: block_frames.induct)
  case (1 i)
  obtain r i' where n: "iterator_next i = Some (r, i')" using iterator_step [of i] by auto
  show ?case
  proof (cases r)
    case Inl
    then show ?thesis by (simp add: block_frames.simps [of i] n)
  next
    case (Inr fo)
    then show ?thesis using "1.IH" [OF n refl Inr]
      by (cases fo) (auto simp: block_frames.simps [of i] n)
  qed
qed

lemma decode_block_shape:
  "\<exists>res. decode_block index r = Some res \<and>
     (\<forall>b. res = Inr (Some b) \<longrightarrow> length (bk_data b) = unat (pr_block_size r) \<and>
        unat (bk_first_offset b) \<le> length (bk_data b) \<and>
        unat (bk_packet_count b) * frame_header_len \<le> length (bk_data b))"
proof -
  let ?size = "unat (pr_block_size r)" and ?start = "unat (index mod pr_block_count r) * unat (pr_block_size r)"
  consider (geometry) "?size < block_header_len \<or> pr_block_count r = 0"
    | (short) "\<not> (?size < block_header_len \<or> pr_block_count r = 0)" "length (pr_memory r) < ?start + ?size"
    | (good) "\<not> (?size < block_header_len \<or> pr_block_count r = 0)" "\<not> length (pr_memory r) < ?start + ?size"
    by blast
  then show ?thesis
  proof cases
    case good
    define block where "block = take ?size (drop ?start (pr_memory r))"
    have sub: "subslice (pr_memory r) ?start (?start + ?size) = Some block"
      using good(2) by (simp add: block_def subslice_Some)
    have len: "length block = ?size" using good(2) by (simp add: block_def)
    have big: "48 \<le> length block" using good(1) len by (simp add: block_header_len_def)
    obtain status count first where rd:
      "Option.bind (subslice block block_status_off (block_status_off + 4)) le32 = Some status"
      "Option.bind (subslice block 12 16) le32 = Some count" "Option.bind (subslice block 16 20) le32 = Some first"
      using slice_word(1) [of "block_status_off + 4" block block_status_off] slice_word(1) [of 16 block 12]
        slice_word(1) [of 20 block 16] big by (auto simp: block_status_off_def)
    let ?cap = "(word_of_nat (length block) - first) div word_of_nat frame_header_len :: u32"
    have eq: "decode_block index r =
        (if status AND 1 = 0 then Some (Inr None)
         else if count = 0 then Some (Inr (Some \<lparr>bk_data = block, bk_packet_count = 0, bk_first_offset = 0\<rparr>))
         else if unat first < block_header_len \<or> length block < unat first + frame_header_len then Some (Inl ErrFirstOffset)
         else if ?cap < count then Some (Inl ErrPacketCount)
         else Some (Inr (Some \<lparr>bk_data = block, bk_packet_count = count, bk_first_offset = first\<rparr>)))"
      unfolding decode_block_def Let_def if_not_P [OF good(1)] if_not_P [OF good(2)] sub bind.simps rd ..
    have fits: "unat count * frame_header_len \<le> length block"
      if "unat first + frame_header_len \<le> length block" "count \<le> ?cap"
    proof -
      have "length block < 2 ^ 32" using unsigned_less [of "pr_block_size r"] len by simp
      then have l: "unat (word_of_nat (length block) :: u32) = length block" by (simp add: unat_of_nat take_bit_nat_eq_self)
      have "first \<le> word_of_nat (length block)" using that(1) l by (simp add: word_le_nat_alt)
      then have "unat (word_of_nat (length block) - first) = length block - unat first" by (simp add: unat_sub l)
      then have "unat ?cap = (length block - unat first) div 68" by (simp add: unat_div frame_header_len_def)
      then have "unat count \<le> (length block - unat first) div 68" using that(2) by (simp add: word_le_nat_alt)
      then have "unat count * 68 \<le> length block - unat first" by (simp add: less_eq_div_iff_mult_less_eq)
      then show ?thesis by (simp add: frame_header_len_def)
    qed
    show ?thesis unfolding eq using len fits by (auto simp: not_less)
  qed (simp_all add: decode_block_def Let_def)
qed


section \<open>Which runs a block is cut into\<close>

text \<open>The reference: maximal runs of frames of one class.\<close>

function class_runs :: "('a \<Rightarrow> bool) \<Rightarrow> 'a list \<Rightarrow> (bool \<times> 'a list) list" where
  "class_runs p [] = []"
| "class_runs p (f # fs) =
     (p f, f # takeWhile (\<lambda>x. p x = p f) fs) # class_runs p (dropWhile (\<lambda>x. p x = p f) fs)"
  by pat_completeness auto
termination by (relation "measure (length \<circ> snd)") (auto simp: less_Suc_eq_le length_dropWhile_le)

lemma class_runs_append:
  "cur \<noteq> [] \<Longrightarrow> \<forall>f\<in>set cur. p f = sip \<Longrightarrow> class_runs p (cur @ fs) =
     (sip, cur @ takeWhile (\<lambda>x. p x = sip) fs) # class_runs p (dropWhile (\<lambda>x. p x = sip) fs)"
proof (induction cur)
  case (Cons f cur)
  then have "p f = sip" "takeWhile (\<lambda>x. p x = sip) (cur @ fs) = cur @ takeWhile (\<lambda>x. p x = sip) fs"
    "dropWhile (\<lambda>x. p x = sip) (cur @ fs) = dropWhile (\<lambda>x. p x = sip) fs" by simp_all
  then show ?case by simp
qed simp

lemma class_runs_concat: "concat (map snd (class_runs p fs)) = fs"
proof (induction p fs rule: class_runs.induct)
  case (2 p f fs)
  then show ?case by (simp only: class_runs.simps list.map concat.simps snd_conv append_Cons takeWhile_dropWhile_id)
qed simp

lemma class_runs_class: "(sip, g) \<in> set (class_runs p fs) \<Longrightarrow> g \<noteq> [] \<and> (\<forall>f\<in>set g. p f = sip)"
proof (induction p fs rule: class_runs.induct)
  case (2 p f fs)
  have same: "\<forall>x\<in>set (f # takeWhile (\<lambda>x. p x = p f) fs). p x = p f" by (auto dest: set_takeWhileD)
  from "2.prems" consider "sip = p f" "g = f # takeWhile (\<lambda>x. p x = p f) fs"
    | "(sip, g) \<in> set (class_runs p (dropWhile (\<lambda>x. p x = p f) fs))"
    by (simp only: class_runs.simps set_simps insert_iff prod.inject) blast
  then show ?case
  proof cases
    case 1
    show ?thesis unfolding 1 using same by blast
  next
    case 2
    then show ?thesis by (rule "2.IH")
  qed
qed simp

definition frame_is_sip :: "u16 list \<Rightarrow> ring_frame \<Rightarrow> bool" where
  "frame_is_sip ports f \<longleftrightarrow> is_sip_packet (rf_data f) ports = Some True"

lemma is_sip_packet_class: "is_sip_packet (rf_data f) ports = Some (frame_is_sip ports f)"
  using is_sip_packet_total [of "rf_data f" ports] by (auto simp: frame_is_sip_def)

abbreviation block_result :: "ring_error option \<Rightarrow> bool \<times> 's \<Rightarrow> (bool \<times> ring_error option) \<times> 's" where
  "block_result err \<equiv> \<lambda>(ok, s). ((ok, if ok then err else None), s)"

lemma enqueue_loop_runs:
  assumes "block_frames i = Some (fs, err)" "frames \<noteq> [] \<longrightarrow> run_start < length frames" "frames = [] \<longrightarrow> run_start = 0"
    "\<forall>f\<in>set (drop run_start frames). frame_is_sip ports f = sip"
  shows "enqueue_loop enq ports i frames run_start sip s =
     Some (block_result err (enqueue_all (\<lambda>(c, g). enq c g) (class_runs (frame_is_sip ports) (drop run_start frames @ fs)) s))"
  using assms
proof (induction i arbitrary: fs frames run_start sip s rule: block_frames.induct)
  case (1 i)
  let ?cur = "drop run_start frames"
  obtain r i' where n: "iterator_next i = Some (r, i')" using iterator_step [of i] by auto
  have fin: "enqueue_all (\<lambda>(c, g). enq c g) (class_runs (frame_is_sip ports) ?cur) s =
      (if run_start < length frames then enq sip ?cur s else (True, s))"
  proof (cases "?cur = []")
    case False
    then have "class_runs (frame_is_sip ports) (?cur @ []) = [(sip, ?cur)]"
      using class_runs_append [OF False "1.prems"(4), of "[]"] by simp
    then show ?thesis using False by (cases "enq sip ?cur s") auto
  qed simp
  show ?case
  proof (cases r)
    case (Inl e)
    with n "1.prems"(1) have "fs = []" "err = Some e" by (simp_all add: block_frames.simps [of i])
    then show ?thesis using fin by (simp add: enqueue_loop.simps n Inl Let_def split: prod.splits)
  next
    case (Inr fo)
    show ?thesis
    proof (cases fo)
      case None
      with n Inr "1.prems"(1) have "fs = []" "err = None" by (simp_all add: block_frames.simps [of i])
      then show ?thesis using fin by (simp add: enqueue_loop.simps n Inr None Let_def split: prod.splits)
    next
      case (Some f)
      have n': "iterator_next i = Some (Inr (Some f), i')" using n Inr Some by simp
      from "1.prems"(1) obtain fs' where fs: "fs = f # fs'" "block_frames i' = Some (fs', err)"
        by (auto simp: block_frames.simps [of i] n')
      note ih = "1.IH" [OF n refl Inr Some fs(2)]
      let ?c = "frame_is_sip ports f"
      show ?thesis
      proof (cases "frames = []")
        case True
        with ih [of "[f]" 0 ?c s] show ?thesis
          using "1.prems"(3) by (simp add: enqueue_loop.simps [of enq ports i] n' is_sip_packet_class fs)
      next
        case False
        then have lt: "run_start < length frames" using "1.prems"(2) by simp
        show ?thesis
        proof (cases "?c = sip")
          case True
          then show ?thesis using ih [of "frames @ [f]" run_start sip s] "1.prems"(4) False lt
            by (simp add: enqueue_loop.simps [of enq ports i] n' is_sip_packet_class fs Let_def)
        next
          case diff: False
          have "class_runs (frame_is_sip ports) (?cur @ fs) = (sip, ?cur) # class_runs (frame_is_sip ports) fs"
            using class_runs_append [of ?cur "frame_is_sip ports" sip fs] "1.prems"(4) lt diff by (simp add: fs(1))
          moreover have "enqueue_loop enq ports i' (frames @ [f]) (length frames) ?c s' =
              Some (block_result err (enqueue_all (\<lambda>(c, g). enq c g) (class_runs (frame_is_sip ports) fs) s'))" for s'
            using ih [of "frames @ [f]" "length frames" ?c s'] by (simp add: fs(1))
          ultimately show ?thesis using False diff
            by (auto simp: enqueue_loop.simps [of enq ports i] n' is_sip_packet_class Let_def split: prod.splits)
        qed
      qed
    qed
  qed
qed

text \<open>
  C15: \<open>enqueueBlock\<close> hands the queue the maximal SIP and non-SIP runs of the block's frames, in the order of
  the ring, up to the first run a stopped queue refuses, and still hands over the frames read before an error.
\<close>

theorem enqueue_block_runs:
  "enqueue_block enq ports b s =
     map_option (\<lambda>(fs, err). block_result err (enqueue_all (\<lambda>(c, g). enq c g) (class_runs (frame_is_sip ports) fs) s))
       (block_frames (block_iterator b))"
proof -
  obtain fs err where "block_frames (block_iterator b) = Some (fs, err)"
    using iterator_block_frames [of "block_iterator b"] by auto
  then show ?thesis by (simp add: enqueue_block_def enqueue_loop_runs)
qed

section \<open>Cutting SIP runs to the capacity\<close>

lemma chunks_concat: "0 < cap \<Longrightarrow> concat (chunks cap fs) = fs"
  by (induction cap fs rule: chunks.induct) (subst chunks.simps, simp)

lemma chunks_length: "g \<in> set (chunks cap fs) \<Longrightarrow> g \<noteq> [] \<and> length g \<le> cap \<and> set g \<subseteq> set fs"
  by (induction cap fs rule: chunks.induct)
    (subst (asm) (2) chunks.simps, auto split: if_splits dest: in_set_takeD in_set_dropD)

text \<open>A queue that records what it is handed.\<close>

definition record_call :: "bool \<Rightarrow> ring_frame list \<Rightarrow> (bool \<times> ring_frame list) list \<Rightarrow> bool \<times> (bool \<times> ring_frame list) list" where
  "record_call sip g calls = (True, calls @ [(sip, g)])"

definition call_ok :: "nat \<Rightarrow> u16 list \<Rightarrow> bool \<times> ring_frame list \<Rightarrow> bool" where
  "call_ok cap ports = (\<lambda>(sip, g). g \<noteq> [] \<and> list_all (\<lambda>f. frame_is_sip ports f = sip) g \<and>
     (sip \<longrightarrow> 0 < cap \<longrightarrow> length g \<le> cap))"

lemma enqueue_run_record:
  assumes "g \<noteq> []" "list_all (\<lambda>f. frame_is_sip ports f = sip) g"
  shows "\<exists>new. enqueue_run cap record_call sip g calls = (True, calls @ new) \<and> concat (map snd new) = g \<and>
     list_all (call_ok cap ports) new"
proof (cases "sip \<and> 0 < cap \<and> cap < length g")
  case True
  have "enqueue_all (record_call True) gs cs = (True, cs @ map (Pair True) gs)" for gs cs
    by (induction gs arbitrary: cs) (simp_all add: record_call_def)
  then have "enqueue_run cap record_call sip g calls = (True, calls @ map (Pair True) (chunks cap g))"
    using True by (simp add: enqueue_run_def)
  moreover have "concat (map snd (map (Pair True) (chunks cap g))) = g" using True by (simp add: chunks_concat comp_def)
  moreover have "list_all (call_ok cap ports) (map (Pair True) (chunks cap g))"
    using assms True chunks_length [of _ cap g] by (fastforce simp: call_ok_def list_all_iff)
  ultimately show ?thesis by blast
next
  case False
  then show ?thesis using assms by (auto simp: enqueue_run_def record_call_def call_ok_def)
qed

text \<open>
  every frame read from a block is handed to the queue once, in order; each hand-over is a non-empty run of
  one class, and no SIP run is longer than the queue, so a whole SIP run always fits an empty queue.
\<close>

theorem block_admissions:
  "case block_frames (block_iterator b) of
     None \<Rightarrow> False
   | Some (fs, err) \<Rightarrow>
       (\<exists>calls. enqueue_block (enqueue_run cap record_call) ports b [] = Some ((True, err), calls) \<and>
          concat (map snd calls) = fs \<and> list_all (call_ok cap ports) calls)"
proof -
  obtain fs err where bf: "block_frames (block_iterator b) = Some (fs, err)"
    using iterator_block_frames [of "block_iterator b"] by auto
  have "\<exists>new. enqueue_all (\<lambda>(c, g). enqueue_run cap record_call c g) rs calls = (True, calls @ new) \<and>
      concat (map snd new) = concat (map snd rs) \<and> list_all (call_ok cap ports) new"
    if "\<forall>(c, g)\<in>set rs. g \<noteq> [] \<and> list_all (\<lambda>f. frame_is_sip ports f = c) g" for rs calls
    using that
  proof (induction rs arbitrary: calls)
    case (Cons r rs)
    obtain c g where r: "r = (c, g)" by force
    from Cons.prems r have g: "g \<noteq> []" "list_all (\<lambda>f. frame_is_sip ports f = c) g" by auto
    from enqueue_run_record [OF g] obtain n1 where n1:
      "enqueue_run cap record_call c g calls = (True, calls @ n1)" "concat (map snd n1) = g"
      "list_all (call_ok cap ports) n1" by blast
    from Cons.IH [of "calls @ n1"] Cons.prems obtain n2 where n2:
      "enqueue_all (\<lambda>(c, g). enqueue_run cap record_call c g) rs (calls @ n1) = (True, (calls @ n1) @ n2)"
      "concat (map snd n2) = concat (map snd rs)" "list_all (call_ok cap ports) n2" by auto
    show ?case by (rule exI [of _ "n1 @ n2"]) (simp add: r n1 n2)
  qed simp
  from this [of "class_runs (frame_is_sip ports) fs" "[]"] show ?thesis
    using class_runs_class [of _ _ "frame_is_sip ports" fs]
    by (force simp: bf enqueue_block_def enqueue_loop_runs class_runs_concat list_all_iff)
qed

section \<open>Reading back a block\<close>

text \<open>A frame the way the kernel lays it out: the header, the gap up to the MAC offset, the bytes, the padding.\<close>

record frame_layout =
  fl_sec :: u32
  fl_nsec :: u32
  fl_pkttype :: u8
  fl_lengths :: "u8 list"
  fl_middle :: "u8 list"
  fl_address :: "u8 list"
  fl_gap :: "u8 list"
  fl_payload :: "u8 list"
  fl_pad :: "u8 list"

definition frame_len :: "frame_layout \<Rightarrow> nat" where
  "frame_len f = frame_header_len + length (fl_gap f) + length (fl_payload f) + length (fl_pad f)"

definition layout_ok :: "frame_layout \<Rightarrow> bool" where
  "layout_ok f \<longleftrightarrow> length (fl_lengths f) = 8 \<and> length (fl_middle f) = 32 \<and> length (fl_address f) = 9 \<and>
     frame_header_len + length (fl_gap f) < 2 ^ 16 \<and> frame_len f mod 8 = 0"

definition ring_header :: "frame_layout \<Rightarrow> u32 \<Rightarrow> u8 list" where
  "ring_header f next_offset = rev (enc32 next_offset) @ rev (enc32 (fl_sec f)) @ rev (enc32 (fl_nsec f)) @
     rev (enc32 (word_of_nat (length (fl_payload f)))) @ fl_lengths f @
     rev (enc16 (word_of_nat (frame_header_len + length (fl_gap f)))) @ fl_middle f @ [fl_pkttype f] @ fl_address f"

fun encode_frames :: "frame_layout list \<Rightarrow> u8 list" where
  "encode_frames [] = []"
| "encode_frames (f # fs) = ring_header f (if fs = [] then 0 else word_of_nat (frame_len f)) @
     fl_gap f @ fl_payload f @ fl_pad f @ encode_frames fs"

definition layout_frame :: "frame_layout \<Rightarrow> ring_frame" where
  "layout_frame f = \<lparr>rf_data = fl_payload f, rf_ts = unix_time (fl_sec f) (fl_nsec f), rf_pkttype = fl_pkttype f\<rparr>"

lemma length_ring_header: "layout_ok f \<Longrightarrow> length (ring_header f n) = frame_header_len"
  by (simp add: ring_header_def layout_ok_def frame_header_len_def)

lemma ring_header_fields:
  assumes "layout_ok f"
  shows "Option.bind (subslice (ring_header f n) 0 4) le32 = Some n"
    "Option.bind (subslice (ring_header f n) 4 8) le32 = Some (fl_sec f)"
    "Option.bind (subslice (ring_header f n) 8 12) le32 = Some (fl_nsec f)"
    "Option.bind (subslice (ring_header f n) 12 16) le32 = Some (word_of_nat (length (fl_payload f)))"
    "Option.bind (subslice (ring_header f n) 24 26) le16 = Some (word_of_nat (frame_header_len + length (fl_gap f)))"
    "idx (ring_header f n) packet_type_off = Some (fl_pkttype f)"
  using assms le32_enc32 [where xs = "[]"] le16_enc16 [where xs = "[]"]
  by (simp_all add: ring_header_def layout_ok_def slice_simps packet_type_off_def nth_append)

lemma encode_frames_min: "fs \<noteq> [] \<Longrightarrow> list_all layout_ok fs \<Longrightarrow> frame_header_len \<le> length (encode_frames fs)"
  by (cases fs) (simp_all add: length_ring_header)

lemma iterator_next_layout:
  assumes i: "bk_data (fi_block i) = pre @ encode_frames (f # fs)" "length pre = unat (fi_offset i)"
      "fi_index i < bk_packet_count (fi_block i)" "fs = [] \<longleftrightarrow> \<not> fi_index i + 1 < bk_packet_count (fi_block i)"
    and ok: "list_all layout_ok (f # fs)" and small: "length (bk_data (fi_block i)) < 2 ^ 32"
  shows "iterator_next i = Some (Inr (Some (layout_frame f)),
      i\<lparr>fi_offset := (if fs = [] then fi_offset i else fi_offset i + word_of_nat (frame_len f)), fi_index := fi_index i + 1\<rparr>)"
proof -
  let ?data = "bk_data (fi_block i)" and ?start = "unat (fi_offset i)"
  let ?n = "if fs = [] then 0 else word_of_nat (frame_len f) :: u32"
  let ?h = "ring_header f ?n"
  have f: "layout_ok f" using ok by simp
  note h = length_ring_header [OF f, of ?n]
  have len: "length ?data = ?start + frame_len f + length (encode_frames fs)"
    using i(1,2) h by (simp add: frame_len_def)
  have sub: "subslice ?data ?start (?start + frame_header_len) = Some ?h"
    unfolding i(1) using i(2) h by (simp add: slice_simps)
  have pay: "subslice ?data (?start + (frame_header_len + length (fl_gap f)))
      (?start + (frame_header_len + length (fl_gap f)) + length (fl_payload f)) = Some (fl_payload f)"
    unfolding i(1) using i(2) h by (simp add: slice_simps)
  have w1: "unat (word_of_nat (frame_header_len + length (fl_gap f)) :: u16) = frame_header_len + length (fl_gap f)"
    using f by (simp only: unat_of_nat take_bit_nat_eq_self layout_ok_def) (simp add: take_bit_nat_eq_self)
  have w2: "unat (word_of_nat (length (fl_payload f)) :: u32) = length (fl_payload f)"
    using small len by (simp add: unat_of_nat take_bit_nat_eq_self frame_len_def)
  have w3: "unat ?n = frame_len f" "?n mod 8 = 0" if "fs \<noteq> []"
  proof -
    show "unat ?n = frame_len f" using small len that by (simp add: unat_of_nat take_bit_nat_eq_self)
    then have "unat (?n mod 8) = 0" using f by (simp add: unat_mod layout_ok_def)
    then show "?n mod 8 = 0" by (simp add: unat_eq_0)
  qed
  have more: "frame_header_len \<le> length (encode_frames fs)" if "fs \<noteq> []" using encode_frames_min [OF that] ok by simp
  have g: "\<not> bk_packet_count (fi_block i) \<le> fi_index i" "\<not> length ?data < ?start + frame_header_len"
    using i(3) len by (simp_all add: frame_len_def)
  have g2: "\<not> unat (word_of_nat (frame_header_len + length (fl_gap f)) :: u16) < frame_header_len"
    "\<not> length ?data < ?start + unat (word_of_nat (frame_header_len + length (fl_gap f)) :: u16) +
        unat (word_of_nat (length (fl_payload f)) :: u32)"
    unfolding w1 w2 using len by (simp_all add: frame_len_def)
  have g3: "\<not> (fi_index i + 1 < bk_packet_count (fi_block i) \<and>
      (?n mod frame_alignment \<noteq> 0 \<or>
       ?start + unat ?n < ?start + unat (word_of_nat (frame_header_len + length (fl_gap f)) :: u16) +
         unat (word_of_nat (length (fl_payload f)) :: u32) \<or>
       length ?data < ?start + unat ?n + frame_header_len))"
    unfolding w1 w2 using i(4) w3 more len by (auto simp: frame_alignment_def frame_len_def)
  show ?thesis
    unfolding iterator_next_def Let_def if_not_P [OF g(1)] if_not_P [OF g(2)] sub bind.simps
      ring_header_fields [OF f] if_not_P [OF g2(1)] if_not_P [OF g2(2)] if_not_P [OF g3]
    unfolding w1 w2 pay bind.simps using i(4) by (simp add: layout_frame_def)
qed

lemma block_frames_layout:
  "bk_data (fi_block i) = pre @ encode_frames fs \<Longrightarrow> fs \<noteq> [] \<longrightarrow> length pre = unat (fi_offset i) \<Longrightarrow>
   unat (fi_index i) + length fs = unat (bk_packet_count (fi_block i)) \<Longrightarrow> list_all layout_ok fs \<Longrightarrow>
   length (bk_data (fi_block i)) < 2 ^ 32 \<Longrightarrow> block_frames i = Some (map layout_frame fs, None)"
proof (induction fs arbitrary: i pre)
  case Nil
  then have "iterator_next i = Some (Inr None, i)" by (simp add: iterator_next_def word_le_nat_alt)
  then show ?case by (simp add: block_frames.simps [of i])
next
  case (Cons f fs)
  let ?count = "bk_packet_count (fi_block i)"
  have less: "fi_index i < ?count" using Cons.prems(3) by (simp add: word_less_nat_alt)
  have idx: "unat (fi_index i + 1) = Suc (unat (fi_index i))"
  proof -
    have "fi_index i \<noteq> - 1" using less word_order.extremum_strict by metis
    then have "1 + fi_index i \<noteq> 0" by (metis add_eq_0_iff)
    then show ?thesis using unatSuc [of "fi_index i"] by (simp add: add.commute)
  qed
  have last: "fs = [] \<longleftrightarrow> \<not> fi_index i + 1 < ?count"
    using Cons.prems(3) idx by (cases fs) (simp_all add: word_less_nat_alt)
  have pre: "length pre = unat (fi_offset i)" using Cons.prems(2) by simp
  let ?i = "i\<lparr>fi_offset := (if fs = [] then fi_offset i else fi_offset i + word_of_nat (frame_len f)), fi_index := fi_index i + 1\<rparr>"
  note step = iterator_next_layout [OF Cons.prems(1) pre less last Cons.prems(4,5)]
  have f: "layout_ok f" using Cons.prems(4) by simp
  let ?n = "if fs = [] then 0 else word_of_nat (frame_len f) :: u32"
  have len: "length (bk_data (fi_block i)) = length pre + frame_len f + length (encode_frames fs)"
    using Cons.prems(1) length_ring_header [OF f, of ?n] by (simp add: frame_len_def)
  have off: "length (pre @ ring_header f ?n @ fl_gap f @ fl_payload f @ fl_pad f) = unat (fi_offset ?i)" if "fs \<noteq> []"
  proof -
    have "length pre + frame_len f < 2 ^ 32" using Cons.prems(5) len by simp
    then have "unat (fi_offset i + word_of_nat (frame_len f)) = length pre + frame_len f"
      using pre by (simp add: unat_word_ariths unat_of_nat take_bit_nat_eq_self)
    then show ?thesis using that length_ring_header [OF f, of ?n] by (simp add: frame_len_def)
  qed
  have "block_frames ?i = Some (map layout_frame fs, None)"
  proof (rule Cons.IH [of ?i "pre @ ring_header f ?n @ fl_gap f @ fl_payload f @ fl_pad f"])
    show "bk_data (fi_block ?i) = (pre @ ring_header f ?n @ fl_gap f @ fl_payload f @ fl_pad f) @ encode_frames fs"
      using Cons.prems(1) by simp
    show "unat (fi_index ?i) + length fs = unat (bk_packet_count (fi_block ?i))" using Cons.prems(3) idx by simp
  qed (use off Cons.prems in auto)
  then show ?case by (simp add: block_frames.simps [of i] step)
qed

text \<open>
  C16: a block laid out as the kernel does it, with any gap before and padding after each packet, is read back:
  every packet with its bytes, capture time and direction, in order and without an error.
\<close>

theorem ring_frames_roundtrip:
  assumes "list_all layout_ok fs" "length pre + length (encode_frames fs) < 2 ^ 32" "length fs < 2 ^ 32"
  shows "block_frames (block_iterator \<lparr>bk_data = pre @ encode_frames fs, bk_packet_count = word_of_nat (length fs),
      bk_first_offset = word_of_nat (length pre)\<rparr>) = Some (map layout_frame fs, None)"
  using assms by (intro block_frames_layout [where pre = pre and fs = fs])
    (auto simp: block_iterator_def unat_of_nat take_bit_nat_eq_self)

definition sample_layout :: frame_layout where
  "sample_layout = \<lparr>fl_sec = 7, fl_nsec = 250, fl_pkttype = 4, fl_lengths = replicate 8 0, fl_middle = replicate 32 0,
     fl_address = replicate 9 0, fl_gap = replicate 14 0, fl_payload = [1, 2, 3], fl_pad = replicate 3 0\<rparr>"

theorem ring_frames_roundtrip_witness:
  "block_frames (block_iterator \<lparr>bk_data = replicate 48 0 @ encode_frames [sample_layout, sample_layout],
      bk_packet_count = 2, bk_first_offset = 48\<rparr>) = Some (map layout_frame [sample_layout, sample_layout], None)"
proof -
  have ok: "layout_ok sample_layout" by (simp add: layout_ok_def sample_layout_def frame_len_def frame_header_len_def)
  have "length (encode_frames [sample_layout, sample_layout]) = 176"
    by (simp add: length_ring_header [OF ok] frame_header_len_def) (simp add: sample_layout_def)
  then show ?thesis
    using ring_frames_roundtrip [of "[sample_layout, sample_layout]" "replicate 48 0"] ok by simp
qed

section \<open>An accepted geometry\<close>

text \<open>
  a geometry that is accepted maps at most 8 MiB, its frames tile every block, the frame count handed to
  the kernel is exact, and a block has room for the largest packet the exporter reads.
\<close>

theorem ring_geometry_exact:
  assumes "ring_request_of page_size g = Some q"
  shows "unat (rq_frame_nr q) * unat (rq_frame_size q) = unat (rq_block_size q) * unat (rq_block_nr q) \<and>
    unat (rq_block_size q) * unat (rq_block_nr q) \<le> max_packet_ring_bytes \<and> 0 < unat (rq_block_nr q) \<and>
    unat page_size dvd unat (rq_block_size q) \<and>
    read_buf_size + block_header_len + frame_header_len \<le> unat (rq_block_size q)"
proof -
  let ?b = "unat (rg_block_size g)" and ?c = "unat (rg_block_count g)" and ?f = "unat (rg_frame_size g)"
  from assms have ok: "rg_block_size g mod page_size = 0" "rg_block_size g mod rg_frame_size g = 0"
      "rg_block_count g \<noteq> 0" "read_buf_size + block_header_len + frame_header_len \<le> ?b" "frame_header_len < ?f"
      "?b * ?c \<le> max_packet_ring_bytes"
    and q: "q = \<lparr>rq_block_size = rg_block_size g, rq_block_nr = rg_block_count g, rq_frame_size = rg_frame_size g,
      rq_frame_nr = word_of_nat (unat (rg_block_size g div rg_frame_size g) * ?c), rq_retire_blk_tov = rg_retire_timeout_ms g\<rparr>"
    by (auto simp: ring_request_of_def Let_def split: if_splits)
  have m: "?b mod unat page_size = 0" "?b mod ?f = 0"
    using arg_cong [OF ok(1), of unat] arg_cong [OF ok(2), of unat] by (simp_all add: unat_mod)
  let ?n = "unat (rg_block_size g div rg_frame_size g) * ?c"
  have tile: "?n * ?f = ?b * ?c"
    using m(2) by (simp add: unat_div algebra_simps) (metis dvd_eq_mod_eq_0 dvd_mult_div_cancel mult.assoc mult.commute)
  have "?n * 1 \<le> ?n * ?f" by (rule mult_le_mono2) (use ok(5) in simp)
  also have "\<dots> \<le> max_packet_ring_bytes" unfolding tile by (rule ok(6))
  also have "\<dots> < 2 ^ 32" by (simp add: max_packet_ring_bytes_def)
  finally have "?n < 2 ^ 32" by (simp only: nat_mult_1_right)
  then have "unat (word_of_nat ?n :: u32) = ?n" by (simp only: unat_of_nat) (simp add: take_bit_nat_eq_self)
  then have "unat (rq_frame_nr q) * unat (rq_frame_size q) = ?b * ?c" using tile by (simp only: q ring_request.simps)
  moreover have "unat page_size dvd ?b" using m(1) by blast
  ultimately show ?thesis using ok(3,4,6) by (simp add: q unat_gt_0)
qed

theorem ring_geometry_exact_witness:
  "\<exists>q. ring_request_of 4096 default_ring_geometry = Some q \<and> unat (rq_frame_nr q) = 4096 \<and>
     unat (rq_frame_nr q) * unat (rq_frame_size q) = unat (rq_block_size q) * unat (rq_block_nr q)"
proof -
  define q :: ring_request where "q = \<lparr>rq_block_size = 0x100000, rq_block_nr = 8, rq_frame_size = 0x800,
    rq_frame_nr = 4096, rq_retire_blk_tov = 60\<rparr>"
  have "ring_request_of 4096 default_ring_geometry = Some q"
    by (simp add: q_def ring_request_of_def default_ring_geometry_def frame_header_len_def block_header_len_def
      read_buf_size_def tpacket_alignment_def max_packet_ring_bytes_def Let_def)
  from ring_geometry_exact [OF this] this show ?thesis by (auto simp: q_def)
qed

end
