(* ===== verification/Batch_Queue.thy ===== *)
theory Batch_Queue
  imports Prelude "HOL-Library.Multiset"
begin

text \<open>
  The bounded queue between the ring readers and the parser (\<open>internal/exporter/packet_ring.go\<close>):
  permits counted in packets, SIP runs admitted in ticket order and waiting for room, RTP runs cut to the
  room there is and never waiting.  The operations are functions on the queue; the goroutines that call
  them (any number of readers, one consumer, the closer) are the step relation of the second half, where a
  step is what runs between two synchronisations.  \<open>admissionMu\<close> is held by a reader in \<open>Locked\<close> and
  read-held by one in \<open>Sending\<close>; \<open>admissionChanged\<close> is a generation number, and waiting on the channel of
  a generation ends when that generation is over.  A compare-and-swap loop is one step: the pass that succeeds.
  The frames are a type variable: nothing here looks at them.
\<close>

section \<open>The queue and its operations\<close>

record 'a frame_run =
  fr_frames :: "'a list"
  fr_remaining :: nat
  fr_released :: bool

record 'a batch_queue =
  bq_max :: int
  bq_queued :: int
  bq_runs :: "'a frame_run list"
  bq_pending :: int
  bq_next :: nat
  bq_serving :: nat
  bq_stopped :: bool
  bq_changed :: nat

definition new_frame_run :: "'a list \<Rightarrow> 'a frame_run" where
  "new_frame_run frames = \<lparr>fr_frames = frames, fr_remaining = length frames, fr_released = False\<rparr>"

definition new_batch_queue :: "nat \<Rightarrow> 'a batch_queue" where
  "new_batch_queue capacity = \<lparr>bq_max = int capacity, bq_queued = 0, bq_runs = [], bq_pending = 0, bq_next = 0,
     bq_serving = 0, bq_stopped = False, bq_changed = 0\<rparr>"

definition reserve :: "nat \<Rightarrow> 'a batch_queue \<Rightarrow> nat \<times> 'a batch_queue" where
  "reserve requested q =
     (let available = bq_max q - bq_queued q in
      if requested = 0 \<or> available \<le> 0 then (0, q)
      else let accepted = min (int requested) available
           in (nat accepted, q\<lparr>bq_queued := bq_queued q + accepted\<rparr>))"

definition reserve_all :: "nat \<Rightarrow> 'a batch_queue \<Rightarrow> 'a batch_queue option" where
  "reserve_all requested q =
     (if bq_max q - bq_queued q < int requested then None
      else Some (q\<lparr>bq_queued := bq_queued q + int requested\<rparr>))"

definition release_permits :: "nat \<Rightarrow> 'a batch_queue \<Rightarrow> 'a batch_queue" where
  "release_permits n q = q\<lparr>bq_queued := bq_queued q - int n\<rparr>"

definition signal_admission :: "'a batch_queue \<Rightarrow> 'a batch_queue" where
  "signal_admission q = q\<lparr>bq_changed := Suc (bq_changed q)\<rparr>"

definition finish_sip :: "'a batch_queue \<Rightarrow> 'a batch_queue" where
  "finish_sip q = signal_admission (q\<lparr>bq_pending := bq_pending q - 1, bq_serving := Suc (bq_serving q)\<rparr>)"

definition stop_queue :: "'a batch_queue \<Rightarrow> 'a batch_queue" where
  "stop_queue q = (if bq_stopped q then q else signal_admission (q\<lparr>bq_stopped := True\<rparr>))"

text \<open>Sending on the channel, whose buffer holds \<open>capacity\<close> runs: \<open>None\<close> would block.\<close>

definition send_run :: "'a list \<Rightarrow> 'a batch_queue \<Rightarrow> 'a batch_queue option" where
  "send_run frames q =
     (if length (bq_runs q) < nat (bq_max q) then Some (q\<lparr>bq_runs := bq_runs q @ [new_frame_run frames]\<rparr>) else None)"

text \<open>\<open>enqueueSIPRun\<close>: taking a ticket, and one turn of its loop under the lock.\<close>

definition sip_enter :: "'a batch_queue \<Rightarrow> (nat \<times> 'a batch_queue) option" where
  "sip_enter q =
     (if bq_stopped q then None
      else Some (bq_next q, q\<lparr>bq_next := Suc (bq_next q), bq_pending := bq_pending q + 1\<rparr>))"

datatype 'a sip_outcome = SipRefused "'a batch_queue" | SipAdmitted "'a batch_queue" | SipWait nat | SipBlocked

definition sip_try :: "nat \<Rightarrow> 'a list \<Rightarrow> 'a batch_queue \<Rightarrow> 'a sip_outcome" where
  "sip_try ticket frames q =
     (if bq_stopped q then SipRefused (q\<lparr>bq_pending := bq_pending q - 1\<rparr>)
      else case (if ticket = bq_serving q then reserve_all (length frames) q else None) of
        Some q' \<Rightarrow> (case send_run frames q' of Some q'' \<Rightarrow> SipAdmitted (finish_sip q'') | None \<Rightarrow> SipBlocked)
      | None \<Rightarrow> SipWait (bq_changed q))"

text \<open>\<open>enqueueRTPRun\<close> up to the send: the frames that get a permit; the others are counted as dropped.\<close>

definition rtp_reserve :: "'a list \<Rightarrow> 'a batch_queue \<Rightarrow> nat \<times> 'a batch_queue" where
  "rtp_reserve frames q = (if bq_pending q = 0 then reserve (length frames) q else (0, q))"

text \<open>
  The consumer's side: \<open>dequeueFrame\<close> and \<open>release\<close> of a run give permits back; the number they give decides
  whether \<open>packetBatchQueue.release\<close> goes on to look at \<open>pendingSIP\<close>.
\<close>

definition dequeue_frame :: "'a frame_run \<Rightarrow> nat \<times> 'a frame_run" where
  "dequeue_frame r =
     (if fr_remaining r = 0 \<or> fr_released r then (0, r) else (1, r\<lparr>fr_remaining := fr_remaining r - 1\<rparr>))"

definition release_run :: "'a frame_run \<Rightarrow> nat \<times> 'a frame_run" where
  "release_run r =
     (if fr_released r then (0, r) else (fr_remaining r, r\<lparr>fr_remaining := 0, fr_released := True\<rparr>))"

definition signal_if_pending :: "'a batch_queue \<Rightarrow> 'a batch_queue" where
  "signal_if_pending q = (if bq_pending q \<noteq> 0 then signal_admission q else q)"

lemmas queue_defs = reserve_def reserve_all_def release_permits_def signal_admission_def finish_sip_def stop_queue_def
  send_run_def sip_enter_def sip_try_def rtp_reserve_def dequeue_frame_def release_run_def signal_if_pending_def
  new_frame_run_def

section \<open>The goroutines\<close>

datatype 'a reader = Idle | Locked nat "'a list" | Parked nat "'a list" nat | Sending "'a list"

text \<open>
  The consumer between giving permits back (\<open>Released\<close>) and having looked at \<open>pendingSIP\<close>, and between
  that and signalling under the lock (\<open>Signalling\<close>).
\<close>

datatype phase = Running | Released | Signalling

record 'a ring_system =
  rs_queue :: "'a batch_queue"
  rs_readers :: "'a reader list"
  rs_run :: "'a frame_run option"
  rs_phase :: phase
  rs_dropped :: nat

definition ring_start :: "nat \<Rightarrow> nat \<Rightarrow> 'a ring_system" where
  "ring_start capacity readers = \<lparr>rs_queue = new_batch_queue capacity, rs_readers = replicate readers Idle, rs_run = None,
     rs_phase = Running, rs_dropped = 0\<rparr>"

fun write_locked :: "'a reader \<Rightarrow> bool" where
  "write_locked (Locked _ _) = True"
| "write_locked _ = False"

fun read_locked :: "'a reader \<Rightarrow> bool" where
  "read_locked (Sending _) = True"
| "read_locked _ = False"

definition lock_free :: "'a ring_system \<Rightarrow> bool" where
  "lock_free s \<longleftrightarrow> list_all (\<lambda>r. \<not> write_locked r \<and> \<not> read_locked r) (rs_readers s)"

definition rlock_free :: "'a ring_system \<Rightarrow> bool" where
  "rlock_free s \<longleftrightarrow> list_all (\<lambda>r. \<not> write_locked r) (rs_readers s)"

datatype 'a label =
    Entered nat "'a list" | Admitted nat "'a list" | Refused nat "'a list" | Waits | Woken
  | Reserved "'a list" nat | Sent "'a list" | Taken "'a list" | Drained "'a list" | Dequeued | Looked | Signalled | Finished | Stopped

abbreviation set_reader :: "nat \<Rightarrow> 'a reader \<Rightarrow> 'a ring_system \<Rightarrow> 'a ring_system" where
  "set_reader i r s \<equiv> s\<lparr>rs_readers := (rs_readers s)[i := r]\<rparr>"

text \<open>
  One step of one goroutine.  A SIP run that enters fits an empty queue: \<open>enqueueRun\<close> has cut it
  (theorem \<open>block_admissions\<close> of \<open>Packet_Ring\<close>).
\<close>

inductive queue_step :: "'a ring_system \<Rightarrow> 'a label \<Rightarrow> 'a ring_system \<Rightarrow> bool" where
  enter: "i < length (rs_readers s) \<Longrightarrow> rs_readers s ! i = Idle \<Longrightarrow> lock_free s \<Longrightarrow>
    sip_enter (rs_queue s) = Some (t, q) \<Longrightarrow> fs \<noteq> [] \<Longrightarrow> int (length fs) \<le> bq_max (rs_queue s) \<Longrightarrow>
    queue_step s (Entered t fs) (set_reader i (Locked t fs) (s\<lparr>rs_queue := q\<rparr>))"
| admit: "i < length (rs_readers s) \<Longrightarrow> rs_readers s ! i = Locked t fs \<Longrightarrow>
    sip_try t fs (rs_queue s) = SipAdmitted q \<Longrightarrow>
    queue_step s (Admitted t fs) (set_reader i Idle (s\<lparr>rs_queue := q\<rparr>))"
| refuse: "i < length (rs_readers s) \<Longrightarrow> rs_readers s ! i = Locked t fs \<Longrightarrow>
    sip_try t fs (rs_queue s) = SipRefused q \<Longrightarrow>
    queue_step s (Refused t fs) (set_reader i Idle (s\<lparr>rs_queue := q\<rparr>))"
| park: "i < length (rs_readers s) \<Longrightarrow> rs_readers s ! i = Locked t fs \<Longrightarrow>
    sip_try t fs (rs_queue s) = SipWait g \<Longrightarrow>
    queue_step s Waits (set_reader i (Parked t fs g) s)"
| wake: "i < length (rs_readers s) \<Longrightarrow> rs_readers s ! i = Parked t fs g \<Longrightarrow> g \<noteq> bq_changed (rs_queue s) \<Longrightarrow>
    lock_free s \<Longrightarrow> queue_step s Woken (set_reader i (Locked t fs) s)"
| rtp_take: "i < length (rs_readers s) \<Longrightarrow> rs_readers s ! i = Idle \<Longrightarrow> rlock_free s \<Longrightarrow>
    \<not> bq_stopped (rs_queue s) \<Longrightarrow> fs \<noteq> [] \<Longrightarrow> rtp_reserve fs (rs_queue s) = (n, q) \<Longrightarrow>
    queue_step s (Reserved fs n)
      (set_reader i (if n = 0 then Idle else Sending (take n fs))
        (s\<lparr>rs_queue := q, rs_dropped := rs_dropped s + (length fs - n)\<rparr>))"
| rtp_send: "i < length (rs_readers s) \<Longrightarrow> rs_readers s ! i = Sending fs \<Longrightarrow> send_run fs (rs_queue s) = Some q \<Longrightarrow>
    queue_step s (Sent fs) (set_reader i Idle (s\<lparr>rs_queue := q\<rparr>))"
| take_run: "rs_run s = None \<Longrightarrow> rs_phase s = Running \<Longrightarrow> bq_runs (rs_queue s) = r # rs \<Longrightarrow>
    queue_step s (Taken (fr_frames r)) (s\<lparr>rs_run := Some r, rs_queue := (rs_queue s)\<lparr>bq_runs := rs\<rparr>\<rparr>)"
| dequeue: "rs_run s = Some r \<Longrightarrow> rs_phase s = Running \<Longrightarrow> dequeue_frame r = (n, r') \<Longrightarrow> n \<noteq> 0 \<Longrightarrow>
    queue_step s Dequeued
      (s\<lparr>rs_run := Some r', rs_queue := release_permits n (rs_queue s), rs_phase := Released\<rparr>)"
| finish: "rs_run s = Some r \<Longrightarrow> rs_phase s = Running \<Longrightarrow> release_run r = (0, r') \<Longrightarrow>
    queue_step s Finished (s\<lparr>rs_run := None\<rparr>)"
| drain: "rs_run s = None \<Longrightarrow> rs_phase s = Running \<Longrightarrow> bq_stopped (rs_queue s) \<Longrightarrow> bq_runs (rs_queue s) = r # rs \<Longrightarrow>
    release_run r = (n, r') \<Longrightarrow>
    queue_step s (Drained (fr_frames r))
      (s\<lparr>rs_queue := release_permits n ((rs_queue s)\<lparr>bq_runs := rs\<rparr>), rs_phase := (if n = 0 then Running else Released)\<rparr>)"
| look: "rs_phase s = Released \<Longrightarrow>
    queue_step s Looked (s\<lparr>rs_phase := (if bq_pending (rs_queue s) = 0 then Running else Signalling)\<rparr>)"
| signal: "rs_phase s = Signalling \<Longrightarrow> lock_free s \<Longrightarrow>
    queue_step s Signalled (s\<lparr>rs_queue := signal_if_pending (rs_queue s), rs_phase := Running\<rparr>)"
| stop: "lock_free s \<Longrightarrow> queue_step s Stopped (s\<lparr>rs_queue := stop_queue (rs_queue s)\<rparr>)"

inductive queue_exec :: "'a ring_system \<Rightarrow> 'a label list \<Rightarrow> 'a ring_system \<Rightarrow> bool" where
  exec_nil: "queue_exec s [] s"
| exec_snoc: "queue_exec s ls s' \<Longrightarrow> queue_step s' l s'' \<Longrightarrow> queue_exec s (ls @ [l]) s''"

text \<open>The steps of goroutines that have begun, as opposed to new arrivals and the closing of the queue.\<close>

fun internal :: "'a label \<Rightarrow> bool" where
  "internal (Entered _ _) = False"
| "internal (Reserved _ _) = False"
| "internal Stopped = False"
| "internal _ = True"

section \<open>The invariant\<close>

fun reader_ticket :: "'a reader \<Rightarrow> nat multiset" where
  "reader_ticket (Locked t _) = {#t#}"
| "reader_ticket (Parked t _ _) = {#t#}"
| "reader_ticket _ = {#}"

fun reader_sending :: "'a reader \<Rightarrow> nat" where
  "reader_sending (Sending fs) = length fs"
| "reader_sending _ = 0"

definition tickets :: "'a ring_system \<Rightarrow> nat multiset" where
  "tickets s = sum_list (map reader_ticket (rs_readers s))"

definition run_remaining :: "'a ring_system \<Rightarrow> nat" where
  "run_remaining s = (case rs_run s of None \<Rightarrow> 0 | Some r \<Rightarrow> fr_remaining r)"

definition permits_out :: "'a ring_system \<Rightarrow> nat" where
  "permits_out s = sum_list (map fr_remaining (bq_runs (rs_queue s))) + run_remaining s +
     sum_list (map reader_sending (rs_readers s))"

fun reader_ok :: "int \<Rightarrow> 'a reader \<Rightarrow> bool" where
  "reader_ok m Idle = True"
| "reader_ok m (Locked _ fs) = (fs \<noteq> [] \<and> int (length fs) \<le> m)"
| "reader_ok m (Parked _ fs _) = (fs \<noteq> [] \<and> int (length fs) \<le> m)"
| "reader_ok m (Sending fs) = (fs \<noteq> [])"

text \<open>A parked reader that nobody will wake although it could go on.\<close>

fun forgotten :: "'a batch_queue \<Rightarrow> phase \<Rightarrow> 'a reader \<Rightarrow> bool" where
  "forgotten q ph (Parked t fs g) = (g = bq_changed q \<and>
     (bq_stopped q \<or> ph = Running \<and> t = bq_serving q \<and> bq_queued q + int (length fs) \<le> bq_max q))"
| "forgotten q ph _ = False"

fun parked_before :: "nat \<Rightarrow> 'a reader \<Rightarrow> bool" where
  "parked_before n (Parked _ _ g) = (g \<le> n)"
| "parked_before n _ = True"

text \<open>
  The invariant in three parts: permits are exactly the packets in flight and never exceed the capacity;
  the open tickets are those between the one being served and the next one to be given; and no reader is
  forgotten.
\<close>

definition permits_inv :: "'a ring_system \<Rightarrow> bool" where
  "permits_inv s \<longleftrightarrow> bq_queued (rs_queue s) = int (permits_out s) \<and> bq_queued (rs_queue s) \<le> bq_max (rs_queue s) \<and>
     list_all (\<lambda>r. fr_frames r \<noteq> [] \<and> fr_remaining r = length (fr_frames r) \<and> \<not> fr_released r) (bq_runs (rs_queue s)) \<and>
     (case rs_run s of None \<Rightarrow> True | Some r \<Rightarrow> \<not> fr_released r) \<and>
     list_all (reader_ok (bq_max (rs_queue s))) (rs_readers s)"

definition tickets_inv :: "'a ring_system \<Rightarrow> bool" where
  "tickets_inv s \<longleftrightarrow> bq_pending (rs_queue s) = int (size (tickets s)) \<and> bq_serving (rs_queue s) \<le> bq_next (rs_queue s) \<and>
     (\<not> bq_stopped (rs_queue s) \<longrightarrow> tickets s = mset_set {bq_serving (rs_queue s)..<bq_next (rs_queue s)})"

definition waits_ok :: "'a batch_queue \<Rightarrow> phase \<Rightarrow> 'a reader \<Rightarrow> bool" where
  "waits_ok q ph r \<longleftrightarrow> parked_before (bq_changed q) r \<and> \<not> forgotten q ph r"

definition wakeup_inv :: "'a ring_system \<Rightarrow> bool" where
  "wakeup_inv s \<longleftrightarrow> list_all (waits_ok (rs_queue s) (rs_phase s)) (rs_readers s)"

lemma sum_list_map_update:
  fixes f :: "'a \<Rightarrow> 'b :: comm_monoid_add"
  shows "i < length xs \<Longrightarrow> sum_list (map f (xs[i := x])) + f (xs ! i) = sum_list (map f xs) + f x"
  by (induction xs arbitrary: i) (auto split: nat.splits simp: ac_simps)

lemma list_all_update: "list_all P xs \<Longrightarrow> P x \<Longrightarrow> list_all P (xs[i := x])"
  using set_update_subset_insert [of xs i x] by (auto simp: list_all_iff)

lemma sip_try_admitted:
  "sip_try t fs q = SipAdmitted q' \<Longrightarrow> \<not> bq_stopped q \<and> t = bq_serving q \<and> bq_queued q + int (length fs) \<le> bq_max q \<and>
     q' = q\<lparr>bq_queued := bq_queued q + int (length fs), bq_runs := bq_runs q @ [new_frame_run fs],
       bq_pending := bq_pending q - 1, bq_serving := Suc (bq_serving q), bq_changed := Suc (bq_changed q)\<rparr>"
  by (auto simp: sip_try_def reserve_all_def send_run_def finish_sip_def signal_admission_def
    split: if_splits option.splits)

lemma sip_try_refused:
  "sip_try t fs q = SipRefused q' \<Longrightarrow> bq_stopped q \<and> q' = q\<lparr>bq_pending := bq_pending q - 1\<rparr>"
  by (auto simp: sip_try_def split: if_splits option.splits)

lemma sip_try_wait:
  "sip_try t fs q = SipWait g \<Longrightarrow> \<not> bq_stopped q \<and> g = bq_changed q \<and>
     (t = bq_serving q \<longrightarrow> bq_max q < bq_queued q + int (length fs))"
  by (auto simp: sip_try_def reserve_all_def split: if_splits option.splits)

lemma rtp_reserve_spec:
  "rtp_reserve fs q = (n, q') \<Longrightarrow> n \<le> length fs \<and> q' = q\<lparr>bq_queued := bq_queued q + int n\<rparr> \<and>
     (bq_queued q \<le> bq_max q \<longrightarrow> bq_queued q + int n \<le> bq_max q) \<and> (n \<noteq> 0 \<longrightarrow> bq_pending q = 0)"
  by (auto simp: rtp_reserve_def reserve_def Let_def split: if_splits)

lemma dequeue_frame_spec:
  "dequeue_frame r = (n, r') \<Longrightarrow> n \<noteq> 0 \<Longrightarrow>
    n = 1 \<and> \<not> fr_released r \<and> fr_remaining r = Suc (fr_remaining r') \<and> \<not> fr_released r' \<and> fr_frames r' = fr_frames r"
  by (auto simp: dequeue_frame_def split: if_splits)

lemma release_run_spec: "release_run r = (n, r') \<Longrightarrow> \<not> fr_released r \<Longrightarrow> n = fr_remaining r"
  by (auto simp: release_run_def)

lemmas step_specs = sip_try_admitted sip_try_refused sip_try_wait rtp_reserve_spec dequeue_frame_spec

lemma reader_at:
  "permits_inv s \<Longrightarrow> i < length (rs_readers s) \<Longrightarrow> reader_ok (bq_max (rs_queue s)) (rs_readers s ! i)"
  by (simp add: permits_inv_def list_all_length)

lemma permits_step: "queue_step s l s' \<Longrightarrow> permits_inv s \<Longrightarrow> permits_inv s'"
proof (induction rule: queue_step.induct)
  case (enter i s t q fs)
  then show ?case
    using sum_list_map_update [OF enter(1), of reader_sending "Locked t fs"]
    by (auto simp: permits_inv_def permits_out_def run_remaining_def sip_enter_def list_all_update split: if_splits)
next
  case (admit i s t fs q)
  then show ?case
    using sum_list_map_update [OF admit(1), of reader_sending Idle] sip_try_admitted [OF admit(3)]
      reader_at [OF admit(4,1)]
    by (auto simp: permits_inv_def permits_out_def run_remaining_def list_all_update new_frame_run_def)
next
  case (refuse i s t fs q)
  then show ?case
    using sum_list_map_update [OF refuse(1), of reader_sending Idle] sip_try_refused [OF refuse(3)]
    by (auto simp: permits_inv_def permits_out_def run_remaining_def list_all_update)
next
  case (park i s t fs g)
  then show ?case
    using sum_list_map_update [OF park(1), of reader_sending "Parked t fs g"] reader_at [OF park(4,1)]
    by (auto simp: permits_inv_def permits_out_def run_remaining_def list_all_update)
next
  case (wake i s t fs g)
  then show ?case
    using sum_list_map_update [OF wake(1), of reader_sending "Locked t fs"] reader_at [OF wake(5,1)]
    by (auto simp: permits_inv_def permits_out_def run_remaining_def list_all_update)
next
  case (rtp_take i s fs n q)
  let ?r = "if n = 0 then Idle else Sending (take n fs)"
  from rtp_take show ?case
    using sum_list_map_update [OF rtp_take(1), of reader_sending ?r] rtp_reserve_spec [OF rtp_take(6)]
    by (auto simp: permits_inv_def permits_out_def run_remaining_def list_all_update split: if_splits)
next
  case (rtp_send i s fs q)
  then show ?case
    using sum_list_map_update [OF rtp_send(1), of reader_sending Idle] reader_at [OF rtp_send(4,1)]
    by (auto simp: permits_inv_def permits_out_def run_remaining_def list_all_update send_run_def new_frame_run_def
      split: if_splits)
next
  case (dequeue s r n r')
  then show ?case using dequeue_frame_spec [OF dequeue(3,4)]
    by (auto simp: permits_inv_def permits_out_def run_remaining_def release_permits_def)
next
  case (finish s r r')
  then show ?case using release_run_spec [OF finish(3)]
    by (auto simp: permits_inv_def permits_out_def run_remaining_def)
next
  case (drain s r rs n r')
  then show ?case using release_run_spec [OF drain(5)]
    by (auto simp: permits_inv_def permits_out_def run_remaining_def release_permits_def)
qed (auto simp: permits_inv_def permits_out_def run_remaining_def signal_if_pending_def stop_queue_def
  signal_admission_def)

lemma tickets_update:
  "i < length (rs_readers s) \<Longrightarrow>
    sum_list (map reader_ticket ((rs_readers s)[i := r])) + reader_ticket (rs_readers s ! i) = tickets s + reader_ticket r"
  unfolding tickets_def by (rule sum_list_map_update)

lemma ticket_range:
  "a \<le> b \<Longrightarrow> mset_set {a..<Suc b} = add_mset b (mset_set {a..<b})"
  "a < b \<Longrightarrow> mset_set {a..<b} = add_mset a (mset_set {Suc a..<b})"
proof -
  show "mset_set {a..<Suc b} = add_mset b (mset_set {a..<b})" if "a \<le> b" using that by (simp add: atLeastLessThanSuc)
  show "mset_set {a..<b} = add_mset a (mset_set {Suc a..<b})" if "a < b"
    proof -
    have "{a..<b} = insert a {Suc a..<b}" using that by auto
    then show ?thesis by simp
  qed
qed

lemma tickets_step: "queue_step s l s' \<Longrightarrow> tickets_inv s \<Longrightarrow> tickets_inv s'"
proof (induction rule: queue_step.induct)
  case (enter i s t q fs)
  from enter(4) have q: "\<not> bq_stopped (rs_queue s)" "t = bq_next (rs_queue s)"
      "q = (rs_queue s)\<lparr>bq_next := Suc (bq_next (rs_queue s)), bq_pending := bq_pending (rs_queue s) + 1\<rparr>"
    by (auto simp: sip_enter_def split: if_splits)
  have "tickets (set_reader i (Locked t fs) (s\<lparr>rs_queue := q\<rparr>)) = add_mset t (tickets s)"
    using tickets_update [OF enter(1), of "Locked t fs"] enter(2) by (simp add: tickets_def)
  then show ?case using enter(7) by (simp add: tickets_inv_def q ticket_range(1) del: mset_set.insert)
next
  case (admit i s t fs q)
  note q = sip_try_admitted [OF admit(3)]
  have tk: "add_mset t (tickets (set_reader i Idle (s\<lparr>rs_queue := q\<rparr>))) = tickets s"
    using tickets_update [OF admit(1), of Idle] admit(2) by (simp add: tickets_def)
  have inv: "tickets s = mset_set {bq_serving (rs_queue s)..<bq_next (rs_queue s)}"
    using admit(4) q by (simp add: tickets_inv_def)
  have "t \<in># tickets s" using tk by (metis union_single_eq_member)
  then have less: "bq_serving (rs_queue s) < bq_next (rs_queue s)" using q inv by simp
  have "tickets (set_reader i Idle (s\<lparr>rs_queue := q\<rparr>)) = mset_set {Suc (bq_serving (rs_queue s))..<bq_next (rs_queue s)}"
    using tk inv q ticket_range(2) [OF less] by simp
  moreover have "size (tickets s) = Suc (size (tickets (set_reader i Idle (s\<lparr>rs_queue := q\<rparr>))))"
    unfolding tk [symmetric] by simp
  ultimately show ?case using admit(4) q less by (simp add: tickets_inv_def)
next
  case (refuse i s t fs q)
  note q = sip_try_refused [OF refuse(3)]
  have tk: "add_mset t (tickets (set_reader i Idle (s\<lparr>rs_queue := q\<rparr>))) = tickets s"
    using tickets_update [OF refuse(1), of Idle] refuse(2) by (simp add: tickets_def)
  have "size (tickets s) = Suc (size (tickets (set_reader i Idle (s\<lparr>rs_queue := q\<rparr>))))"
    unfolding tk [symmetric] by simp
  then show ?case using refuse(4) q by (simp add: tickets_inv_def)
next
  case (park i s t fs g)
  then show ?case using tickets_update [OF park(1), of "Parked t fs g"] by (simp add: tickets_inv_def tickets_def)
next
  case (wake i s t fs g)
  then show ?case using tickets_update [OF wake(1), of "Locked t fs"] by (simp add: tickets_inv_def tickets_def)
next
  case (rtp_take i s fs n q)
  let ?r = "if n = 0 then Idle else Sending (take n fs)"
  have "reader_ticket ?r = {#}" by simp
  then show ?case using tickets_update [OF rtp_take(1), of ?r] rtp_take rtp_reserve_spec [OF rtp_take(6)]
    by (simp add: tickets_inv_def tickets_def)
next
  case (rtp_send i s fs q)
  then show ?case using tickets_update [OF rtp_send(1), of Idle]
    by (auto simp: tickets_inv_def tickets_def send_run_def split: if_splits)
qed (auto simp: tickets_inv_def tickets_def release_permits_def signal_if_pending_def stop_queue_def
  signal_admission_def)

lemma sum_list_member: "x \<in># sum_list Ms \<longleftrightarrow> (\<exists>M\<in>set Ms. x \<in># M)"
  by (induction Ms) auto

lemma reader_ticket_member: "i < length (rs_readers s) \<Longrightarrow> reader_ticket (rs_readers s ! i) \<subseteq># tickets s"
  using tickets_update [of i s Idle] by (metis mset_subset_eq_add_right add.right_neutral reader_ticket.simps(3))

lemma list_all_mono_update: "list_all P xs \<Longrightarrow> (\<And>r. P r \<Longrightarrow> Q r) \<Longrightarrow> Q x \<Longrightarrow> list_all Q (xs[i := x])"
  by (rule list_all_update) (auto simp: list_all_iff)

lemma waits_ok_simps [simp]:
  "waits_ok q ph Idle" "waits_ok q ph (Locked t fs)" "waits_ok q ph (Sending fs)"
  "waits_ok q ph (Parked t fs g) \<longleftrightarrow> g \<le> bq_changed q \<and> (g = bq_changed q \<longrightarrow>
     \<not> bq_stopped q \<and> (ph = Running \<longrightarrow> t = bq_serving q \<longrightarrow> bq_max q < bq_queued q + int (length fs)))"
  by (auto simp: waits_ok_def)

lemma waits_ok_signal:
  "waits_ok q ph r \<Longrightarrow> bq_changed q' = Suc (bq_changed q) \<Longrightarrow> waits_ok q' ph' r"
  by (cases r) auto

lemma waits_ok_mono:
  "waits_ok q ph r \<Longrightarrow> bq_changed q' = bq_changed q \<Longrightarrow> bq_stopped q' = bq_stopped q \<Longrightarrow>
    bq_serving q' = bq_serving q \<Longrightarrow> bq_max q' = bq_max q \<Longrightarrow> bq_queued q \<le> bq_queued q' \<Longrightarrow> ph' = ph \<Longrightarrow> waits_ok q' ph' r"
  by (cases r) auto

lemma waits_ok_busy:
  "waits_ok q ph r \<Longrightarrow> bq_changed q' = bq_changed q \<Longrightarrow> bq_stopped q' = bq_stopped q \<Longrightarrow> ph' \<noteq> Running \<Longrightarrow> waits_ok q' ph' r"
  by (cases r) auto

lemma no_tickets:
  assumes "tickets_inv s" "bq_pending (rs_queue s) = 0" "r \<in> set (rs_readers s)"
  shows "reader_ticket r = {#}"
proof -
  have "tickets s = {#}" using assms(1,2) by (simp add: tickets_inv_def)
  moreover obtain i where "i < length (rs_readers s)" "rs_readers s ! i = r" using assms(3) by (auto simp: in_set_conv_nth)
  ultimately show ?thesis using reader_ticket_member [of i s] by simp
qed

lemma waits_ok_no_tickets: "reader_ticket r = {#} \<Longrightarrow> waits_ok q ph r"
  by (cases r) auto

lemma wakeup_step: "queue_step s l s' \<Longrightarrow> tickets_inv s \<Longrightarrow> wakeup_inv s \<Longrightarrow> wakeup_inv s'"
proof (induction rule: queue_step.induct)
  case (enter i s t q fs)
  then show ?case
    by (auto simp: wakeup_inv_def sip_enter_def split: if_splits intro!: list_all_mono_update elim: waits_ok_mono)
next
  case (admit i s t fs q)
  then show ?case using sip_try_admitted [OF admit(3)]
    by (auto simp: wakeup_inv_def intro!: list_all_mono_update elim: waits_ok_signal)
next
  case (refuse i s t fs q)
  then show ?case using sip_try_refused [OF refuse(3)]
    by (auto simp: wakeup_inv_def intro!: list_all_mono_update elim: waits_ok_mono)
next
  case (park i s t fs g)
  then show ?case using sip_try_wait [OF park(3)] by (auto simp: wakeup_inv_def intro!: list_all_update)
next
  case (wake i s t fs g)
  then show ?case by (auto simp: wakeup_inv_def intro!: list_all_update)
next
  case (rtp_take i s fs n q)
  then show ?case using rtp_reserve_spec [OF rtp_take(6)]
    by (auto simp: wakeup_inv_def intro!: list_all_mono_update elim: waits_ok_mono)
next
  case (rtp_send i s fs q)
  then show ?case
    by (auto simp: wakeup_inv_def send_run_def split: if_splits intro!: list_all_mono_update elim: waits_ok_mono)
next
  case (take_run s r rs)
  then show ?case by (auto simp: wakeup_inv_def elim!: list.pred_mono_strong waits_ok_mono)
next
  case (dequeue s r n r')
  then show ?case by (auto simp: wakeup_inv_def release_permits_def elim!: list.pred_mono_strong waits_ok_busy)
next
  case (finish s r r')
  then show ?case by (simp add: wakeup_inv_def)
next
  case (drain s r rs n r')
  then show ?case
    by (cases "n = 0")
      (auto simp: wakeup_inv_def release_permits_def elim!: list.pred_mono_strong elim: waits_ok_busy waits_ok_mono)
next
  case (look s)
  show ?case
  proof (cases "bq_pending (rs_queue s) = 0")
    case True
    then show ?thesis using no_tickets [OF look(2) True] by (auto simp: wakeup_inv_def list_all_iff intro!: waits_ok_no_tickets)
  next
    case False
    then show ?thesis using look by (auto simp: wakeup_inv_def elim!: list.pred_mono_strong waits_ok_busy)
  qed
next
  case (signal s)
  show ?case
  proof (cases "bq_pending (rs_queue s) = 0")
    case True
    then show ?thesis using no_tickets [OF signal(3) True]
      by (auto simp: wakeup_inv_def list_all_iff intro!: waits_ok_no_tickets)
  next
    case False
    then show ?thesis using signal
      by (auto simp: wakeup_inv_def signal_if_pending_def signal_admission_def elim!: list.pred_mono_strong waits_ok_signal)
  qed
next
  case (stop s)
  show ?case
  proof (cases "bq_stopped (rs_queue s)")
    case False
    then show ?thesis using stop
      by (auto simp: wakeup_inv_def stop_queue_def signal_admission_def elim!: list.pred_mono_strong waits_ok_signal)
  qed (use stop in \<open>simp add: wakeup_inv_def stop_queue_def\<close>)
qed

definition queue_inv :: "'a ring_system \<Rightarrow> bool" where
  "queue_inv s \<longleftrightarrow> permits_inv s \<and> tickets_inv s \<and> wakeup_inv s"

lemma queue_inv_step: "queue_step s l s' \<Longrightarrow> queue_inv s \<Longrightarrow> queue_inv s'"
  using permits_step tickets_step wakeup_step by (auto simp: queue_inv_def)

lemma queue_inv_start: "queue_inv (ring_start capacity n)"
proof -
  have "sum_list (replicate n {#}) = ({#} :: nat multiset)" by (induction n) simp_all
  then show ?thesis
    by (simp add: queue_inv_def permits_inv_def tickets_inv_def wakeup_inv_def ring_start_def new_batch_queue_def
      permits_out_def run_remaining_def tickets_def map_replicate_const sum_list_replicate list_all_iff)
qed

lemma queue_inv_exec: "queue_exec s ls s' \<Longrightarrow> queue_inv s \<Longrightarrow> queue_inv s'"
  by (induction rule: queue_exec.induct) (auto dest: queue_inv_step)

lemma bq_max_step: "queue_step s l s' \<Longrightarrow> bq_max (rs_queue s') = bq_max (rs_queue s)"
  by (induction rule: queue_step.induct)
    (auto simp: queue_defs Let_def split: if_splits option.splits)

lemma bq_max_exec: "queue_exec s ls s' \<Longrightarrow> bq_max (rs_queue s') = bq_max (rs_queue s)"
  by (induction rule: queue_exec.induct) (auto dest: bq_max_step)

section \<open>Sending never blocks\<close>

lemma runs_within_permits:
  assumes "permits_inv s"
  shows "length (bq_runs (rs_queue s)) + sum_list (map reader_sending (rs_readers s)) \<le> permits_out s"
proof -
  have "length rs \<le> sum_list (map fr_remaining rs)" if "list_all (\<lambda>r. 0 < fr_remaining r) rs" for rs :: "'a frame_run list"
    using that by (induction rs) auto
  moreover have "list_all (\<lambda>r. 0 < fr_remaining r) (bq_runs (rs_queue s))"
    using assms by (auto simp: permits_inv_def list_all_iff)
  ultimately have "length (bq_runs (rs_queue s)) \<le> sum_list (map fr_remaining (bq_runs (rs_queue s)))" by blast
  then show ?thesis by (simp add: permits_out_def)
qed

lemma sip_never_blocks: "permits_inv s \<Longrightarrow> fs \<noteq> [] \<Longrightarrow> sip_try t fs (rs_queue s) \<noteq> SipBlocked"
  using runs_within_permits [of s]
  by (auto simp: sip_try_def reserve_all_def send_run_def permits_inv_def neq_Nil_conv split: option.splits if_splits)

lemma rtp_never_blocks:
  assumes "permits_inv s" "Sending fs \<in> set (rs_readers s)"
  shows "send_run fs (rs_queue s) \<noteq> None"
proof -
  have "fs \<noteq> []" using assms by (auto simp: permits_inv_def list_all_iff)
  moreover have "length fs \<le> sum_list (map reader_sending (rs_readers s))"
    using member_le_sum_list [of "reader_sending (Sending fs)"] assms(2) by force
  ultimately have "length (bq_runs (rs_queue s)) < permits_out s"
    using runs_within_permits [OF assms(1)] by (cases fs) simp_all
  then show ?thesis using assms(1) by (auto simp: send_run_def permits_inv_def)
qed

text \<open>A reader inside a critical section can finish it: the channel it is about to send on has room.\<close>

fun can_go_on :: "'a batch_queue \<Rightarrow> 'a reader \<Rightarrow> bool" where
  "can_go_on q (Locked t fs) \<longleftrightarrow> sip_try t fs q \<noteq> SipBlocked"
| "can_go_on q (Sending fs) \<longleftrightarrow> send_run fs q \<noteq> None"
| "can_go_on q r \<longleftrightarrow> True"

lemma can_go_on_inv: "permits_inv s \<Longrightarrow> list_all (can_go_on (rs_queue s)) (rs_readers s)"
  unfolding list_all_iff
proof
  fix r assume s: "permits_inv s" "r \<in> set (rs_readers s)"
  then have "reader_ok (bq_max (rs_queue s)) r" by (auto simp: permits_inv_def list_all_iff)
  then show "can_go_on (rs_queue s) r" using s sip_never_blocks rtp_never_blocks by (cases r) auto
qed

section \<open>Progress\<close>

definition quiescent :: "'a ring_system \<Rightarrow> bool" where
  "quiescent s \<longleftrightarrow> list_all (\<lambda>r. r = Idle) (rs_readers s) \<and> bq_runs (rs_queue s) = [] \<and> rs_run s = None \<and> rs_phase s = Running"

lemma progress:
  assumes inv: "queue_inv s" and busy: "\<not> quiescent s"
  shows "\<exists>l s'. internal l \<and> queue_step s l s'"
proof -
  let ?q = "rs_queue s" and ?R = "rs_readers s"
  have go: "can_go_on ?q (?R ! i)" if "i < length ?R" for i
    using can_go_on_inv inv that by (auto simp: queue_inv_def list_all_length)
  have ok: "reader_ok (bq_max ?q) (?R ! i)" if "i < length ?R" for i
    using inv that by (auto simp: queue_inv_def permits_inv_def list_all_length)
  have waits: "waits_ok ?q (rs_phase s) (?R ! i)" if "i < length ?R" for i
    using inv that by (auto simp: queue_inv_def wakeup_inv_def list_all_length)
  consider (locked) i t fs where "i < length ?R" "?R ! i = Locked t fs"
    | (sending) i fs where "i < length ?R" "?R ! i = Sending fs"
    | (free) "lock_free s"
    unfolding lock_free_def list_all_length by (metis write_locked.elims(2) read_locked.elims(2))
  then show ?thesis
  proof cases
    case locked
    note l = locked
    show ?thesis
    proof (cases "sip_try t fs ?q")
      case (SipRefused q)
      from refuse [OF l this] show ?thesis by force
    next
      case (SipAdmitted q)
      from admit [OF l this] show ?thesis by force
    next
      case (SipWait g)
      from park [OF l this] show ?thesis by force
    qed (use go [OF l(1)] in \<open>simp add: l(2)\<close>)
  next
    case sending
    then obtain q where "send_run fs ?q = Some q" using go [OF sending(1)] by auto
    from rtp_send [OF sending this] show ?thesis by force
  next
    case free
    show ?thesis
    proof (cases "rs_phase s")
      case Released
      from look [OF this] show ?thesis by force
    next
      case Signalling
      from signal [OF this free] show ?thesis by force
    next
      case Running
      show ?thesis
      proof (cases "rs_run s")
        case (Some r)
        have r: "\<not> fr_released r" using inv Some by (simp add: queue_inv_def permits_inv_def)
        show ?thesis
        proof (cases "fr_remaining r = 0")
          case True
          then have "release_run r = (0, r\<lparr>fr_remaining := 0, fr_released := True\<rparr>)" using r by (simp add: release_run_def)
          from finish [OF Some Running this] show ?thesis by force
        next
          case False
          then have "dequeue_frame r = (1, r\<lparr>fr_remaining := fr_remaining r - 1\<rparr>)" using r by (simp add: dequeue_frame_def)
          from dequeue [OF Some Running this] show ?thesis by force
        qed
      next
        case None
        show ?thesis
        proof (cases "bq_runs ?q")
          case (Cons r rs)
          from take_run [OF None Running this] show ?thesis by force
        next
          case Nil
          have parked: "\<exists>t fs g. ?R ! i = Parked t fs g" if "i < length ?R" "?R ! i \<noteq> Idle" for i
            using free that by (cases "?R ! i") (auto simp: lock_free_def list_all_length dest: spec [of _ i])
          have "reader_sending r = 0" if "r \<in> set ?R" for r
            using free that by (cases r) (auto simp: lock_free_def list_all_iff)
          then have "permits_out s = 0" using Nil None by (simp add: permits_out_def run_remaining_def)
          then have empty: "bq_queued ?q = 0" using inv by (simp add: queue_inv_def permits_inv_def)
          obtain i where i: "i < length ?R" "?R ! i \<noteq> Idle"
            using busy Nil None Running by (auto simp: quiescent_def list_all_length)
          obtain t fs g where p: "?R ! i = Parked t fs g" using parked [OF i] by blast
          show ?thesis
          proof (cases "g = bq_changed ?q")
            case False
            from wake [OF i(1) p False free] show ?thesis by force
          next
            case True
            then have "\<not> bq_stopped ?q" using waits [OF i(1)] by (simp add: p)
            then have tk: "tickets s = mset_set {bq_serving ?q..<bq_next ?q}" using inv by (simp add: queue_inv_def tickets_inv_def)
            have "t \<in># tickets s" using reader_ticket_member [OF i(1)] by (simp add: p)
            then have "bq_serving ?q \<in># tickets s" by (simp add: tk)
            then obtain j where j: "j < length ?R" "bq_serving ?q \<in># reader_ticket (?R ! j)"
              unfolding tickets_def sum_list_member by (auto simp: in_set_conv_nth)
            then obtain fs' g' where p': "?R ! j = Parked (bq_serving ?q) fs' g'"
              using parked [OF j(1)] by (cases "?R ! j") auto
            have "g' \<noteq> bq_changed ?q" using waits [OF j(1)] ok [OF j(1)] Running empty by (auto simp: p')
            from wake [OF j(1) p' this free] show ?thesis by force
          qed
        qed
      qed
    qed
  qed
qed

section \<open>Every internal step makes progress\<close>

fun reader_packets :: "'a reader \<Rightarrow> nat" where
  "reader_packets (Locked _ fs) = length fs"
| "reader_packets (Parked _ fs _) = length fs"
| "reader_packets _ = 0"

fun wake_weight :: "nat \<Rightarrow> 'a reader \<Rightarrow> nat" where
  "wake_weight n (Locked _ _) = 1"
| "wake_weight n (Parked _ _ g) = (if g = n then 0 else 2)"
| "wake_weight n _ = 0"

fun send_weight :: "'a reader \<Rightarrow> nat" where
  "send_weight (Sending _) = 3"
| "send_weight _ = 0"

definition packets_left :: "'a ring_system \<Rightarrow> nat" where
  "packets_left s = permits_out s + sum_list (map reader_packets (rs_readers s))"

definition hand_overs_left :: "'a ring_system \<Rightarrow> nat" where
  "hand_overs_left s = sum_list (map send_weight (rs_readers s)) + 2 * length (bq_runs (rs_queue s)) +
     (case rs_run s of None \<Rightarrow> 0 | Some _ \<Rightarrow> 1)"

definition phase_weight :: "'a ring_system \<Rightarrow> nat" where
  "phase_weight s = (case rs_phase s of Running \<Rightarrow> 0 | Signalling \<Rightarrow> 1 | Released \<Rightarrow> 2)"

definition wakes_left :: "'a ring_system \<Rightarrow> nat" where
  "wakes_left s = sum_list (map (wake_weight (bq_changed (rs_queue s))) (rs_readers s))"

lemmas work_defs = packets_left_def hand_overs_left_def phase_weight_def wakes_left_def permits_out_def run_remaining_def

definition work_order :: "('a ring_system \<times> 'a ring_system) set" where
  "work_order = measures [packets_left, \<lambda>s. size (tickets s), hand_overs_left, phase_weight, wakes_left]"

lemma internal_step_works: "queue_step s l s' \<Longrightarrow> queue_inv s \<Longrightarrow> internal l \<Longrightarrow> (s', s) \<in> work_order"
proof (induction rule: queue_step.induct)
  case (admit i s t fs q)
  have "tickets s = add_mset t (tickets (set_reader i Idle (s\<lparr>rs_queue := q\<rparr>)))"
    using tickets_update [OF admit(1), of Idle] admit(2) by (simp add: tickets_def)
  then show ?case
    using sum_list_map_update [OF admit(1), of reader_packets Idle] sum_list_map_update [OF admit(1), of reader_sending Idle]
      admit(2) sip_try_admitted [OF admit(3)]
    by (auto simp: work_order_def work_defs new_frame_run_def)
next
  case (refuse i s t fs q)
  have "tickets s = add_mset t (tickets (set_reader i Idle (s\<lparr>rs_queue := q\<rparr>)))"
    using tickets_update [OF refuse(1), of Idle] refuse(2) by (simp add: tickets_def)
  then show ?case
    using sum_list_map_update [OF refuse(1), of reader_packets Idle] sum_list_map_update [OF refuse(1), of reader_sending Idle]
      refuse(2) sip_try_refused [OF refuse(3)]
    by (auto simp: work_order_def work_defs)
next
  case (park i s t fs g)
  let ?r = "Parked t fs g :: 'a reader"
  have "tickets (set_reader i ?r s) = tickets s"
    using tickets_update [OF park(1), of ?r] park(2) by (simp add: tickets_def)
  then show ?case
    using sum_list_map_update [OF park(1), of reader_packets ?r] sum_list_map_update [OF park(1), of reader_sending ?r]
      sum_list_map_update [OF park(1), of send_weight ?r] sip_try_wait [OF park(3)] park(2)
      sum_list_map_update [OF park(1), of "wake_weight (bq_changed (rs_queue s))" ?r]
    by (auto simp: work_order_def work_defs)
next
  case (wake i s t fs g)
  let ?r = "Locked t fs :: 'a reader"
  have "tickets (set_reader i ?r s) = tickets s"
    using tickets_update [OF wake(1), of ?r] wake(2) by (simp add: tickets_def)
  then show ?case
    using sum_list_map_update [OF wake(1), of reader_packets ?r] sum_list_map_update [OF wake(1), of reader_sending ?r]
      sum_list_map_update [OF wake(1), of send_weight ?r] wake(2,3)
      sum_list_map_update [OF wake(1), of "wake_weight (bq_changed (rs_queue s))" ?r]
    by (auto simp: work_order_def work_defs)
next
  case (rtp_send i s fs q)
  have "tickets (set_reader i Idle (s\<lparr>rs_queue := q\<rparr>)) = tickets s"
    using tickets_update [OF rtp_send(1), of Idle] rtp_send(2) by (simp add: tickets_def)
  then show ?case
    using sum_list_map_update [OF rtp_send(1), of reader_packets Idle] rtp_send(2,3)
      sum_list_map_update [OF rtp_send(1), of reader_sending Idle] sum_list_map_update [OF rtp_send(1), of send_weight Idle]
    by (auto simp: work_order_def work_defs send_run_def new_frame_run_def split: if_splits)
next
  case (dequeue s r n r')
  then show ?case using dequeue_frame_spec [OF dequeue(3,4)]
    by (auto simp: work_order_def work_defs tickets_def release_permits_def)
next
  case (finish s r r')
  then show ?case using release_run_spec [OF finish(3)]
    by (auto simp: work_order_def work_defs tickets_def queue_inv_def permits_inv_def)
next
  case (drain s r rs n r')
  then show ?case using release_run_spec [OF drain(5)]
    by (auto simp: work_order_def work_defs tickets_def queue_inv_def permits_inv_def release_permits_def)
next
  case (signal s)
  then show ?case by (auto simp: work_order_def work_defs tickets_def signal_if_pending_def signal_admission_def)
qed (auto simp: work_order_def work_defs tickets_def)

lemma wf_work_order: "wf work_order"
  by (simp add: work_order_def)

lemma internal_steps_end:
  assumes "queue_inv (f 0)"
  shows "\<not> (\<forall>k. \<exists>l. internal l \<and> queue_step (f k) l (f (Suc k)))"
proof
  assume run: "\<forall>k. \<exists>l. internal l \<and> queue_step (f k) l (f (Suc k))"
  have "queue_inv (f k)" for k
  proof (induction k)
    case (Suc k)
    then show ?case using run queue_inv_step by blast
  qed (rule assms)
  then have "(f (Suc k), f k) \<in> work_order" for k using run internal_step_works by blast
  then show False using wf_work_order wf_iff_no_infinite_down_chain by blast
qed

lemma exec_cons: "queue_exec s' ls s'' \<Longrightarrow> queue_step s l s' \<Longrightarrow> queue_exec s (l # ls) s''"
proof (induction rule: queue_exec.induct)
  case (exec_nil s')
  then show ?case using exec_snoc [OF queue_exec.exec_nil] by fastforce
next
  case (exec_snoc s' ls s1 l' s2)
  then show ?case using queue_exec.exec_snoc [of s "l # ls" s1 l' s2] by simp
qed

lemma internal_steps_complete:
  "queue_inv s \<Longrightarrow> \<exists>ls s'. queue_exec s ls s' \<and> list_all internal ls \<and> quiescent s'"
proof (induction s rule: wf_induct_rule [OF wf_work_order])
  case (1 s)
  show ?case
  proof (cases "quiescent s")
    case False
    from progress [OF "1.prems" this] obtain l s1 where st: "internal l" "queue_step s l s1" by blast
    from "1.IH" [OF internal_step_works [OF st(2) "1.prems" st(1)] queue_inv_step [OF st(2) "1.prems"]]
    obtain ls s' where "queue_exec s1 ls s'" "list_all internal ls" "quiescent s'" by blast
    with exec_cons [OF _ st(2)] st(1) have "queue_exec s (l # ls) s' \<and> list_all internal (l # ls) \<and> quiescent s'" by simp
    then show ?thesis by blast
  qed (use exec_nil in fastforce)
qed

section \<open>Order\<close>

definition entered :: "'a label list \<Rightarrow> (nat \<times> 'a list) list" where
  "entered ls = concat (map (\<lambda>l. case l of Entered t fs \<Rightarrow> [(t, fs)] | _ \<Rightarrow> []) ls)"

definition admitted :: "'a label list \<Rightarrow> (nat \<times> 'a list) list" where
  "admitted ls = concat (map (\<lambda>l. case l of Admitted t fs \<Rightarrow> [(t, fs)] | _ \<Rightarrow> []) ls)"

definition sent :: "'a label list \<Rightarrow> 'a list list" where
  "sent ls = concat (map (\<lambda>l. case l of Admitted t fs \<Rightarrow> [fs] | Sent fs \<Rightarrow> [fs] | _ \<Rightarrow> []) ls)"

definition received :: "'a label list \<Rightarrow> 'a list list" where
  "received ls = concat (map (\<lambda>l. case l of Taken fs \<Rightarrow> [fs] | Drained fs \<Rightarrow> [fs] | _ \<Rightarrow> []) ls)"

lemmas log_defs = entered_def admitted_def sent_def received_def

fun reader_entry :: "'a reader \<Rightarrow> (nat \<times> 'a list) set" where
  "reader_entry (Locked t fs) = {(t, fs)}"
| "reader_entry (Parked t fs _) = {(t, fs)}"
| "reader_entry _ = {}"

definition order_inv :: "'a label list \<Rightarrow> 'a ring_system \<Rightarrow> bool" where
  "order_inv ls s \<longleftrightarrow> map fst (entered ls) = [0..<bq_next (rs_queue s)] \<and>
     list_all (\<lambda>r. reader_entry r \<subseteq> set (entered ls)) (rs_readers s) \<and>
     admitted ls = take (bq_serving (rs_queue s)) (entered ls) \<and>
     sent ls = received ls @ map fr_frames (bq_runs (rs_queue s))"

lemma entered_length: "order_inv ls s \<Longrightarrow> length (entered ls) = bq_next (rs_queue s)"
  unfolding order_inv_def by (metis length_map length_upt minus_nat.diff_0)

lemma log_snoc:
  "entered (ls @ [l]) = entered ls @ (case l of Entered t fs \<Rightarrow> [(t, fs)] | _ \<Rightarrow> [])"
  "admitted (ls @ [l]) = admitted ls @ (case l of Admitted t fs \<Rightarrow> [(t, fs)] | _ \<Rightarrow> [])"
  "sent (ls @ [l]) = sent ls @ (case l of Admitted t fs \<Rightarrow> [fs] | Sent fs \<Rightarrow> [fs] | _ \<Rightarrow> [])"
  "received (ls @ [l]) = received ls @ (case l of Taken fs \<Rightarrow> [fs] | Drained fs \<Rightarrow> [fs] | _ \<Rightarrow> [])"
  by (simp_all add: log_defs)

lemma entry_at:
  "order_inv ls s \<Longrightarrow> i < length (rs_readers s) \<Longrightarrow> reader_entry (rs_readers s ! i) \<subseteq> set (entered ls)"
  by (simp add: order_inv_def list_all_length)

lemma order_step:
  "queue_step s l s' \<Longrightarrow> queue_inv s \<Longrightarrow> order_inv ls s \<Longrightarrow> order_inv (ls @ [l]) s'"
proof (induction rule: queue_step.induct)
  case (enter i s t q fs)
  then have "bq_serving (rs_queue s) \<le> length (entered ls)"
    using entered_length [OF enter(8)] by (simp add: queue_inv_def tickets_inv_def)
  with enter show ?case
    by (auto simp: order_inv_def log_snoc sip_enter_def split: if_splits intro!: list_all_mono_update)
next
  case (admit i s t fs q)
  note q = sip_try_admitted [OF admit(3)]
  have "(t, fs) \<in> set (entered ls)"
    using entry_at [OF admit(5,1)] admit(2) by simp
  then obtain k where k: "k < length (entered ls)" "entered ls ! k = (t, fs)" by (auto simp: in_set_conv_nth)
  have "length (entered ls) = bq_next (rs_queue s)" "map fst (entered ls) ! k = [0..<bq_next (rs_queue s)] ! k"
    using entered_length [OF admit(5)] admit(5) by (simp_all add: order_inv_def)
  with k have "k = t" by simp
  with k have "take (Suc t) (entered ls) = take t (entered ls) @ [(t, fs)]" by (simp add: take_Suc_conv_app_nth)
  with admit q show ?case
    by (auto simp: order_inv_def log_snoc new_frame_run_def intro!: list_all_mono_update)
next
  case (refuse i s t fs q)
  then show ?case using sip_try_refused [OF refuse(3)]
    by (auto simp: order_inv_def log_snoc intro!: list_all_mono_update)
next
  case (park i s t fs g)
  then show ?case using entry_at [OF park(5,1)]
    by (auto simp: order_inv_def log_snoc intro!: list_all_update)
next
  case (wake i s t fs g)
  then show ?case using entry_at [OF wake(6,1)]
    by (auto simp: order_inv_def log_snoc intro!: list_all_update)
next
  case (rtp_take i s fs n q)
  then show ?case using rtp_reserve_spec [OF rtp_take(6)]
    by (auto simp: order_inv_def log_snoc intro!: list_all_mono_update)
next
  case (rtp_send i s fs q)
  then show ?case
    by (auto simp: order_inv_def log_snoc send_run_def new_frame_run_def split: if_splits intro!: list_all_mono_update)
qed (auto simp: order_inv_def log_snoc release_permits_def signal_if_pending_def signal_admission_def stop_queue_def)

lemma order_inv_exec: "queue_exec (ring_start capacity n) ls s \<Longrightarrow> order_inv ls s"
proof (induction "ring_start capacity n :: 'a ring_system" ls s rule: queue_exec.induct)
  case exec_nil
  show ?case by (simp add: order_inv_def log_defs ring_start_def new_batch_queue_def list_all_iff)
next
  case (exec_snoc ls s' l s'')
  then show ?case using order_step queue_inv_exec queue_inv_start by blast
qed

section \<open>The properties\<close>

text \<open>A run in which a second SIP run waits because the first has filled the queue.\<close>

definition sample_waiting :: "nat ring_system" where
  "sample_waiting = \<lparr>rs_queue = \<lparr>bq_max = 1, bq_queued = 1, bq_runs = [new_frame_run [7]], bq_pending = 1, bq_next = 2,
     bq_serving = 1, bq_stopped = False, bq_changed = 1\<rparr>, rs_readers = [Idle, Parked 1 [8] 1], rs_run = None,
     rs_phase = Running, rs_dropped = 0\<rparr>"

lemma sample_waiting_exec:
  "queue_exec (ring_start 1 2) [Entered 0 [7], Admitted 0 [7], Entered 1 [8], Waits] sample_waiting"
proof -
  let ?s0 = "ring_start 1 2 :: nat ring_system"
  let ?q1 = "\<lparr>bq_max = 1, bq_queued = 0, bq_runs = [], bq_pending = 1, bq_next = 1, bq_serving = 0,
    bq_stopped = False, bq_changed = 0\<rparr> :: nat batch_queue"
  let ?s1 = "\<lparr>rs_queue = ?q1, rs_readers = [Locked 0 [7], Idle], rs_run = None, rs_phase = Running, rs_dropped = 0\<rparr>"
  let ?q2 = "\<lparr>bq_max = 1, bq_queued = 1, bq_runs = [new_frame_run [7]], bq_pending = 0, bq_next = 1, bq_serving = 1,
    bq_stopped = False, bq_changed = 1\<rparr> :: nat batch_queue"
  let ?s2 = "\<lparr>rs_queue = ?q2, rs_readers = [Idle, Idle], rs_run = None, rs_phase = Running, rs_dropped = 0\<rparr>"
  let ?q3 = "?q2\<lparr>bq_pending := 1, bq_next := 2\<rparr>"
  let ?s3 = "\<lparr>rs_queue = ?q3, rs_readers = [Idle, Locked 1 [8]], rs_run = None, rs_phase = Running, rs_dropped = 0\<rparr>"
  have "queue_step ?s0 (Entered 0 [7]) ?s1"
    using enter [of 0 ?s0 0 ?q1 "[7]"]
    by (simp add: ring_start_def new_batch_queue_def lock_free_def sip_enter_def numeral_2_eq_2)
  moreover have "queue_step ?s1 (Admitted 0 [7]) ?s2"
    using admit [of 0 ?s1 0 "[7]" ?q2]
    by (simp add: sip_try_def reserve_all_def send_run_def finish_sip_def signal_admission_def)
  moreover have "queue_step ?s2 (Entered 1 [8]) ?s3"
    using enter [of 1 ?s2 1 ?q3 "[8]"] by (simp add: lock_free_def sip_enter_def numeral_2_eq_2)
  moreover have "queue_step ?s3 Waits sample_waiting"
    using park [of 1 ?s3 1 "[8]" 1] by (simp add: sip_try_def reserve_all_def sample_waiting_def)
  ultimately show ?thesis
    using exec_snoc [OF exec_snoc [OF exec_snoc [OF exec_snoc [OF exec_nil]]]] by (metis append_Cons append_Nil)
qed

text \<open>
  C7: however readers, parser and closer interleave, the permits given out are exactly the packets in the
  channel, in the parser's hands and in a media run about to be sent; they never exceed the capacity; and the
  channel has room for every run that is about to be sent, so no reader blocks while it holds the lock.
\<close>

theorem queue_permits_exact:
  assumes "queue_exec (ring_start capacity n) ls s"
  shows "bq_queued (rs_queue s) = int (permits_out s) \<and> permits_out s \<le> capacity \<and>
    length (bq_runs (rs_queue s)) \<le> capacity \<and> list_all (can_go_on (rs_queue s)) (rs_readers s)"
proof -
  have inv: "permits_inv s" using queue_inv_exec [OF assms queue_inv_start] by (simp add: queue_inv_def)
  have "bq_max (rs_queue s) = int capacity"
    using bq_max_exec [OF assms] by (simp add: ring_start_def new_batch_queue_def)
  then show ?thesis using inv can_go_on_inv [OF inv] runs_within_permits [OF inv] by (auto simp: permits_inv_def)
qed

theorem queue_permits_exact_witness:
  "permits_out sample_waiting = 1 \<and> list_all (can_go_on (rs_queue sample_waiting)) (rs_readers sample_waiting)"
  using queue_permits_exact [OF sample_waiting_exec] by (simp add: sample_waiting_def)

text \<open>
  C6: a wake-up is never lost: a SIP run whose turn has come and for which there is room, and any waiting run once the
  queue is stopped, has been signalled, unless the parser has just given permits back and is about to look.
\<close>

theorem queue_no_lost_wakeup:
  assumes "queue_exec (ring_start capacity n) ls s"
  shows "list_all (\<lambda>r. \<not> forgotten (rs_queue s) (rs_phase s) r) (rs_readers s)"
  using queue_inv_exec [OF assms queue_inv_start]
  by (auto simp: queue_inv_def wakeup_inv_def waits_ok_def list_all_iff)

theorem queue_no_lost_wakeup_witness:
  "list_all (\<lambda>r. \<not> forgotten (rs_queue sample_waiting) (rs_phase sample_waiting) r) (rs_readers sample_waiting)"
  by (rule queue_no_lost_wakeup [OF sample_waiting_exec])

text \<open>
  C5: the queue never deadlocks and nobody waits for ever: once arrivals pause, every interleaving of the steps
  that remain ends, some interleaving completes them, and a state in which none is possible has an empty queue
  and no reader waiting; unless the queue was stopped, every SIP run that took a ticket has then been admitted.
\<close>

theorem queue_drains:
  assumes "queue_exec (ring_start capacity n) ls s"
  shows "\<not> (\<exists>f. f 0 = s \<and> (\<forall>k. \<exists>l. internal l \<and> queue_step (f k) l (f (Suc k)))) \<and>
    (\<exists>ls' s'. queue_exec s ls' s' \<and> list_all internal ls' \<and> quiescent s') \<and>
    ((\<nexists>l s'. internal l \<and> queue_step s l s') \<longrightarrow>
       quiescent s \<and> bq_queued (rs_queue s) = 0 \<and> (bq_stopped (rs_queue s) \<or> admitted ls = entered ls))"
proof (intro conjI impI)
  have inv: "queue_inv s" using queue_inv_exec [OF assms queue_inv_start] .
  show "\<not> (\<exists>f. f 0 = s \<and> (\<forall>k. \<exists>l. internal l \<and> queue_step (f k) l (f (Suc k))))"
    using internal_steps_end inv by blast
  show "\<exists>ls' s'. queue_exec s ls' s' \<and> list_all internal ls' \<and> quiescent s'" by (rule internal_steps_complete [OF inv])
  assume stuck: "\<nexists>l s'. internal l \<and> queue_step s l s'"
  show q: "quiescent s" using progress [OF inv] stuck by blast
  then have idle: "map reader_sending (rs_readers s) = map (\<lambda>_. 0) (rs_readers s)"
    "map reader_ticket (rs_readers s) = map (\<lambda>_. {#}) (rs_readers s)"
    by (auto simp: quiescent_def list_all_iff)
  then show "bq_queued (rs_queue s) = 0"
    using inv q by (simp add: queue_inv_def permits_inv_def permits_out_def run_remaining_def quiescent_def)
  show "bq_stopped (rs_queue s) \<or> admitted ls = entered ls"
  proof (rule disjCI)
    assume "admitted ls \<noteq> entered ls"
    then have "bq_serving (rs_queue s) < length (entered ls)"
      using order_inv_exec [OF assms] by (auto simp: order_inv_def not_less)
    moreover have "length (entered ls) = bq_next (rs_queue s)"
      using entered_length [OF order_inv_exec [OF assms]] .
    ultimately have "mset_set {bq_serving (rs_queue s)..<bq_next (rs_queue s)} \<noteq> {#}" by (simp add: mset_set_empty_iff)
    moreover have "tickets s = {#}" unfolding tickets_def idle(2) by (induction "rs_readers s") simp_all
    ultimately show "bq_stopped (rs_queue s)" using inv by (auto simp: queue_inv_def tickets_inv_def)
  qed
qed

theorem queue_drains_witness:
  "\<exists>ls' s'. queue_exec sample_waiting ls' s' \<and> list_all internal ls' \<and> quiescent s'"
  using queue_drains [OF sample_waiting_exec] by blast

text \<open>
  C26: SIP runs enter the channel in the order of their tickets and none is skipped, and the parser receives the
  runs of the channel in the order they were sent.
\<close>

theorem queue_fifo:
  assumes "queue_exec (ring_start capacity n) ls s"
  shows "admitted ls = take (bq_serving (rs_queue s)) (entered ls) \<and>
    map fst (entered ls) = [0..<bq_next (rs_queue s)] \<and>
    sent ls = received ls @ map fr_frames (bq_runs (rs_queue s))"
  using order_inv_exec [OF assms] by (simp add: order_inv_def)

theorem queue_fifo_witness:
  "admitted [Entered 0 [7 :: nat], Admitted 0 [7], Entered 1 [8], Waits] =
     take (bq_serving (rs_queue sample_waiting)) (entered [Entered 0 [7], Admitted 0 [7], Entered 1 [8], Waits])"
  using queue_fifo [OF sample_waiting_exec] by blast

end
