(* ===== verification/Block_Ownership.thy ===== *)
theory Block_Ownership
  imports Packet_Ring "HOL-Library.Multiset"
begin

text \<open>
  Who owns a block of the ring (\<open>internal/exporter/packet_ring.go\<close>): the reference count that gives a block
  back to the kernel when its last run is done, the reader's book of borrowed blocks, and the life of the ring
  itself (setup, roll-back, closing).  The atomic operations of a reference are single steps that interleave
  freely; the block itself is the argument \<open>release\<close> of the Go code, counted by \<open>ow_freed\<close>.
\<close>

section \<open>References to a block\<close>

text \<open>
  What a goroutine inside \<open>retain\<close> or \<open>release\<close> has done so far: seen its reference unreleased, raised the
  count, or won the right to lower it.
\<close>

datatype ref_op = Checked nat | Raised nat | Dropping

record block_ownership =
  ow_references :: int
  ow_freed :: nat
  ow_released :: "bool list"
  ow_ops :: "ref_op multiset"

text \<open>\<open>newPacketRingBlockReference\<close>: one reference, number 0.\<close>

definition new_block_reference :: block_ownership where
  "new_block_reference = \<lparr>ow_references = 1, ow_freed = 0, ow_released = [False], ow_ops = {#}\<rparr>"

text \<open>\<open>releaseReference\<close>: the decrement, and the release of the block when it reaches zero.\<close>

definition release_reference :: "block_ownership \<Rightarrow> block_ownership" where
  "release_reference o1 =
     (let left = ow_references o1 - 1
      in o1\<lparr>ow_references := left, ow_freed := (if left = 0 then Suc (ow_freed o1) else ow_freed o1)\<rparr>)"

text \<open>The steps of \<open>retain\<close>: \<open>None\<close> is a nil result.\<close>

definition retain_check :: "nat \<Rightarrow> block_ownership \<Rightarrow> block_ownership" where
  "retain_check i o1 = (if ow_released o1 ! i then o1 else o1\<lparr>ow_ops := add_mset (Checked i) (ow_ops o1)\<rparr>)"

definition retain_raise :: "nat \<Rightarrow> block_ownership \<Rightarrow> block_ownership" where
  "retain_raise i o1 =
     (let ops = ow_ops o1 - {#Checked i#} in
      if ow_references o1 = 0 then o1\<lparr>ow_ops := ops\<rparr>
      else o1\<lparr>ow_references := ow_references o1 + 1, ow_ops := add_mset (Raised i) ops\<rparr>)"

definition retain_recheck :: "nat \<Rightarrow> block_ownership \<Rightarrow> block_ownership" where
  "retain_recheck i o1 =
     (let ops = ow_ops o1 - {#Raised i#} in
      if ow_released o1 ! i then o1\<lparr>ow_ops := add_mset Dropping ops\<rparr>
      else o1\<lparr>ow_ops := ops, ow_released := ow_released o1 @ [False]\<rparr>)"

text \<open>\<open>release\<close> of a reference: the swap of its flag, which only one caller wins.\<close>

definition release_flag :: "nat \<Rightarrow> block_ownership \<Rightarrow> block_ownership" where
  "release_flag i o1 =
     (if ow_released o1 ! i then o1
      else o1\<lparr>ow_released := (ow_released o1)[i := True], ow_ops := add_mset Dropping (ow_ops o1)\<rparr>)"

inductive own_step :: "block_ownership \<Rightarrow> block_ownership \<Rightarrow> bool" where
  check: "i < length (ow_released b) \<Longrightarrow> own_step b (retain_check i b)"
| raise: "Checked i \<in># ow_ops b \<Longrightarrow> i < length (ow_released b) \<Longrightarrow> own_step b (retain_raise i b)"
| recheck: "Raised i \<in># ow_ops b \<Longrightarrow> i < length (ow_released b) \<Longrightarrow> own_step b (retain_recheck i b)"
| release: "i < length (ow_released b) \<Longrightarrow> own_step b (release_flag i b)"
| drop_ref: "Dropping \<in># ow_ops b \<Longrightarrow> own_step b (release_reference (b\<lparr>ow_ops := ow_ops b - {#Dropping#}\<rparr>))"

inductive ref_reachable :: "block_ownership \<Rightarrow> bool" where
  ref_init: "ref_reachable new_block_reference"
| ref_next: "ref_reachable b \<Longrightarrow> own_step b b' \<Longrightarrow> ref_reachable b'"

text \<open>The references alive: unreleased ones, and those a goroutine has raised or has yet to lower.\<close>

fun counts :: "ref_op \<Rightarrow> bool" where
  "counts (Checked i) = False"
| "counts _ = True"

definition live_references :: "block_ownership \<Rightarrow> nat" where
  "live_references b = length (filter (\<lambda>f. \<not> f) (ow_released b)) + size (filter_mset counts (ow_ops b))"

definition ownership_inv :: "block_ownership \<Rightarrow> bool" where
  "ownership_inv b \<longleftrightarrow> ow_references b = int (live_references b) \<and>
     ow_freed b = (if live_references b = 0 then 1 else 0)"

lemma filter_update_true:
  "i < length fs \<Longrightarrow> \<not> fs ! i \<Longrightarrow> Suc (length (filter (\<lambda>f. \<not> f) (fs[i := True]))) = length (filter (\<lambda>f. \<not> f) fs)"
  by (induction fs arbitrary: i) (auto split: nat.splits)

lemma some_unreleased: "i < length fs \<Longrightarrow> \<not> fs ! i \<Longrightarrow> 0 < length (filter (\<lambda>f. \<not> f) fs)"
  by (metis filter_update_true zero_less_Suc)

lemma ops_split: "op1 \<in># ops \<Longrightarrow> ops = add_mset op1 (ops - {#op1#})"
  by simp

lemma ownership_step: "own_step b b' \<Longrightarrow> ownership_inv b \<Longrightarrow> ownership_inv b'"
proof (induction rule: own_step.induct)
  case (check i b)
  then show ?case by (auto simp: ownership_inv_def live_references_def retain_check_def)
next
  case (raise i b)
  obtain ops where ops: "ow_ops b = add_mset (Checked i) ops" using raise(1) ops_split by metis
  show ?case using raise(3)
    by (auto simp: ownership_inv_def live_references_def retain_raise_def ops Let_def)
next
  case (recheck i b)
  obtain ops where ops: "ow_ops b = add_mset (Raised i) ops" using recheck(1) ops_split by metis
  show ?case using recheck(3)
    by (auto simp: ownership_inv_def live_references_def retain_recheck_def ops Let_def)
next
  case (release i b)
  then show ?case using filter_update_true [of i "ow_released b"]
    by (auto simp: ownership_inv_def live_references_def release_flag_def)
next
  case (drop_ref b)
  obtain ops where ops: "ow_ops b = add_mset Dropping ops" using drop_ref(1) ops_split by metis
  let ?b = "release_reference (b\<lparr>ow_ops := ow_ops b - {#Dropping#}\<rparr>)"
  have "live_references b = Suc (live_references ?b)"
    by (simp add: live_references_def release_reference_def ops Let_def)
  then show ?case using drop_ref(2) by (auto simp: ownership_inv_def release_reference_def Let_def)
qed

text \<open>
  C9: however retains and releases interleave, a block is given back to the kernel at most once, never while a
  reference to it is unreleased, and it has been given back as soon as every reference is released and no
  goroutine is inside one of the operations.
\<close>

theorem block_freed_exactly_once:
  assumes "ref_reachable b"
  shows "ow_freed b \<le> 1 \<and> (False \<in> set (ow_released b) \<longrightarrow> ow_freed b = 0) \<and>
    (False \<notin> set (ow_released b) \<and> ow_ops b = {#} \<longrightarrow> ow_freed b = 1)"
proof -
  have inv: "ownership_inv b" using assms
  proof induction
    case ref_init
    show ?case by (simp add: ownership_inv_def live_references_def new_block_reference_def)
  qed (rule ownership_step)
  moreover have "0 < live_references b" if "False \<in> set (ow_released b)"
    using that some_unreleased by (auto simp: live_references_def in_set_conv_nth)
  moreover have "live_references b = 0" if "False \<notin> set (ow_released b)" "ow_ops b = {#}"
    using that by (simp add: live_references_def filter_empty_conv) metis
  ultimately show ?thesis by (auto simp: ownership_inv_def)
qed

text \<open>A retain that is overtaken by the release of its own reference.\<close>

definition sample_ownership :: block_ownership where
  "sample_ownership = (let b1 = retain_check 0 new_block_reference; b2 = retain_raise 0 b1; b3 = release_flag 0 b2;
     b4 = release_reference (b3\<lparr>ow_ops := ow_ops b3 - {#Dropping#}\<rparr>); b5 = retain_recheck 0 b4
   in release_reference (b5\<lparr>ow_ops := ow_ops b5 - {#Dropping#}\<rparr>))"

theorem block_freed_exactly_once_witness: "ow_freed sample_ownership = 1"
proof -
  let ?b1 = "retain_check 0 new_block_reference" let ?b2 = "retain_raise 0 ?b1" let ?b3 = "release_flag 0 ?b2"
  let ?b4 = "release_reference (?b3\<lparr>ow_ops := ow_ops ?b3 - {#Dropping#}\<rparr>)" let ?b5 = "retain_recheck 0 ?b4"
  note ev = retain_check_def retain_raise_def release_flag_def release_reference_def retain_recheck_def
    new_block_reference_def Let_def
  have "ref_reachable ?b1" by (rule ref_next [OF ref_init check]) (simp add: ev)
  then have "ref_reachable ?b2" by (rule ref_next [OF _ raise]) (simp_all add: ev)
  then have "ref_reachable ?b3" by (rule ref_next [OF _ release]) (simp add: ev)
  then have "ref_reachable ?b4" by (rule ref_next [OF _ drop_ref]) (simp add: ev)
  then have "ref_reachable ?b5" by (rule ref_next [OF _ recheck]) (simp_all add: ev)
  then have "ref_reachable sample_ownership"
    unfolding sample_ownership_def Let_def by (rule ref_next [OF _ drop_ref]) (simp add: ev)
  from block_freed_exactly_once [OF this] show ?thesis by (simp add: sample_ownership_def ev)
qed

section \<open>The reader's borrowed blocks\<close>

record borrowed_blocks =
  bb_borrowed :: "bool list"
  bb_count :: nat
  bb_notices :: "nat list"

definition new_borrowed_blocks :: "nat \<Rightarrow> borrowed_blocks" where
  "new_borrowed_blocks block_count = \<lparr>bb_borrowed = replicate block_count False, bb_count = 0, bb_notices = []\<rparr>"

definition track_block :: "nat \<Rightarrow> borrowed_blocks \<Rightarrow> borrowed_blocks" where
  "track_block index b = b\<lparr>bb_borrowed := (bb_borrowed b)[index := True], bb_count := bb_count b + 1\<rparr>"

text \<open>\<open>packetRingBlock.release\<close> sends the index on a channel of \<open>blockCount\<close> places: \<open>None\<close> would block.\<close>

definition notify_release :: "nat \<Rightarrow> borrowed_blocks \<Rightarrow> borrowed_blocks option" where
  "notify_release index b =
     (if length (bb_notices b) < length (bb_borrowed b) then Some (b\<lparr>bb_notices := bb_notices b @ [index]\<rparr>) else None)"

text \<open>The receiving branch of \<open>waitForRelease\<close>; \<open>None\<close> when there is nothing to receive.\<close>

definition receive_release :: "borrowed_blocks \<Rightarrow> borrowed_blocks option" where
  "receive_release b =
     (case bb_notices b of
        [] \<Rightarrow> None
      | index # rest \<Rightarrow>
          Some (b\<lparr>bb_borrowed := (bb_borrowed b)[index := False], bb_count := bb_count b - 1, bb_notices := rest\<rparr>))"

text \<open>The reader with the blocks it has tracked and that have not been released yet.\<close>

inductive borrow_step :: "borrowed_blocks \<times> nat list \<Rightarrow> borrowed_blocks \<times> nat list \<Rightarrow> bool" where
  track: "index < length (bb_borrowed b) \<Longrightarrow> \<not> bb_borrowed b ! index \<Longrightarrow>
    borrow_step (b, out) (track_block index b, out @ [index])"
| free: "index \<in> set out \<Longrightarrow> notify_release index b = Some b' \<Longrightarrow> borrow_step (b, out) (b', remove1 index out)"
| receive: "receive_release b = Some b' \<Longrightarrow> borrow_step (b, out) (b', out)"

inductive borrow_reachable :: "nat \<Rightarrow> borrowed_blocks \<times> nat list \<Rightarrow> bool" for n where
  borrow_init: "borrow_reachable n (new_borrowed_blocks n, [])"
| borrow_next: "borrow_reachable n s \<Longrightarrow> borrow_step s s' \<Longrightarrow> borrow_reachable n s'"

definition borrow_inv :: "nat \<Rightarrow> borrowed_blocks \<times> nat list \<Rightarrow> bool" where
  "borrow_inv n = (\<lambda>(b, out). length (bb_borrowed b) = n \<and> distinct (out @ bb_notices b) \<and>
     (\<forall>i<n. bb_borrowed b ! i \<longleftrightarrow> i \<in> set (out @ bb_notices b)) \<and> set (out @ bb_notices b) \<subseteq> {..<n} \<and>
     bb_count b = length (out @ bb_notices b))"

lemma borrow_inv_step: "borrow_step s s' \<Longrightarrow> borrow_inv n s \<Longrightarrow> borrow_inv n s'"
proof (induction rule: borrow_step.induct)
  case (track index b out)
  then show ?case by (auto simp: borrow_inv_def track_block_def nth_list_update)
next
  case (free index out b b')
  then show ?case
    by (auto simp: borrow_inv_def notify_release_def length_remove1 split: if_splits
      dest: length_pos_if_in_set)
next
  case (receive b b' out)
  then show ?case
    by (auto simp: borrow_inv_def receive_release_def nth_list_update split: list.splits if_splits)
qed

text \<open>
  the reader's count of borrowed blocks is the number of its marks; a block is marked from the moment its
  frames are handed out until the notice of its release is received, so it is never read again before; and the
  channel of notices has room for every block still out, so giving a block back never blocks the parser.
\<close>

theorem borrowed_blocks_exact:
  assumes "borrow_reachable n (b, out)"
  shows "bb_count b = length (filter id (bb_borrowed b)) \<and> distinct (out @ bb_notices b) \<and>
    list_all (\<lambda>i. bb_borrowed b ! i \<and> notify_release i b \<noteq> None) out"
proof -
  have inv: "borrow_inv n (b, out)" using assms
  proof induction
    case borrow_init
    show ?case by (simp add: borrow_inv_def new_borrowed_blocks_def)
  qed (rule borrow_inv_step)
  let ?xs = "out @ bb_notices b"
  have xs: "distinct ?xs" "set ?xs = {i. i < n \<and> bb_borrowed b ! i}" "length (bb_borrowed b) = n" "bb_count b = length ?xs"
    using inv unfolding borrow_inv_def by auto
  have "length (filter id (bb_borrowed b)) = card {i. i < n \<and> bb_borrowed b ! i}"
    using xs(3) by (simp add: length_filter_conv_card)
  then have "bb_count b = length (filter id (bb_borrowed b))" using xs distinct_card [OF xs(1)] by simp
  moreover have "length ?xs \<le> n"
    using distinct_card [OF xs(1)] xs(2) card_mono [of "{..<n}" "set ?xs"] by auto
  then have "list_all (\<lambda>i. bb_borrowed b ! i \<and> notify_release i b \<noteq> None) out"
    using xs(2,3) by (fastforce simp: list_all_iff notify_release_def in_set_conv_decomp)
  ultimately show ?thesis using xs(1) by blast
qed

theorem borrowed_blocks_exact_witness:
  "list_all (\<lambda>i. bb_borrowed (track_block 1 (new_borrowed_blocks 2)) ! i \<and>
     notify_release i (track_block 1 (new_borrowed_blocks 2)) \<noteq> None) [1]"
proof -
  have "borrow_reachable 2 (track_block 1 (new_borrowed_blocks 2), [] @ [1])"
    by (rule borrow_next [OF borrow_init track]) (simp_all add: new_borrowed_blocks_def)
  from borrowed_blocks_exact [OF this] show ?thesis by simp
qed

section \<open>Waiting for a block\<close>

text \<open>Error numbers and poll bits of Linux.\<close>

type_synonym errno = nat

definition eintr :: errno where "eintr = 4"
definition ebadf :: errno where "ebadf = 9"
definition eagain :: errno where "eagain = 11"
definition enodev :: errno where "enodev = 19"
definition enotsock :: errno where "enotsock = 88"
definition enetdown :: errno where "enetdown = 100"

lemmas errno_defs = eintr_def ebadf_def eagain_def enodev_def enotsock_def enetdown_def

definition pollerr :: u16 where "pollerr = 8"
definition pollhup :: u16 where "pollhup = 16"
definition pollnval :: u16 where "pollnval = 32"

definition packet_ring_poll_result :: "u16 \<Rightarrow> nat \<Rightarrow> errno option" where
  "packet_ring_poll_result revents socket_err =
     (if revents AND pollnval \<noteq> 0 then Some ebadf
      else if socket_err \<noteq> 0 then Some socket_err
      else if revents AND (pollerr OR pollhup) \<noteq> 0 then Some enodev
      else None)"

text \<open>The results of the two system calls are arguments: an error or their value.\<close>

definition wait_packet_ring :: "int \<Rightarrow> errno + (nat \<times> u16) \<Rightarrow> errno + nat \<Rightarrow> errno option" where
  "wait_packet_ring fd polled socket_error =
     (if fd < 0 then Some ebadf
      else case polled of
        Inl err \<Rightarrow> Some err
      | Inr (n, revents) \<Rightarrow>
          if n = 0 then Some eagain
          else if revents AND (pollerr OR pollhup) \<noteq> 0
          then (case socket_error of Inl err \<Rightarrow> Some err | Inr e \<Rightarrow> packet_ring_poll_result revents e)
          else packet_ring_poll_result revents 0)"

text \<open>Whether the reader stops, and whether \<open>SystemError\<close> is counted.\<close>

definition handle_read_error :: "errno \<Rightarrow> bool \<times> bool" where
  "handle_read_error err =
     (if err = eintr then (False, False)
      else if err = ebadf \<or> err = enotsock then (True, False)
      else if err = enetdown \<or> err = enodev then (True, False)
      else (False, err \<noteq> eagain))"

text \<open>One turn of the loop of \<open>nextPacketRingBlock\<close>, after the block's index has become reusable.\<close>

datatype reader_turn = TurnStop | TurnError ring_error | TurnBlock ring_block | TurnWaitRelease | TurnPoll

definition next_block_turn :: "bool \<Rightarrow> packet_ring \<Rightarrow> u32 \<Rightarrow> borrowed_blocks \<Rightarrow> reader_turn option" where
  "next_block_turn is_closed ring index borrowed =
     (if is_closed then Some TurnStop
      else map_option (\<lambda>r. case r of
          Inl err \<Rightarrow> TurnError err
        | Inr (Some block) \<Rightarrow> TurnBlock block
        | Inr None \<Rightarrow> if bb_count borrowed \<noteq> 0 then TurnWaitRelease else TurnPoll)
        (decode_block index ring))"

text \<open>A hot-unplugged or closed interface ends its reader, whichever way the poll reports it; a time-out never does.\<close>

lemma poll_failure_stops_reader:
  "revents AND pollnval \<noteq> 0 \<Longrightarrow> n \<noteq> 0 \<Longrightarrow> revents AND (pollerr OR pollhup) = 0 \<Longrightarrow>
     map_option handle_read_error (wait_packet_ring fd (Inr (n, revents)) se) = Some (True, False)"
  "n \<noteq> 0 \<Longrightarrow> revents AND (pollerr OR pollhup) \<noteq> 0 \<Longrightarrow>
     map_option handle_read_error (wait_packet_ring fd (Inr (n, revents)) (Inr 0)) = Some (True, False)"
  "0 \<le> fd \<Longrightarrow> map_option handle_read_error (wait_packet_ring fd (Inr (0, revents)) se) = Some (False, False)"
  by (simp_all add: wait_packet_ring_def packet_ring_poll_result_def handle_read_error_def errno_defs)

section \<open>Setting the ring up and closing it\<close>

text \<open>
  The system calls made on the socket.  What they return is an argument: the error of a call, if any, and
  the memory \<open>Mmap\<close> gives.
\<close>

datatype ring_call = SetVersion | SetRxRing ring_request | MmapRing nat | Munmap | DisableRxRing | CloseFd

datatype setup_error = BuildRequest | CallFailed ring_call errno

record ring_handle =
  rh_block_size :: u32
  rh_block_count :: u32
  rh_memory :: "u8 list"
  rh_fd_open :: bool
  rh_rx_configured :: bool

definition attempt :: "(ring_call \<Rightarrow> errno option) \<Rightarrow> ring_call \<Rightarrow> setup_error list" where
  "attempt sys c = (case sys c of None \<Rightarrow> [] | Some err \<Rightarrow> [CallFailed c err])"

text \<open>\<open>close\<close>: the errors joined, the calls made and the ring after them.\<close>

definition close_ring :: "(ring_call \<Rightarrow> errno option) \<Rightarrow> ring_handle \<Rightarrow> setup_error list \<times> ring_call list \<times> ring_handle" where
  "close_ring sys r =
     (let unmap = (rh_memory r \<noteq> []);
          disable = (rh_fd_open r \<and> rh_rx_configured r);
          calls = (if unmap then [Munmap] else []) @ (if disable then [DisableRxRing] else []) @
            (if rh_fd_open r then [CloseFd] else [])
      in (concat (map (attempt sys) calls), calls,
          r\<lparr>rh_memory := [], rh_rx_configured := False, rh_fd_open := False\<rparr>))"

definition rollback_setup ::
  "(ring_call \<Rightarrow> errno option) \<Rightarrow> ring_handle \<Rightarrow> setup_error \<Rightarrow> ring_call list
    \<Rightarrow> (setup_error list + ring_handle) \<times> ring_call list" where
  "rollback_setup sys r err made = (let (errs, calls, r') = close_ring sys r in (Inl (err # errs), made @ calls))"

definition setup_packet_ring ::
  "u32 \<Rightarrow> (ring_call \<Rightarrow> errno option) \<Rightarrow> (nat \<Rightarrow> u8 list) \<Rightarrow> ring_geometry
    \<Rightarrow> (setup_error list + ring_handle) \<times> ring_call list" where
  "setup_packet_ring page_size sys memory g =
     (let r0 = \<lparr>rh_block_size = 0, rh_block_count = 0, rh_memory = [], rh_fd_open = True, rh_rx_configured = False\<rparr> in
      case ring_request_of page_size g of
        None \<Rightarrow> rollback_setup sys r0 BuildRequest []
      | Some req \<Rightarrow>
          let r1 = r0\<lparr>rh_block_size := rq_block_size req, rh_block_count := rq_block_nr req\<rparr>;
              c1 = [SetVersion]; c2 = c1 @ [SetRxRing req];
              size = unat (rq_block_size req) * unat (rq_block_nr req); c3 = c2 @ [MmapRing size]
          in case sys SetVersion of
               Some err \<Rightarrow> rollback_setup sys r1 (CallFailed SetVersion err) c1
             | None \<Rightarrow>
               (case sys (SetRxRing req) of
                  Some err \<Rightarrow> rollback_setup sys r1 (CallFailed (SetRxRing req) err) c2
                | None \<Rightarrow>
                  let r2 = r1\<lparr>rh_rx_configured := True\<rparr>
                  in case sys (MmapRing size) of
                       Some err \<Rightarrow> rollback_setup sys r2 (CallFailed (MmapRing size) err) c3
                     | None \<Rightarrow> (Inr (r2\<lparr>rh_memory := memory size\<rparr>), c3)))"

text \<open>Resources held after a list of calls of which \<open>sys\<close> tells the failed ones: ring, mapping, socket.\<close>

fun ring_resources :: "(ring_call \<Rightarrow> errno option) \<Rightarrow> ring_call list \<Rightarrow> bool \<times> bool \<times> bool \<Rightarrow> bool \<times> bool \<times> bool" where
  "ring_resources sys [] held = held"
| "ring_resources sys (c # cs) (ring, mm, fd) = ring_resources sys cs
     (case c of SetRxRing _ \<Rightarrow> (ring \<or> sys c = None, mm, fd) | MmapRing _ \<Rightarrow> (ring, mm \<or> sys c = None, fd)
      | DisableRxRing \<Rightarrow> (False, mm, fd) | Munmap \<Rightarrow> (ring, False, fd) | CloseFd \<Rightarrow> (ring, mm, False) | _ \<Rightarrow> (ring, mm, fd))"

text \<open>
  a setup that fails leaves nothing behind, wherever it fails: the receive ring is disabled if it was
  configured, the socket is closed exactly once, and the first error reported is the cause.  A setup that
  succeeds keeps ring, mapping and socket, and closing it releases the three; closing twice makes no call.
\<close>

theorem ring_setup_clean:
  "case setup_packet_ring page_size sys memory g of
     (Inl errs, calls) \<Rightarrow> ring_resources sys calls (False, False, True) = (False, False, False) \<and>
       count_list calls CloseFd = 1 \<and> errs \<noteq> []
   | (Inr r, calls) \<Rightarrow> ring_resources sys calls (False, False, True) = (True, True, True) \<and>
       rh_memory r = memory (unat (rh_block_size r) * unat (rh_block_count r)) \<and>
       fst (snd (close_ring sys r)) = (if rh_memory r = [] then [] else [Munmap]) @ [DisableRxRing, CloseFd] \<and>
       fst (snd (close_ring sys (snd (snd (close_ring sys r))))) = []"
  by (auto simp: setup_packet_ring_def rollback_setup_def close_ring_def Let_def split: option.splits)

end
