(* ===== verification/Ring_Pipeline.thy ===== *)
theory Ring_Pipeline
  imports Exporter_Properties Block_Ownership Batch_Queue
begin

text \<open>
  From the ring to the exporter: \<open>processPacketRingRun\<close> and the path of a block, laid out by the kernel, cut
  into runs, admitted by the queue and handled frame by frame.
\<close>

section \<open>Processing a run\<close>

text \<open>
  The packet context comes from the frame and its run, the source address is set later from the packet, and
  the clock is read while a frame is handled: the list pairs every frame with that reading.
\<close>

definition frame_context :: "string \<Rightarrow> time \<Rightarrow> ring_frame \<Rightarrow> packet_context" where
  "frame_context iface now f = \<lparr>px_src_ip = [], px_iface = iface, px_type = unat (rf_pkttype f), px_timestamp = rf_ts f,
     px_now = now\<rparr>"

fun process_run :: "'m exporter_config \<Rightarrow> string \<Rightarrow> (time \<times> ring_frame) list \<Rightarrow> 'm exporter \<Rightarrow> 'm exporter option" where
  "process_run cfg iface [] e = Some e"
| "process_run cfg iface ((now, f) # fs) e =
     Option.bind (process_frame cfg (frame_context iface now f) (rf_data f) e) (process_run cfg iface fs)"

lemma process_run_append:
  "process_run cfg iface (fs @ gs) e = Option.bind (process_run cfg iface fs e) (process_run cfg iface gs)"
  by (induction cfg iface fs e rule: process_run.induct) (simp_all split: Option.bind_split)

lemma process_run_reachable:
  "reachable cfg start e \<Longrightarrow> process_run cfg iface fs e = Some e' \<Longrightarrow> reachable cfg start e'"
proof (induction cfg iface fs e rule: process_run.induct)
  case (2 cfg iface now f fs e)
  then obtain e1 where e1: "process_frame cfg (frame_context iface now f) (rf_data f) e = Some e1"
    "process_run cfg iface fs e1 = Some e'" by (auto split: Option.bind_splits)
  have "reachable cfg start e1" using "2.prems"(1) exporter_step.packet [OF e1(1)] by (rule reachable.step)
  then show ?case using "2.IH" e1 by blast
qed simp

lemma process_run_total:
  "list_all (\<lambda>(now, f). frame_safe (rf_data f)) fs \<Longrightarrow> \<exists>e'. process_run cfg iface fs e = Some e'"
proof (induction fs arbitrary: e)
  case (Cons nf fs)
  obtain now f where nf: "nf = (now, f)" by force
  have "process_frame cfg (frame_context iface now f) (rf_data f) e \<noteq> None"
    using parse_raw_packet_no_panic [of "rf_data f" cfg "frame_context iface now f" e] Cons.prems
    by (auto simp: nf process_frame_def split: option.splits)
  then obtain e1 where "process_frame cfg (frame_context iface now f) (rf_data f) e = Some e1" by blast
  with Cons show ?case by (simp add: nf)
qed simp

section \<open>The path of a block\<close>



end
