(* ===== verification/Metric_Families.thy ===== *)
theory Metric_Families
  imports Metric_Events
begin

text \<open>
  The Prometheus families of \<open>internal/service/metrics.go\<close> and \<open>self_metrics.go\<close>: one constructor per field
  of \<open>metrics\<close>, grouped by the \<open>init\<close> function that registers it, with the kind, the name, the label names and
  the bucket bounds it is registered with.  \<open>statusCounters\<close> is keyed by the status code.
\<close>

section \<open>What a family is registered with\<close>

datatype collector = Counter | Gauge | Histogram

record family_spec =
  fm_kind :: collector
  fm_name :: string
  fm_labels :: "string list"
  fm_buckets :: "real list"

abbreviation counter_vec :: "string \<Rightarrow> string list \<Rightarrow> family_spec" where
  "counter_vec name labels \<equiv> \<lparr>fm_kind = Counter, fm_name = name, fm_labels = labels, fm_buckets = []\<rparr>"

abbreviation gauge_vec :: "string \<Rightarrow> string list \<Rightarrow> family_spec" where
  "gauge_vec name labels \<equiv> \<lparr>fm_kind = Gauge, fm_name = name, fm_labels = labels, fm_buckets = []\<rparr>"

abbreviation histogram_vec :: "string \<Rightarrow> real list \<Rightarrow> string list \<Rightarrow> family_spec" where
  "histogram_vec name buckets labels \<equiv> \<lparr>fm_kind = Histogram, fm_name = name, fm_labels = labels, fm_buckets = buckets\<rparr>"

definition call_label_names :: "string list" where
  "call_label_names = [''carrier'', ''ua_type'', ''source_country'', ''direction'']"

definition invite_label_names :: "string list" where
  "invite_label_names = call_label_names @ [''destination_country'', ''caller_host'', ''called_host'', ''iface'']"

definition rtp_label_names :: "string list" where
  "rtp_label_names = [''carrier'', ''ua_type'', ''codec'', ''source_country'', ''direction'']"

section \<open>The families\<close>

definition ms_buckets :: "real list" where
  "ms_buckets = [1, 5, 10, 25, 50, 100, 250, 500, 1000, 5000]"

definition spd_buckets :: "real list" where
  "spd_buckets = [1, 5, 10, 30, 60, 300, 600, 1800, 3600]"

definition percent_buckets :: "real list" where
  "percent_buckets = [0, 0.1, 0.5, 1, 2, 5, 10, 20, 50, 100]"

definition jitter_buckets :: "real list" where
  "jitter_buckets = [0.1, 0.5, 1, 5, 10, 20, 50, 100, 200, 500]"

definition mos_buckets :: "real list" where
  "mos_buckets = [1.0, 1.5, 2.0, 2.5, 3.0, 3.5, 4.0, 4.5, 5.0]"

definition vq_r_factor_buckets :: "real list" where
  "vq_r_factor_buckets = [0, 10, 20, 30, 50, 60, 70, 80, 90, 100, 120]"

definition rerl_buckets :: "real list" where
  "rerl_buckets = [0, 5, 10, 15, 20, 30, 40, 50, 60, 80, 100]"

definition pdv_buckets :: "real list" where
  "pdv_buckets = [1, 5, 10, 25, 50, 70, 90, 120, 150, 200, 300, 500]"

definition rtp_r_factor_buckets :: "real list" where
  "rtp_r_factor_buckets = [10, 20, 30, 40, 50, 60, 70, 80, 85, 90, 93, 100]"

definition loss_density_buckets :: "real list" where
  "loss_density_buckets = [10, 25, 50, 75, 100]"

datatype core_family =
    FSystemErrorTotal | FSipPacketsTotal

fun core_spec :: "core_family \<Rightarrow> family_spec" where
   "core_spec FSystemErrorTotal = counter_vec ''sip_exporter_system_error_total'' []"
| "core_spec FSipPacketsTotal = counter_vec ''sip_exporter_packets_total'' []"

datatype request_family =
    FRequestInviteTotal | FRequestInvite3xxTotal | FRequestReinviteTotal | FRequestInvite200OKTotal
    | FRequestACKTotal | FRequestByeTotal | FRequestCancelTotal | FRequestOptionsTotal
    | FRequestRegisterTotal | FRequestUpdateTotal | FRequestInfoTotal | FRequestReferTotal
    | FRequestSubscribeTotal | FRequestNotifyTotal | FRequestPrackTotal | FRequestPublishTotal
    | FRequestMessageTotal

fun request_spec :: "request_family \<Rightarrow> family_spec" where
   "request_spec FRequestInviteTotal = counter_vec ''sip_exporter_invite_total'' invite_label_names"
| "request_spec FRequestInvite3xxTotal = counter_vec ''sip_exporter_invite_3xx_total'' call_label_names"
| "request_spec FRequestReinviteTotal = counter_vec ''sip_exporter_reinvite_total'' call_label_names"
| "request_spec FRequestInvite200OKTotal = counter_vec ''sip_exporter_invite_200_total'' invite_label_names"
| "request_spec FRequestACKTotal = counter_vec ''sip_exporter_ack_total'' call_label_names"
| "request_spec FRequestByeTotal = counter_vec ''sip_exporter_bye_total'' call_label_names"
| "request_spec FRequestCancelTotal = counter_vec ''sip_exporter_cancel_total'' call_label_names"
| "request_spec FRequestOptionsTotal = counter_vec ''sip_exporter_options_total'' call_label_names"
| "request_spec FRequestRegisterTotal = counter_vec ''sip_exporter_register_total'' call_label_names"
| "request_spec FRequestUpdateTotal = counter_vec ''sip_exporter_update_total'' call_label_names"
| "request_spec FRequestInfoTotal = counter_vec ''sip_exporter_info_total'' call_label_names"
| "request_spec FRequestReferTotal = counter_vec ''sip_exporter_refer_total'' call_label_names"
| "request_spec FRequestSubscribeTotal = counter_vec ''sip_exporter_subscribe_total'' call_label_names"
| "request_spec FRequestNotifyTotal = counter_vec ''sip_exporter_notify_total'' call_label_names"
| "request_spec FRequestPrackTotal = counter_vec ''sip_exporter_prack_total'' call_label_names"
| "request_spec FRequestPublishTotal = counter_vec ''sip_exporter_publish_total'' call_label_names"
| "request_spec FRequestMessageTotal = counter_vec ''sip_exporter_message_total'' call_label_names"

datatype session_family =
    FSdc | FIss | FSessions | FSessionsLimit | FSessionsUtilization

fun session_spec :: "session_family \<Rightarrow> family_spec" where
   "session_spec FSdc = counter_vec ''sip_exporter_sdc_total'' call_label_names"
| "session_spec FIss = counter_vec ''sip_exporter_iss_total'' call_label_names"
| "session_spec FSessions = gauge_vec ''sip_exporter_sessions'' call_label_names"
| "session_spec FSessionsLimit = gauge_vec ''sip_exporter_sessions_limit'' [''carrier'']"
| "session_spec FSessionsUtilization = gauge_vec ''sip_exporter_sessions_utilization'' [''carrier'']"

datatype registration_family =
    FRegisterSuccessTotal | FRegisterFailureTotal | FActiveRegistrations | FRegisterCountryChange
    | FRegisterScanTotal | FInviteBurstTotal | FFasCalls | FSipRetransmission | FShortCalls
    | FBillableSeconds

fun registration_spec :: "registration_family \<Rightarrow> family_spec" where
   "registration_spec FRegisterSuccessTotal = counter_vec ''sip_exporter_register_success_total'' call_label_names"
| "registration_spec FRegisterFailureTotal = counter_vec ''sip_exporter_register_failure_total'' [''carrier'', ''ua_type'', ''source_country'', ''direction'', ''code'']"
| "registration_spec FActiveRegistrations = gauge_vec ''sip_exporter_active_registrations'' call_label_names"
| "registration_spec FRegisterCountryChange = counter_vec ''sip_exporter_register_country_change_total'' [''carrier'', ''source_country'', ''direction'']"
| "registration_spec FRegisterScanTotal = counter_vec ''sip_exporter_register_scan_total'' [''carrier'', ''source_country'', ''direction'']"
| "registration_spec FInviteBurstTotal = counter_vec ''sip_exporter_invite_burst_total'' [''carrier'', ''source_country'', ''direction'']"
| "registration_spec FFasCalls = counter_vec ''sip_exporter_fas_calls_total'' call_label_names"
| "registration_spec FSipRetransmission = counter_vec ''sip_exporter_sip_retransmission_total'' [''carrier'', ''ua_type'', ''source_country'', ''direction'', ''method'']"
| "registration_spec FShortCalls = counter_vec ''sip_exporter_short_calls_total'' [''carrier'', ''ua_type'', ''source_country'', ''direction'', ''threshold'']"
| "registration_spec FBillableSeconds = counter_vec ''sip_exporter_billable_seconds_total'' [''carrier'', ''destination_country'', ''direction'']"

datatype delay_family =
    FRrd | FSpd | FTtr | FPdd | FOrd | FLrd | FPbd

fun delay_spec :: "delay_family \<Rightarrow> family_spec" where
   "delay_spec FRrd = histogram_vec ''sip_exporter_rrd'' ms_buckets call_label_names"
| "delay_spec FSpd = histogram_vec ''sip_exporter_spd'' spd_buckets call_label_names"
| "delay_spec FTtr = histogram_vec ''sip_exporter_ttr'' ms_buckets call_label_names"
| "delay_spec FPdd = histogram_vec ''sip_exporter_pdd'' ms_buckets call_label_names"
| "delay_spec FOrd = histogram_vec ''sip_exporter_ord'' ms_buckets call_label_names"
| "delay_spec FLrd = histogram_vec ''sip_exporter_lrd'' ms_buckets call_label_names"
| "delay_spec FPbd = histogram_vec ''sip_exporter_pbd'' ms_buckets call_label_names"

datatype vq_family =
    FVqNLR | FVqJDR | FVqBLD | FVqGLD | FVqRTD | FVqESD | FVqIAJ | FVqMAJ | FVqMOSLQ | FVqMOSCQ | FVqRLQ
    | FVqRCQ | FVqRERL | FVqReports

fun vq_spec :: "vq_family \<Rightarrow> family_spec" where
   "vq_spec FVqNLR = histogram_vec ''sip_exporter_vq_nlr_percent'' percent_buckets call_label_names"
| "vq_spec FVqJDR = histogram_vec ''sip_exporter_vq_jdr_percent'' percent_buckets call_label_names"
| "vq_spec FVqBLD = histogram_vec ''sip_exporter_vq_bld_percent'' percent_buckets call_label_names"
| "vq_spec FVqGLD = histogram_vec ''sip_exporter_vq_gld_percent'' percent_buckets call_label_names"
| "vq_spec FVqRTD = histogram_vec ''sip_exporter_vq_rtd_ms'' ms_buckets call_label_names"
| "vq_spec FVqESD = histogram_vec ''sip_exporter_vq_esd_ms'' ms_buckets call_label_names"
| "vq_spec FVqIAJ = histogram_vec ''sip_exporter_vq_iaj_ms'' jitter_buckets call_label_names"
| "vq_spec FVqMAJ = histogram_vec ''sip_exporter_vq_maj_ms'' jitter_buckets call_label_names"
| "vq_spec FVqMOSLQ = histogram_vec ''sip_exporter_vq_mos_lq'' mos_buckets call_label_names"
| "vq_spec FVqMOSCQ = histogram_vec ''sip_exporter_vq_mos_cq'' mos_buckets call_label_names"
| "vq_spec FVqRLQ = histogram_vec ''sip_exporter_vq_rlq'' vq_r_factor_buckets call_label_names"
| "vq_spec FVqRCQ = histogram_vec ''sip_exporter_vq_rcq'' vq_r_factor_buckets call_label_names"
| "vq_spec FVqRERL = histogram_vec ''sip_exporter_vq_rerl_db'' rerl_buckets call_label_names"
| "vq_spec FVqReports = counter_vec ''sip_exporter_vq_reports_total'' call_label_names"

datatype rtp_family =
    FRtpPackets | FRtpLost | FRtpDuplicate | FRtpOutOfOrder | FRtpJitter | FRtpPDV | FRtpMOS | FRtpMOSF1
    | FRtpMOSF2 | FRtpMOSAdaptive | FRtpRFactor | FRtpBurstLoss | FRtpGapLoss | FRtpOneWayCalls
    | FSessionsMissingRTP | FRtpActiveStreams | FRtpEndpointMismatch | FRtpAliasActive
    | FRtpKernelTimestampMissing

fun rtp_spec :: "rtp_family \<Rightarrow> family_spec" where
   "rtp_spec FRtpPackets = counter_vec ''sip_exporter_rtp_packets_total'' rtp_label_names"
| "rtp_spec FRtpLost = counter_vec ''sip_exporter_rtp_packets_lost_total'' rtp_label_names"
| "rtp_spec FRtpDuplicate = counter_vec ''sip_exporter_rtp_duplicate_packets_total'' rtp_label_names"
| "rtp_spec FRtpOutOfOrder = counter_vec ''sip_exporter_rtp_out_of_order_total'' rtp_label_names"
| "rtp_spec FRtpJitter = histogram_vec ''sip_exporter_rtp_jitter_milliseconds'' jitter_buckets rtp_label_names"
| "rtp_spec FRtpPDV = histogram_vec ''sip_exporter_rtp_pdv_milliseconds'' pdv_buckets rtp_label_names"
| "rtp_spec FRtpMOS = histogram_vec ''sip_exporter_rtp_mos_score'' mos_buckets rtp_label_names"
| "rtp_spec FRtpMOSF1 = histogram_vec ''sip_exporter_rtp_mos_f1'' mos_buckets rtp_label_names"
| "rtp_spec FRtpMOSF2 = histogram_vec ''sip_exporter_rtp_mos_f2'' mos_buckets rtp_label_names"
| "rtp_spec FRtpMOSAdaptive = histogram_vec ''sip_exporter_rtp_mos_adaptive'' mos_buckets rtp_label_names"
| "rtp_spec FRtpRFactor = histogram_vec ''sip_exporter_rtp_r_factor'' rtp_r_factor_buckets rtp_label_names"
| "rtp_spec FRtpBurstLoss = histogram_vec ''sip_exporter_rtp_burst_loss_density'' loss_density_buckets rtp_label_names"
| "rtp_spec FRtpGapLoss = histogram_vec ''sip_exporter_rtp_gap_loss_density'' loss_density_buckets rtp_label_names"
| "rtp_spec FRtpOneWayCalls = counter_vec ''sip_exporter_rtp_oneway_calls_total'' call_label_names"
| "rtp_spec FSessionsMissingRTP = counter_vec ''sip_exporter_sessions_missing_rtp_total'' call_label_names"
| "rtp_spec FRtpActiveStreams = gauge_vec ''sip_exporter_rtp_active_streams'' rtp_label_names"
| "rtp_spec FRtpEndpointMismatch = counter_vec ''sip_exporter_rtp_endpoint_mismatch_total'' [''carrier'', ''direction'', ''type'']"
| "rtp_spec FRtpAliasActive = gauge_vec ''sip_exporter_rtp_alias_active'' [''carrier'', ''direction'']"
| "rtp_spec FRtpKernelTimestampMissing = counter_vec ''sip_exporter_rtp_kernel_timestamp_missing_total'' []"

datatype rtcp_family =
    FRtcpJitter | FRtcpLossFraction | FRtcpCumulativeLoss | FRtcpRTT | FRtcpReports | FRtcpOrphanReports

fun rtcp_spec :: "rtcp_family \<Rightarrow> family_spec" where
   "rtcp_spec FRtcpJitter = histogram_vec ''sip_exporter_rtcp_jitter_milliseconds'' jitter_buckets rtp_label_names"
| "rtcp_spec FRtcpLossFraction = histogram_vec ''sip_exporter_rtcp_loss_fraction_percent'' percent_buckets rtp_label_names"
| "rtcp_spec FRtcpCumulativeLoss = counter_vec ''sip_exporter_rtcp_cumulative_loss_total'' rtp_label_names"
| "rtcp_spec FRtcpRTT = histogram_vec ''sip_exporter_rtcp_rtt_milliseconds'' ms_buckets rtp_label_names"
| "rtcp_spec FRtcpReports = counter_vec ''sip_exporter_rtcp_reports_total'' [''carrier'', ''ua_type'', ''source_country'', ''direction'', ''type'']"
| "rtcp_spec FRtcpOrphanReports = counter_vec ''sip_exporter_rtcp_orphan_reports_total'' []"

datatype self_family =
    FSocketPacketsReceived | FSocketPacketsDropped | FRtpDropped | FParseErrorsTotal | FChannelLength
    | FChannelCapacity | FActiveTrackers | FActiveDialogs

fun self_spec :: "self_family \<Rightarrow> family_spec" where
   "self_spec FSocketPacketsReceived = counter_vec ''sip_exporter_socket_packets_received_total'' [''iface'']"
| "self_spec FSocketPacketsDropped = counter_vec ''sip_exporter_socket_packets_dropped_total'' [''iface'']"
| "self_spec FRtpDropped = counter_vec ''sip_exporter_rtp_dropped_total'' []"
| "self_spec FParseErrorsTotal = counter_vec ''sip_exporter_parse_errors_total'' [''type'']"
| "self_spec FChannelLength = gauge_vec ''sip_exporter_channel_length'' []"
| "self_spec FChannelCapacity = gauge_vec ''sip_exporter_channel_capacity'' []"
| "self_spec FActiveTrackers = gauge_vec ''sip_exporter_active_trackers'' [''type'']"
| "self_spec FActiveDialogs = gauge_vec ''sip_exporter_active_dialogs'' []"

definition status_codes :: "string list" where
  "status_codes = [''100'', ''180'', ''181'', ''182'', ''183'', ''200'', ''202'', ''300'', ''302'', ''400'', ''401'', ''403'', ''404'', ''405'', ''408'', ''480'',
     ''481'', ''486'', ''487'', ''488'', ''500'', ''501'', ''502'', ''503'', ''504'', ''600'', ''603'', ''604'', ''606'']"

definition status_spec :: "string \<Rightarrow> family_spec" where
  "status_spec code =
     counter_vec (if code = ''407'' then ''sip_exporter_proxy_authentication_required_total''
                  else ''sip_exporter_'' @ code @ ''_total'') call_label_names"

datatype family =
    InCore core_family | InRequest request_family | InSession session_family | InRegistration registration_family | InDelay delay_family
  | InVq vq_family | InRtp rtp_family | InRtcp rtcp_family | InSelf self_family | InStatus string

fun spec_of :: "family \<Rightarrow> family_spec" where
   "spec_of (InCore f) = core_spec f"
| "spec_of (InRequest f) = request_spec f"
| "spec_of (InSession f) = session_spec f"
| "spec_of (InRegistration f) = registration_spec f"
| "spec_of (InDelay f) = delay_spec f"
| "spec_of (InVq f) = vq_spec f"
| "spec_of (InRtp f) = rtp_spec f"
| "spec_of (InRtcp f) = rtcp_spec f"
| "spec_of (InSelf f) = self_spec f"
| "spec_of (InStatus code) = status_spec code"

text \<open>The keys of the map \<open>statusCounters\<close>.\<close>

definition status_registered :: "string \<Rightarrow> bool" where
  "status_registered code \<longleftrightarrow> code \<in> set status_codes \<or> code = ''407''"

fun registered :: "family \<Rightarrow> bool" where
  "registered (InStatus code) = status_registered code"
| "registered _ = True"

text \<open>The families in the order of their registration.\<close>

definition core_families :: "family list" where
  "core_families =
     map InCore [FSystemErrorTotal, FSipPacketsTotal]"

definition request_families :: "family list" where
  "request_families =
     map InRequest [FRequestInviteTotal, FRequestInvite3xxTotal, FRequestReinviteTotal,
       FRequestInvite200OKTotal, FRequestACKTotal, FRequestByeTotal, FRequestCancelTotal, FRequestOptionsTotal,
       FRequestRegisterTotal, FRequestUpdateTotal, FRequestInfoTotal, FRequestReferTotal,
       FRequestSubscribeTotal, FRequestNotifyTotal, FRequestPrackTotal, FRequestPublishTotal,
       FRequestMessageTotal]"

definition session_families :: "family list" where
  "session_families =
     map InSession [FSdc, FIss, FSessions, FSessionsLimit, FSessionsUtilization]"

definition registration_families :: "family list" where
  "registration_families =
     map InRegistration [FRegisterSuccessTotal, FRegisterFailureTotal, FActiveRegistrations,
       FRegisterCountryChange, FRegisterScanTotal, FInviteBurstTotal, FFasCalls, FSipRetransmission,
       FShortCalls, FBillableSeconds]"

definition delay_families :: "family list" where
  "delay_families =
     map InDelay [FRrd, FSpd, FTtr, FPdd, FOrd, FLrd, FPbd]"

definition vq_families :: "family list" where
  "vq_families =
     map InVq [FVqNLR, FVqJDR, FVqBLD, FVqGLD, FVqRTD, FVqESD, FVqIAJ, FVqMAJ, FVqMOSLQ, FVqMOSCQ, FVqRLQ,
       FVqRCQ, FVqRERL, FVqReports]"

definition rtp_families :: "family list" where
  "rtp_families =
     map InRtp [FRtpPackets, FRtpLost, FRtpDuplicate, FRtpOutOfOrder, FRtpJitter, FRtpPDV, FRtpMOS, FRtpMOSF1,
       FRtpMOSF2, FRtpMOSAdaptive, FRtpRFactor, FRtpBurstLoss, FRtpGapLoss, FRtpOneWayCalls,
       FSessionsMissingRTP, FRtpActiveStreams, FRtpEndpointMismatch, FRtpAliasActive,
       FRtpKernelTimestampMissing]"

definition rtcp_families :: "family list" where
  "rtcp_families =
     map InRtcp [FRtcpJitter, FRtcpLossFraction, FRtcpCumulativeLoss, FRtcpRTT, FRtcpReports,
       FRtcpOrphanReports]"

definition self_families :: "family list" where
  "self_families =
     map InSelf [FSocketPacketsReceived, FSocketPacketsDropped, FRtpDropped, FParseErrorsTotal, FChannelLength,
       FChannelCapacity, FActiveTrackers, FActiveDialogs]"

definition status_families :: "family list" where
  "status_families = map InStatus status_codes @ [InStatus ''407'']"

definition registered_families :: "family list" where
  "registered_families = core_families @ request_families @ session_families @ registration_families @
     delay_families @ vq_families @ rtp_families @ rtcp_families @ self_families @ status_families"

lemmas family_lists = registered_families_def core_families_def request_families_def session_families_def registration_families_def delay_families_def
  vq_families_def rtp_families_def rtcp_families_def self_families_def status_families_def

lemma registered_families_all: "registered f \<longleftrightarrow> f \<in> set registered_families"
proof (cases f)
  case (InCore g)
  then show ?thesis by (cases g) (simp_all add: family_lists)
next
  case (InRequest g)
  then show ?thesis by (cases g) (simp_all add: family_lists)
next
  case (InSession g)
  then show ?thesis by (cases g) (simp_all add: family_lists)
next
  case (InRegistration g)
  then show ?thesis by (cases g) (simp_all add: family_lists)
next
  case (InDelay g)
  then show ?thesis by (cases g) (simp_all add: family_lists)
next
  case (InVq g)
  then show ?thesis by (cases g) (simp_all add: family_lists)
next
  case (InRtp g)
  then show ?thesis by (cases g) (simp_all add: family_lists)
next
  case (InRtcp g)
  then show ?thesis by (cases g) (simp_all add: family_lists)
next
  case (InSelf g)
  then show ?thesis by (cases g) (simp_all add: family_lists)
next
  case (InStatus code)
  then show ?thesis by (auto simp: family_lists status_registered_def)
qed

section \<open>No two families share a name\<close>

abbreviation names_of :: "family list \<Rightarrow> string list" where
  "names_of fs \<equiv> map (\<lambda>f. fm_name (spec_of f)) fs"

lemma distinct_core_names: "distinct (names_of core_families)"
  by (simp add: family_lists status_spec_def status_codes_def)

lemma distinct_request_names: "distinct (names_of request_families)"
  by (simp add: family_lists status_spec_def status_codes_def)

lemma distinct_session_names: "distinct (names_of session_families)"
  by (simp add: family_lists status_spec_def status_codes_def)

lemma distinct_registration_names: "distinct (names_of registration_families)"
  by (simp add: family_lists status_spec_def status_codes_def)

lemma distinct_delay_names: "distinct (names_of delay_families)"
  by (simp add: family_lists status_spec_def status_codes_def)

lemma distinct_vq_names: "distinct (names_of vq_families)"
  by (simp add: family_lists status_spec_def status_codes_def)

lemma distinct_rtp_names: "distinct (names_of rtp_families)"
  by (simp add: family_lists status_spec_def status_codes_def)

lemma distinct_rtcp_names: "distinct (names_of rtcp_families)"
  by (simp add: family_lists status_spec_def status_codes_def)

lemma distinct_self_names: "distinct (names_of self_families)"
  by (simp add: family_lists status_spec_def status_codes_def)

lemma distinct_status_names: "distinct (names_of status_families)"
  by (simp add: family_lists status_spec_def status_codes_def)

lemma apart_core_names:
  "set (names_of core_families) \<inter> set (names_of (request_families @ session_families @
      registration_families @ delay_families @ vq_families @ rtp_families @ rtcp_families @ self_families @ status_families)) = {}"
  by (simp add: family_lists status_spec_def status_codes_def)

lemma apart_request_names:
  "set (names_of request_families) \<inter> set (names_of (session_families @ registration_families @
      delay_families @ vq_families @ rtp_families @ rtcp_families @ self_families @ status_families)) = {}"
  by (simp add: family_lists status_spec_def status_codes_def)

lemma apart_session_names:
  "set (names_of session_families) \<inter> set (names_of (registration_families @ delay_families @
      vq_families @ rtp_families @ rtcp_families @ self_families @ status_families)) = {}"
  by (simp add: family_lists status_spec_def status_codes_def)

lemma apart_registration_names:
  "set (names_of registration_families) \<inter> set (names_of (delay_families @ vq_families @ rtp_families @
      rtcp_families @ self_families @ status_families)) = {}"
  by (simp add: family_lists status_spec_def status_codes_def)

lemma apart_delay_names:
  "set (names_of delay_families) \<inter> set (names_of (vq_families @ rtp_families @ rtcp_families @
      self_families @ status_families)) = {}"
  by (simp add: family_lists status_spec_def status_codes_def)

lemma apart_vq_names:
  "set (names_of vq_families) \<inter> set (names_of (rtp_families @ rtcp_families @ self_families @
      status_families)) = {}"
  by (simp add: family_lists status_spec_def status_codes_def)

lemma apart_rtp_names:
  "set (names_of rtp_families) \<inter> set (names_of (rtcp_families @ self_families @ status_families)) = {}"
  by (simp add: family_lists status_spec_def status_codes_def)

lemma apart_rtcp_names:
  "set (names_of rtcp_families) \<inter> set (names_of (self_families @ status_families)) = {}"
  by (simp add: family_lists status_spec_def status_codes_def)

lemma apart_self_names:
  "set (names_of self_families) \<inter> set (names_of (status_families)) = {}"
  by (simp add: family_lists status_spec_def status_codes_def)

lemmas names_apart =
  distinct_core_names distinct_request_names distinct_session_names distinct_registration_names
  distinct_delay_names distinct_vq_names distinct_rtp_names distinct_rtcp_names
  distinct_self_names distinct_status_names
  apart_core_names apart_request_names apart_session_names apart_registration_names
  apart_delay_names apart_vq_names apart_rtp_names apart_rtcp_names
  apart_self_names

lemma names_distinct: "distinct (map (fm_name \<circ> spec_of) registered_families)"
proof -
  have "distinct (names_of registered_families)"
    unfolding registered_families_def map_append distinct_append
    using names_apart unfolding map_append by blast
  then show ?thesis by (simp add: comp_def)
qed

end
