(* ===== verification/Metric_Ops.thy ===== *)
theory Metric_Ops
  imports Metric_Families
begin

text \<open>
  The methods of \<open>metrics\<close> (\<open>internal/service/metrics.go\<close>, \<open>self_metrics.go\<close>): what each event does to the
  state the exporter keeps itself (the counters behind the ratios, the label sets of the last snapshots, the session
  limits) and which calls it makes on the Prometheus collectors, which are a library: the calls are listed,
  not interpreted.  \<open>float64\<close> values are reals.
\<close>

section \<open>Calls on collectors and the state kept\<close>

datatype collector_op =
    CounterAdd family "string list" real
  | GaugeSet family "string list" real
  | GaugeAdd family "string list" real
  | Observe family "string list" real

abbreviation Inc :: "family \<Rightarrow> string list \<Rightarrow> collector_op" where
  "Inc f vals \<equiv> CounterAdd f vals 1"

record carrier_counters =
  cc_invite_total :: int
  cc_invite_3xx_total :: int
  cc_invite_200ok_total :: int
  cc_invite_effective_total :: int
  cc_invite_ineffective_total :: int
  cc_session_completed_total :: int
  cc_register_success_total :: int
  cc_register_failure_total :: int

definition zero_counters :: carrier_counters where
  "zero_counters = \<lparr>cc_invite_total = 0, cc_invite_3xx_total = 0, cc_invite_200ok_total = 0, cc_invite_effective_total = 0,
     cc_invite_ineffective_total = 0, cc_session_completed_total = 0, cc_register_success_total = 0,
     cc_register_failure_total = 0\<rparr>"

text \<open>The key of the counters, \<open>counterKey\<close>, is the set of the four call labels.\<close>

definition label_values :: "call_labels \<Rightarrow> string list" where
  "label_values l = [cl_carrier l, cl_ua_type l, cl_source_country l, cl_direction l]"

definition invite_values :: "invite_labels \<Rightarrow> string list" where
  "invite_values i = [il_destination_country i, il_caller_host i, il_called_host i, il_iface i]"

definition rtp_values :: "call_labels \<Rightarrow> string \<Rightarrow> string list" where
  "rtp_values l codec = [cl_carrier l, cl_ua_type l, codec, cl_source_country l, cl_direction l]"

record metrics =
  mt_carrier_counters :: "(call_labels, carrier_counters) gomap"
  mt_prev_sessions :: "(string, string list) gomap"
  mt_prev_registrations :: "(string, string list) gomap"
  mt_prev_streams :: "(string, string list) gomap"
  mt_limits :: "(string, int) gomap"

definition new_metrics :: metrics where
  "new_metrics = \<lparr>mt_carrier_counters = [], mt_prev_sessions = [], mt_prev_registrations = [], mt_prev_streams = [],
     mt_limits = []\<rparr>"

text \<open>\<open>getOrCreateCarrierCounters\<close> followed by an \<open>Add(1)\<close> on one of the fields.\<close>

definition bump :: "(carrier_counters \<Rightarrow> carrier_counters) \<Rightarrow> call_labels \<Rightarrow> metrics \<Rightarrow> metrics" where
  "bump f key m = m\<lparr>mt_carrier_counters :=
     mput key (f (mget_or zero_counters (mt_carrier_counters m) key)) (mt_carrier_counters m)\<rparr>"

section \<open>The ratios\<close>

definition percentage :: "int \<Rightarrow> int \<Rightarrow> real" where
  "percentage part whole = real_of_int part / real_of_int whole * 100"

definition ser :: "carrier_counters \<Rightarrow> real" where
  "ser c = (if cc_invite_total c = 0 then 0
     else let denominator = cc_invite_total c - cc_invite_3xx_total c
          in if denominator \<le> 0 then 0 else percentage (cc_invite_200ok_total c) denominator)"

definition seer :: "carrier_counters \<Rightarrow> real" where
  "seer c = (if cc_invite_total c = 0 then 0
     else let denominator = cc_invite_total c - cc_invite_3xx_total c
          in if denominator \<le> 0 then 0 else percentage (cc_invite_effective_total c) denominator)"

definition isa :: "carrier_counters \<Rightarrow> real" where
  "isa c = (if cc_invite_total c = 0 then 0 else percentage (cc_invite_ineffective_total c) (cc_invite_total c))"

definition scr :: "carrier_counters \<Rightarrow> real" where
  "scr c = (if cc_invite_total c = 0 then 0 else percentage (cc_session_completed_total c) (cc_invite_total c))"

definition asr :: "carrier_counters \<Rightarrow> real" where
  "asr c = (if cc_invite_total c = 0 then 0 else percentage (cc_invite_200ok_total c) (cc_invite_total c))"

definition ner :: "carrier_counters \<Rightarrow> real" where
  "ner c = (if cc_invite_total c = 0 then 0
     else percentage (cc_invite_total c - cc_invite_ineffective_total c) (cc_invite_total c))"

definition register_success_ratio :: "carrier_counters \<Rightarrow> real" where
  "register_success_ratio c =
     (let success = cc_register_success_total c; failure = cc_register_failure_total c; denominator = success + failure
      in if denominator = 0 then 0 else percentage success denominator)"

text \<open>\<open>Collect\<close> of a ratio: one value for each label set the counters know.\<close>

definition collect_ratio :: "(carrier_counters \<Rightarrow> real) \<Rightarrow> metrics \<Rightarrow> (string list \<times> real) list" where
  "collect_ratio calc m = map (\<lambda>(k, c). (label_values k, calc c)) (mt_carrier_counters m)"

section \<open>Requests and responses\<close>

definition request_family_of :: "string \<Rightarrow> request_family option" where
  "request_family_of method =
     (if method = ''PUBLISH'' then Some FRequestPublishTotal
      else if method = ''PRACK'' then Some FRequestPrackTotal
      else if method = ''NOTIFY'' then Some FRequestNotifyTotal
      else if method = ''SUBSCRIBE'' then Some FRequestSubscribeTotal
      else if method = ''REFER'' then Some FRequestReferTotal
      else if method = ''INFO'' then Some FRequestInfoTotal
      else if method = ''UPDATE'' then Some FRequestUpdateTotal
      else if method = ''REGISTER'' then Some FRequestRegisterTotal
      else if method = ''OPTIONS'' then Some FRequestOptionsTotal
      else if method = ''CANCEL'' then Some FRequestCancelTotal
      else if method = ''BYE'' then Some FRequestByeTotal
      else if method = ''ACK'' then Some FRequestACKTotal
      else if method = ''MESSAGE'' then Some FRequestMessageTotal
      else None)"

abbreviation packet_counted :: collector_op where
  "packet_counted \<equiv> Inc (InCore FSipPacketsTotal) []"

definition request_ops :: "call_labels \<Rightarrow> invite_labels \<Rightarrow> string \<Rightarrow> metrics \<Rightarrow> collector_op list \<times> metrics" where
  "request_ops l i method m =
     (if method = ''INVITE'' then
        ([Inc (InRequest FRequestInviteTotal) (label_values l @ invite_values i),
          CounterAdd (InRequest FRequestInvite3xxTotal) (label_values l) 0, packet_counted],
         bump (\<lambda>c. c\<lparr>cc_invite_total := cc_invite_total c + 1\<rparr>) l m)
      else (case request_family_of method of
          Some f \<Rightarrow> ([Inc (InRequest f) (label_values l), packet_counted], m)
        | None \<Rightarrow> ([packet_counted], m)))"

definition reinvite_ops :: "call_labels \<Rightarrow> collector_op list" where
  "reinvite_ops l = [Inc (InRequest FRequestReinviteTotal) (label_values l), packet_counted]"

definition is_effective_response :: "string \<Rightarrow> bool" where
  "is_effective_response code \<longleftrightarrow> code = ''200'' \<or> code = ''480'' \<or> code = ''486'' \<or> code = ''600'' \<or> code = ''603''"

definition is_ineffective_response :: "string \<Rightarrow> bool" where
  "is_ineffective_response code \<longleftrightarrow> code = ''408'' \<or> code = ''500'' \<or> code = ''503'' \<or> code = ''504''"

definition is_3xx :: "string \<Rightarrow> bool" where
  "is_3xx code \<longleftrightarrow> length code = 3 \<and> hd code = CHR ''3''"

definition status_ops :: "call_labels \<Rightarrow> string \<Rightarrow> collector_op list" where
  "status_ops l code = (if status_registered code then [Inc (InStatus code) (label_values l)] else [])"

definition response_ops :: "call_labels \<Rightarrow> string \<Rightarrow> bool \<Rightarrow> metrics \<Rightarrow> collector_op list \<times> metrics" where
  "response_ops l code is_inv m0 =
     (let m1 = (if is_inv \<and> is_3xx code then bump (\<lambda>c. c\<lparr>cc_invite_3xx_total := cc_invite_3xx_total c + 1\<rparr>) l m0 else m0);
          m2 = (if is_inv \<and> is_effective_response code
                then bump (\<lambda>c. c\<lparr>cc_invite_effective_total := cc_invite_effective_total c + 1\<rparr>) l m1 else m1);
          m3 = (if is_inv \<and> is_ineffective_response code
                then bump (\<lambda>c. c\<lparr>cc_invite_ineffective_total := cc_invite_ineffective_total c + 1\<rparr>) l m2 else m2)
      in (status_ops l code @ (if is_inv \<and> is_3xx code then [Inc (InRequest FRequestInvite3xxTotal) (label_values l)] else []) @
          (if is_inv \<and> is_ineffective_response code then [Inc (InSession FIss) (label_values l)] else []) @ [packet_counted], m3))"

definition response_with_metrics_ops ::
  "call_labels \<Rightarrow> string \<Rightarrow> bool \<Rightarrow> bool \<Rightarrow> metrics \<Rightarrow> collector_op list \<times> metrics" where
  "response_with_metrics_ops l code is_inv is200 m0 =
     (let (ops, m) = response_ops l code is_inv m0
      in (ops, if is_inv \<and> is200 then bump (\<lambda>c. c\<lparr>cc_invite_200ok_total := cc_invite_200ok_total c + 1\<rparr>) l m else m))"

definition invite_200ok_ops :: "call_labels \<Rightarrow> invite_labels \<Rightarrow> collector_op list" where
  "invite_200ok_ops l i = [Inc (InRequest FRequestInvite200OKTotal) (label_values l @ invite_values i)]"

section \<open>Sessions and registrations\<close>

definition session_completed_ops :: "call_labels \<Rightarrow> metrics \<Rightarrow> collector_op list \<times> metrics" where
  "session_completed_ops l m =
     ([Inc (InSession FSdc) (label_values l)], bump (\<lambda>c. c\<lparr>cc_session_completed_total := cc_session_completed_total c + 1\<rparr>) l m)"

definition register_success_ops :: "call_labels \<Rightarrow> metrics \<Rightarrow> collector_op list \<times> metrics" where
  "register_success_ops l m =
     ([Inc (InRegistration FRegisterSuccessTotal) (label_values l)],
      bump (\<lambda>c. c\<lparr>cc_register_success_total := cc_register_success_total c + 1\<rparr>) l m)"

definition is_register_challenge :: "string \<Rightarrow> bool" where
  "is_register_challenge code \<longleftrightarrow> code = ''401'' \<or> code = ''407''"

definition is_redirect_status :: "string \<Rightarrow> bool" where
  "is_redirect_status code \<longleftrightarrow> code \<noteq> [] \<and> hd code = CHR ''3''"

definition register_failure_ops :: "call_labels \<Rightarrow> string \<Rightarrow> metrics \<Rightarrow> collector_op list \<times> metrics" where
  "register_failure_ops l code m =
     ([Inc (InRegistration FRegisterFailureTotal) (label_values l @ [code])],
      if is_register_challenge code \<or> is_redirect_status code then m
      else bump (\<lambda>c. c\<lparr>cc_register_failure_total := cc_register_failure_total c + 1\<rparr>) l m)"

definition short_call_thresholds :: "(string \<times> duration) list" where
  "short_call_thresholds = [(''20'', 20 * second), (''60'', 60 * second), (''180'', 180 * second)]"

definition short_call_ops :: "call_labels \<Rightarrow> duration \<Rightarrow> collector_op list" where
  "short_call_ops l d =
     (if d \<le> 0 then []
      else map (\<lambda>(label, limit). Inc (InRegistration FShortCalls) (label_values l @ [label]))
        (filter (\<lambda>(label, limit). d < limit) short_call_thresholds))"

text \<open>\<open>Duration.Seconds\<close>.\<close>

definition seconds_of :: "duration \<Rightarrow> real" where
  "seconds_of d = real_of_int d / real_of_int second"

definition billable_ops :: "string \<Rightarrow> string \<Rightarrow> string \<Rightarrow> duration \<Rightarrow> collector_op list" where
  "billable_ops carrier destination direction d =
     (if d \<le> 0 then []
      else [CounterAdd (InRegistration FBillableSeconds) [carrier, destination, direction] (seconds_of d)])"

definition spd_ops :: "call_labels \<Rightarrow> duration \<Rightarrow> collector_op list" where
  "spd_ops l d = (if d < 0 then [] else [Observe (InDelay FSpd) (label_values l) (seconds_of d)])"

fun delay_family_of :: "delay_kind \<Rightarrow> delay_family" where
  "delay_family_of RRD = FRrd"
| "delay_family_of TTR = FTtr"
| "delay_family_of PDD = FPdd"
| "delay_family_of ORD = FOrd"
| "delay_family_of LRD = FLrd"
| "delay_family_of PBD = FPbd"

definition delay_ops :: "delay_kind \<Rightarrow> call_labels \<Rightarrow> real \<Rightarrow> collector_op list" where
  "delay_ops k l delay_ms = (if delay_ms < 0 then [] else [Observe (InDelay (delay_family_of k)) (label_values l) delay_ms])"

fun call_ops :: "call_kind \<Rightarrow> call_labels \<Rightarrow> metrics \<Rightarrow> collector_op list \<times> metrics" where
  "call_ops Reinvite l m = (reinvite_ops l, m)"
| "call_ops SessionCompleted l m = session_completed_ops l m"
| "call_ops RegisterSuccess l m = register_success_ops l m"
| "call_ops FasCall l m = ([Inc (InRegistration FFasCalls) (label_values l)], m)"
| "call_ops OneWayCall l m = ([Inc (InRtp FRtpOneWayCalls) (label_values l)], m)"
| "call_ops MissingRTP l m = ([Inc (InRtp FSessionsMissingRTP) (label_values l)], m)"

fun alert_family_of :: "alert_kind \<Rightarrow> registration_family" where
  "alert_family_of RegisterCountryChange = FRegisterCountryChange"
| "alert_family_of RegisterScan = FRegisterScanTotal"
| "alert_family_of InviteBurst = FInviteBurstTotal"

fun sip_ops :: "sip_event \<Rightarrow> metrics \<Rightarrow> collector_op list \<times> metrics" where
  "sip_ops (EvRequest l i method) m = request_ops l i method m"
| "sip_ops (EvResponse l code is_inv) m = response_ops l code is_inv m"
| "sip_ops (EvResponseWithMetrics l code is_inv is200) m = response_with_metrics_ops l code is_inv is200 m"
| "sip_ops (EvInvite200OK l i) m = (invite_200ok_ops l i, m)"
| "sip_ops (EvCall k l) m = call_ops k l m"
| "sip_ops (EvAlert k carrier country direction) m =
     ([Inc (InRegistration (alert_family_of k)) [carrier, country, direction]], m)"
| "sip_ops (EvRegisterFailure l code) m = register_failure_ops l code m"
| "sip_ops (EvRetransmission l method) m = ([Inc (InRegistration FSipRetransmission) (label_values l @ [method])], m)"

section \<open>Snapshots\<close>

definition join_nul :: "string list \<Rightarrow> string" where
  "join_nul vals = concat (case vals of [] \<Rightarrow> [] | v # vs \<Rightarrow> v # map (\<lambda>w. CHR 0x00 # w) vs)"

definition snapshot_rows :: "string list \<Rightarrow> labeled_count list \<Rightarrow> (string list \<times> nat) list" where
  "snapshot_rows names counts = map (\<lambda>lc. (map (mget_or [] (lc_labels lc)) names, lc_count lc)) counts"

definition set_gauge_from_counts ::
  "family \<Rightarrow> string list \<Rightarrow> (string, string list) gomap \<Rightarrow> labeled_count list
    \<Rightarrow> collector_op list \<times> (string, string list) gomap" where
  "set_gauge_from_counts f names prev counts =
     (let rows = snapshot_rows names counts;
          current = foldl (\<lambda>m (vals, n). mput (join_nul vals) vals m) [] rows
      in (map (\<lambda>(vals, n). GaugeSet f vals (real n)) rows @
          map (\<lambda>(key, vals). GaugeSet f vals 0) (filter (\<lambda>(key, vals). mget current key = None) prev), current))"

definition max_utilization :: real where "max_utilization = 100"

definition carrier_total :: "labeled_count list \<Rightarrow> string \<Rightarrow> real" where
  "carrier_total counts carrier =
     mget_or 0 (foldl (\<lambda>m lc. let c = mget_or [] (lc_labels lc) ''carrier''
       in mput c (mget_or 0 m c + real (lc_count lc)) m) [] counts) carrier"

definition utilization_ops :: "labeled_count list \<Rightarrow> (string, int) gomap \<Rightarrow> collector_op list" where
  "utilization_ops counts limits =
     concat (map (\<lambda>(carrier, limit).
       if limit \<le> 0 then []
       else let util = carrier_total counts carrier / real_of_int limit * max_utilization
            in [GaugeSet (InSession FSessionsLimit) [carrier] (real_of_int limit),
                GaugeSet (InSession FSessionsUtilization) [carrier]
                  (if max_utilization < util then max_utilization else util)]) limits)"

definition update_sessions_ops :: "labeled_count list \<Rightarrow> metrics \<Rightarrow> collector_op list \<times> metrics" where
  "update_sessions_ops counts m =
     (let (ops, prev) = set_gauge_from_counts (InSession FSessions) call_label_names (mt_prev_sessions m) counts
      in (ops @ (if mt_limits m = [] then [] else utilization_ops counts (mt_limits m)), m\<lparr>mt_prev_sessions := prev\<rparr>))"

definition update_registrations_ops :: "labeled_count list \<Rightarrow> metrics \<Rightarrow> collector_op list \<times> metrics" where
  "update_registrations_ops counts m =
     (let (ops, prev) = set_gauge_from_counts (InRegistration FActiveRegistrations) call_label_names
        (mt_prev_registrations m) counts
      in (ops, m\<lparr>mt_prev_registrations := prev\<rparr>))"

definition update_streams_ops :: "labeled_count list \<Rightarrow> metrics \<Rightarrow> collector_op list \<times> metrics" where
  "update_streams_ops counts m =
     (let (ops, prev) = set_gauge_from_counts (InRtp FRtpActiveStreams) rtp_label_names (mt_prev_streams m) counts
      in (ops, m\<lparr>mt_prev_streams := prev\<rparr>))"

fun gauge_ops :: "gauge_kind \<Rightarrow> labeled_count list \<Rightarrow> metrics \<Rightarrow> collector_op list \<times> metrics" where
  "gauge_ops Sessions counts m = update_sessions_ops counts m"
| "gauge_ops ActiveRegistrations counts m = update_registrations_ops counts m"
| "gauge_ops RTPActiveStreams counts m = update_streams_ops counts m"

definition vq_table :: "(string \<times> vq_family) list" where
  "vq_table = [(''NLR'', FVqNLR), (''JDR'', FVqJDR), (''BLD'', FVqBLD), (''GLD'', FVqGLD), (''RTD'', FVqRTD),
     (''ESD'', FVqESD), (''IAJ'', FVqIAJ), (''MAJ'', FVqMAJ), (''MOSLQ'', FVqMOSLQ), (''MOSCQ'', FVqMOSCQ),
     (''RLQ'', FVqRLQ), (''RCQ'', FVqRCQ), (''RERL'', FVqRERL)]"

definition vq_report_ops :: "call_labels \<Rightarrow> vq_values \<Rightarrow> collector_op list" where
  "vq_report_ops l report =
     concat (map (\<lambda>(key, f). case mget report key of
         None \<Rightarrow> []
       | Some v \<Rightarrow> [Observe (InVq f) (label_values l) v]) vq_table) @ [Inc (InVq FVqReports) (label_values l)]"

fun session_ops :: "session_event \<Rightarrow> metrics \<Rightarrow> collector_op list \<times> metrics" where
  "session_ops (EvDelay k l delay_ms) m = (delay_ops k l delay_ms, m)"
| "session_ops (EvSPD l d) m = (spd_ops l d, m)"
| "session_ops (EvSession l n) m = ([GaugeSet (InSession FSessions) (label_values l) (real_of_int n)], m)"
| "session_ops (EvGauge k counts) m = gauge_ops k counts m"
| "session_ops (EvSessionsLimits limits) m = ([], m\<lparr>mt_limits := limits\<rparr>)"
| "session_ops (EvShortCalls l d) m = (short_call_ops l d, m)"
| "session_ops (EvBillableSeconds carrier destination direction d) m = (billable_ops carrier destination direction d, m)"
| "session_ops (EvVQReport l report) m = (vq_report_ops l report, m)"

section \<open>RTP, RTCP and the exporter itself\<close>

fun rtp_value_family :: "rtp_value \<Rightarrow> family" where
  "rtp_value_family RTPJitter = InRtp FRtpJitter"
| "rtp_value_family RTPPDV = InRtp FRtpPDV"
| "rtp_value_family RTPMOS = InRtp FRtpMOS"
| "rtp_value_family RTPRFactor = InRtp FRtpRFactor"
| "rtp_value_family RTCPJitter = InRtcp FRtcpJitter"
| "rtp_value_family RTCPLossFraction = InRtcp FRtcpLossFraction"
| "rtp_value_family RTCPRTT = InRtcp FRtcpRTT"

fun rtp_count_family :: "rtp_event_kind \<Rightarrow> family" where
  "rtp_count_family RTPPackets = InRtp FRtpPackets"
| "rtp_count_family RTPDuplicates = InRtp FRtpDuplicate"
| "rtp_count_family RTPOutOfOrder = InRtp FRtpOutOfOrder"

fun rtp_amount_family :: "rtp_amount \<Rightarrow> family" where
  "rtp_amount_family RTPLoss = InRtp FRtpLost"
| "rtp_amount_family RTCPCumulativeLoss = InRtcp FRtcpCumulativeLoss"

fun rtp_ops :: "rtp_event \<Rightarrow> collector_op list" where
  "rtp_ops (EvRtpCount k l codec) = [Inc (rtp_count_family k) (rtp_values l codec)]"
| "rtp_ops (EvRtpAdd k l codec n) = (if n = 0 then [] else [CounterAdd (rtp_amount_family k) (rtp_values l codec) (real n)])"
| "rtp_ops (EvRtpObserve k l codec x) = [Observe (rtp_value_family k) (rtp_values l codec) x]"
| "rtp_ops (EvRtpMOSVariants l codec f1 f2 adapt) =
     [Observe (InRtp FRtpMOSF1) (rtp_values l codec) f1, Observe (InRtp FRtpMOSF2) (rtp_values l codec) f2,
      Observe (InRtp FRtpMOSAdaptive) (rtp_values l codec) adapt]"
| "rtp_ops (EvRtpLossDistribution l codec burst gap) =
     [Observe (InRtp FRtpBurstLoss) (rtp_values l codec) burst, Observe (InRtp FRtpGapLoss) (rtp_values l codec) gap]"
| "rtp_ops (EvRtpAliasLearned carrier direction kind) =
     [Inc (InRtp FRtpEndpointMismatch) [carrier, direction, kind], GaugeAdd (InRtp FRtpAliasActive) [carrier, direction] 1]"
| "rtp_ops (EvRtpAliasReleased carrier direction) = [GaugeAdd (InRtp FRtpAliasActive) [carrier, direction] (- 1)]"
| "rtp_ops (EvRtcpReport l kind) = [Inc (InRtcp FRtcpReports) (label_values l @ [kind])]"

fun plain_family :: "plain_kind \<Rightarrow> family" where
  "plain_family RTCPOrphan = InRtcp FRtcpOrphanReports"
| "plain_family RTPKernelTimestampMissing = InRtp FRtpKernelTimestampMissing"
| "plain_family SystemError = InCore FSystemErrorTotal"
| "plain_family RTPDropped = InSelf FRtpDropped"

fun self_ops :: "self_event \<Rightarrow> collector_op list" where
  "self_ops (EvPlain k) = [Inc (plain_family k) []]"
| "self_ops (EvParseError kind) = [Inc (InSelf FParseErrorsTotal) [kind]]"
| "self_ops (EvChannelLength n) = [GaugeSet (InSelf FChannelLength) [] (real_of_int n)]"
| "self_ops (EvChannelCapacity n) = [GaugeSet (InSelf FChannelCapacity) [] (real_of_int n)]"
| "self_ops (EvTrackerSize kind n) = [GaugeSet (InSelf FActiveTrackers) [kind] (real_of_int n)]"
| "self_ops (EvActiveDialogs n) = [GaugeSet (InSelf FActiveDialogs) [] (real_of_int n)]"

record socket_stat =
  ss_iface :: string
  ss_received :: u32
  ss_dropped :: u32

definition socket_stats_ops :: "socket_stat list \<Rightarrow> collector_op list" where
  "socket_stats_ops stats = concat (map (\<lambda>s.
     [CounterAdd (InSelf FSocketPacketsReceived) [ss_iface s] (real (unat (ss_received s))),
      CounterAdd (InSelf FSocketPacketsDropped) [ss_iface s] (real (unat (ss_dropped s)))]) stats)"

fun metric_step :: "metric_event \<Rightarrow> metrics \<Rightarrow> collector_op list \<times> metrics" where
  "metric_step (SipEv e) m = sip_ops e m"
| "metric_step (SessionEv e) m = session_ops e m"
| "metric_step (RtpEv e) m = (rtp_ops e, m)"
| "metric_step (SelfEv e) m = (self_ops e, m)"

fun metric_run :: "metric_event list \<Rightarrow> metrics \<Rightarrow> collector_op list \<times> metrics" where
  "metric_run [] m = ([], m)"
| "metric_run (e # es) m =
     (let (ops, m1) = metric_step e m; (ops', m2) = metric_run es m1 in (ops @ ops', m2))"

end
