(* ===== verification/Metric_Properties.thy ===== *)
theory Metric_Properties
  imports Metric_Ops
begin

text \<open>
  What the metrics layer guarantees for any sequence of events: the calls it makes are legal for the
  collectors as registered, the counters behind the ratios are the counts of the events, gauges fed by
  snapshots show the last snapshot, and the ratios stay in their ranges.
\<close>

section \<open>Registration\<close>

text \<open>
  A registry refuses two families of one name, and a histogram bounds that are not increasing: both panic.
\<close>

lemma buckets_increasing: "list_all (\<lambda>f. sorted_wrt (<) (fm_buckets (spec_of f))) registered_families"
proof -
  have "sorted_wrt (<) (fm_buckets (spec_of f))" for f
  proof (cases f)
    case (InCore g) then show ?thesis by (cases g) simp_all
  next
    case (InRequest g) then show ?thesis by (cases g) simp_all
  next
    case (InSession g) then show ?thesis by (cases g) simp_all
  next
    case (InRegistration g) then show ?thesis by (cases g) simp_all
  next
    case (InDelay g) then show ?thesis by (cases g) (simp_all add: ms_buckets_def spd_buckets_def)
  next
    case (InVq g)
    then show ?thesis
      by (cases g) (simp_all add: ms_buckets_def percent_buckets_def jitter_buckets_def mos_buckets_def
        vq_r_factor_buckets_def rerl_buckets_def)
  next
    case (InRtp g)
    then show ?thesis
      by (cases g) (simp_all add: jitter_buckets_def pdv_buckets_def mos_buckets_def rtp_r_factor_buckets_def
        loss_density_buckets_def)
  next
    case (InRtcp g)
    then show ?thesis by (cases g) (simp_all add: ms_buckets_def percent_buckets_def jitter_buckets_def)
  next
    case (InSelf g) then show ?thesis by (cases g) simp_all
  next
    case (InStatus code) then show ?thesis by (simp add: status_spec_def)
  qed
  then show ?thesis by (simp add: list_all_iff)
qed

section \<open>Every call is legal\<close>

text \<open>
  A call on a collector panics when the number of label values is not the number of label names, and a counter
  panics when it is lowered.
\<close>

definition fits :: "collector \<Rightarrow> family \<Rightarrow> string list \<Rightarrow> bool" where
  "fits k f vals \<longleftrightarrow> registered f \<and> fm_kind (spec_of f) = k \<and> length vals = length (fm_labels (spec_of f))"

fun op_ok :: "collector_op \<Rightarrow> bool" where
  "op_ok (CounterAdd f vals x) \<longleftrightarrow> fits Counter f vals \<and> 0 \<le> x"
| "op_ok (GaugeSet f vals x) \<longleftrightarrow> fits Gauge f vals"
| "op_ok (GaugeAdd f vals x) \<longleftrightarrow> fits Gauge f vals"
| "op_ok (Observe f vals x) \<longleftrightarrow> fits Histogram f vals"

definition rows_ok :: "nat \<Rightarrow> (string, string list) gomap \<Rightarrow> bool" where
  "rows_ok n m \<longleftrightarrow> list_all (\<lambda>(k, vals). length vals = n) m"

definition metrics_inv :: "metrics \<Rightarrow> bool" where
  "metrics_inv m \<longleftrightarrow> rows_ok 4 (mt_prev_sessions m) \<and> rows_ok 4 (mt_prev_registrations m) \<and> rows_ok 5 (mt_prev_streams m)"

lemma values_length [simp]:
  "length (label_values l) = 4" "length (invite_values i) = 4" "length (rtp_values l codec) = 5"
  by (simp_all add: label_values_def invite_values_def rtp_values_def)

lemma names_length [simp]:
  "length call_label_names = 4" "length invite_label_names = 8" "length rtp_label_names = 5"
  by (simp_all add: call_label_names_def invite_label_names_def rtp_label_names_def)

lemma bump_inv [simp]: "metrics_inv (bump f l m) = metrics_inv m"
  by (simp add: metrics_inv_def bump_def)

lemma foldl_rows_ok:
  "rows_ok n m \<Longrightarrow> list_all (\<lambda>(vals, c). length vals = n) rows \<Longrightarrow>
    rows_ok n (foldl (\<lambda>m (vals, c). mput (join_nul vals) vals m) m rows)"
proof (induction rows arbitrary: m)
  case (Cons r rows)
  obtain vals c where r: "r = (vals, c)" by force
  have "rows_ok n (mput (join_nul vals) vals m)"
    using Cons.prems by (induction m) (auto simp: rows_ok_def r)
  with Cons show ?case by (simp add: r)
qed simp

lemma set_gauge_ok:
  assumes "rows_ok (length names) prev" "\<And>vals. length vals = length names \<Longrightarrow> fits Gauge f vals"
  shows "list_all op_ok (fst (set_gauge_from_counts f names prev counts)) \<and>
    rows_ok (length names) (snd (set_gauge_from_counts f names prev counts))"
proof -
  have "list_all (\<lambda>(vals, c). length vals = length names) (snapshot_rows names counts)"
    by (simp add: snapshot_rows_def list_all_iff)
  moreover from this have "rows_ok (length names)
      (foldl (\<lambda>m (vals, n). mput (join_nul vals) vals m) [] (snapshot_rows names counts))"
    by (intro foldl_rows_ok) (simp_all add: rows_ok_def)
  ultimately show ?thesis using assms
    by (auto simp: set_gauge_from_counts_def Let_def list_all_iff rows_ok_def)
qed

lemma gauge_fits:
  "length vals = 4 \<Longrightarrow> fits Gauge (InSession FSessions) vals"
  "length vals = 4 \<Longrightarrow> fits Gauge (InRegistration FActiveRegistrations) vals"
  "length vals = 5 \<Longrightarrow> fits Gauge (InRtp FRtpActiveStreams) vals"
  by (simp_all add: fits_def)

lemma gauge_ops_ok: "metrics_inv m \<Longrightarrow> list_all op_ok (fst (gauge_ops k counts m)) \<and> metrics_inv (snd (gauge_ops k counts m))"
proof (cases k)
  case Sessions
  assume inv: "metrics_inv m"
  have "list_all op_ok (utilization_ops counts (mt_limits m))"
    by (auto simp: utilization_ops_def list_all_iff fits_def Let_def)
  with inv show ?thesis
    using set_gauge_ok [of call_label_names "mt_prev_sessions m" "InSession FSessions" counts] gauge_fits(1)
    by (simp add: Sessions update_sessions_ops_def case_prod_beta metrics_inv_def)
next
  case ActiveRegistrations
  assume inv: "metrics_inv m"
  then show ?thesis
    using set_gauge_ok [of call_label_names "mt_prev_registrations m" "InRegistration FActiveRegistrations" counts] gauge_fits(2)
    by (simp add: ActiveRegistrations update_registrations_ops_def case_prod_beta metrics_inv_def)
next
  case RTPActiveStreams
  assume inv: "metrics_inv m"
  then show ?thesis
    using set_gauge_ok [of rtp_label_names "mt_prev_streams m" "InRtp FRtpActiveStreams" counts] gauge_fits(3)
    by (simp add: RTPActiveStreams update_streams_ops_def case_prod_beta metrics_inv_def)
qed

lemma request_family_fits: "request_family_of method = Some f \<Longrightarrow> op_ok (Inc (InRequest f) (label_values l))"
  by (auto simp: request_family_of_def fits_def split: if_splits)

lemma sip_ops_ok: "metrics_inv m \<Longrightarrow> list_all op_ok (fst (sip_ops e m)) \<and> metrics_inv (snd (sip_ops e m))"
proof (cases e)
  case (EvRequest l i verb)
  assume "metrics_inv m"
  then show ?thesis using request_family_fits [of verb _ l]
    by (auto simp: EvRequest request_ops_def fits_def split: option.split)
next
  case (EvResponse l code is_inv)
  assume "metrics_inv m"
  then show ?thesis by (simp add: EvResponse response_ops_def status_ops_def fits_def status_spec_def Let_def)
next
  case (EvResponseWithMetrics l code is_inv is200)
  assume "metrics_inv m"
  then show ?thesis
    by (simp add: EvResponseWithMetrics response_with_metrics_ops_def response_ops_def status_ops_def fits_def
      status_spec_def Let_def)
next
  case (EvCall k l)
  assume "metrics_inv m"
  then show ?thesis
    by (cases k) (simp_all add: EvCall fits_def reinvite_ops_def session_completed_ops_def register_success_ops_def)
next
  case (EvAlert k carrier country direction)
  assume "metrics_inv m"
  then show ?thesis by (cases k) (simp_all add: EvAlert fits_def)
qed (simp_all add: invite_200ok_ops_def register_failure_ops_def fits_def)

lemma session_ops_ok: "metrics_inv m \<Longrightarrow> list_all op_ok (fst (session_ops e m)) \<and> metrics_inv (snd (session_ops e m))"
proof (cases e)
  case (EvDelay k l delay_ms)
  assume "metrics_inv m"
  then show ?thesis by (cases k) (simp_all add: EvDelay delay_ops_def fits_def)
next
  case (EvGauge k counts)
  assume "metrics_inv m"
  then show ?thesis by (simp add: EvGauge gauge_ops_ok)
next
  case (EvVQReport l report)
  assume "metrics_inv m"
  have "list_all (\<lambda>(key, f). fits Histogram (InVq f) (label_values l)) vq_table" by (simp add: vq_table_def fits_def)
  then have "list_all op_ok (concat (map (\<lambda>(key, f). case mget report key of
      None \<Rightarrow> [] | Some v \<Rightarrow> [Observe (InVq f) (label_values l) v]) vq_table))"
    by (auto simp: list_all_iff split: option.splits)
  with \<open>metrics_inv m\<close> show ?thesis by (simp add: EvVQReport vq_report_ops_def fits_def)
next
  case (EvShortCalls l d)
  assume "metrics_inv m"
  then show ?thesis by (auto simp: EvShortCalls short_call_ops_def fits_def list_all_iff)
next
  case (EvBillableSeconds carrier destination direction d)
  assume "metrics_inv m"
  then show ?thesis
    by (auto simp: EvBillableSeconds billable_ops_def fits_def seconds_of_def second_def)
qed (simp_all add: spd_ops_def fits_def metrics_inv_def)

lemma metric_step_ok: "metrics_inv m \<Longrightarrow> list_all op_ok (fst (metric_step e m)) \<and> metrics_inv (snd (metric_step e m))"
proof (cases e)
  case (RtpEv r)
  assume "metrics_inv m"
  moreover have "list_all op_ok (rtp_ops r)"
  proof (cases r)
    case (EvRtpCount k l codec) then show ?thesis by (cases k) (simp_all add: fits_def)
  next
    case (EvRtpAdd k l codec n) then show ?thesis by (cases k) (simp_all add: fits_def)
  next
    case (EvRtpObserve k l codec x) then show ?thesis by (cases k) (simp_all add: fits_def)
  qed (simp_all add: fits_def)
  ultimately show ?thesis by (simp add: RtpEv)
next
  case (SelfEv s)
  assume "metrics_inv m"
  moreover have "list_all op_ok (self_ops s)"
  proof (cases s)
    case (EvPlain k) then show ?thesis by (cases k) (simp_all add: fits_def)
  qed (simp_all add: fits_def)
  ultimately show ?thesis by (simp add: SelfEv)
qed (simp_all add: sip_ops_ok session_ops_ok)

lemma metric_run_ok: "metrics_inv m \<Longrightarrow> list_all op_ok (fst (metric_run evs m)) \<and> metrics_inv (snd (metric_run evs m))"
proof (induction evs arbitrary: m)
  case (Cons e evs)
  then show ?case using metric_step_ok [OF Cons.prems, of e] by (simp add: case_prod_beta Let_def)
qed simp

lemma new_metrics_inv: "metrics_inv new_metrics"
  by (simp add: metrics_inv_def new_metrics_def rows_ok_def)


section \<open>The counters behind the ratios\<close>

text \<open>Which events a field of the counters of a label set counts.\<close>

fun invite_seen :: "call_labels \<Rightarrow> metric_event \<Rightarrow> bool" where
  "invite_seen l (SipEv (EvRequest l' i method)) = (l' = l \<and> method = ''INVITE'')"
| "invite_seen l _ = False"

fun invite_response :: "(string \<Rightarrow> bool) \<Rightarrow> call_labels \<Rightarrow> metric_event \<Rightarrow> bool" where
  "invite_response p l (SipEv (EvResponse l' code is_inv)) = (l' = l \<and> is_inv \<and> p code)"
| "invite_response p l (SipEv (EvResponseWithMetrics l' code is_inv is200)) = (l' = l \<and> is_inv \<and> p code)"
| "invite_response p l _ = False"

fun invite_answered :: "call_labels \<Rightarrow> metric_event \<Rightarrow> bool" where
  "invite_answered l (SipEv (EvResponseWithMetrics l' code is_inv is200)) = (l' = l \<and> is_inv \<and> is200)"
| "invite_answered l _ = False"

fun session_ended :: "call_labels \<Rightarrow> metric_event \<Rightarrow> bool" where
  "session_ended l (SipEv (EvCall k l')) = (l' = l \<and> k = SessionCompleted)"
| "session_ended l _ = False"

fun register_accepted :: "call_labels \<Rightarrow> metric_event \<Rightarrow> bool" where
  "register_accepted l (SipEv (EvCall k l')) = (l' = l \<and> k = RegisterSuccess)"
| "register_accepted l _ = False"

fun register_refused :: "call_labels \<Rightarrow> metric_event \<Rightarrow> bool" where
  "register_refused l (SipEv (EvRegisterFailure l' code)) =
     (l' = l \<and> \<not> is_register_challenge code \<and> \<not> is_redirect_status code)"
| "register_refused l _ = False"

definition tally :: "('a \<Rightarrow> bool) \<Rightarrow> 'a list \<Rightarrow> int" where
  "tally p xs = int (length (filter p xs))"

definition counts_of :: "call_labels \<Rightarrow> metric_event list \<Rightarrow> carrier_counters" where
  "counts_of l evs = \<lparr>cc_invite_total = tally (invite_seen l) evs, cc_invite_3xx_total = tally (invite_response is_3xx l) evs,
     cc_invite_200ok_total = tally (invite_answered l) evs,
     cc_invite_effective_total = tally (invite_response is_effective_response l) evs,
     cc_invite_ineffective_total = tally (invite_response is_ineffective_response l) evs,
     cc_session_completed_total = tally (session_ended l) evs,
     cc_register_success_total = tally (register_accepted l) evs,
     cc_register_failure_total = tally (register_refused l) evs\<rparr>"

definition counters_plus :: "carrier_counters \<Rightarrow> carrier_counters \<Rightarrow> carrier_counters" where
  "counters_plus a b = \<lparr>cc_invite_total = cc_invite_total a + cc_invite_total b,
     cc_invite_3xx_total = cc_invite_3xx_total a + cc_invite_3xx_total b,
     cc_invite_200ok_total = cc_invite_200ok_total a + cc_invite_200ok_total b,
     cc_invite_effective_total = cc_invite_effective_total a + cc_invite_effective_total b,
     cc_invite_ineffective_total = cc_invite_ineffective_total a + cc_invite_ineffective_total b,
     cc_session_completed_total = cc_session_completed_total a + cc_session_completed_total b,
     cc_register_success_total = cc_register_success_total a + cc_register_success_total b,
     cc_register_failure_total = cc_register_failure_total a + cc_register_failure_total b\<rparr>"

abbreviation counters_at :: "call_labels \<Rightarrow> metrics \<Rightarrow> carrier_counters" where
  "counters_at l m \<equiv> mget_or zero_counters (mt_carrier_counters m) l"

lemma counters_bump: "counters_at l (bump f l' m) = (if l' = l then f (counters_at l m) else counters_at l m)"
  by (simp add: bump_def)

lemma tally_simps [simp]: "tally p [] = 0" "tally p (x # xs) = (if p x then 1 else 0) + tally p xs"
  by (simp_all add: tally_def)

lemma counters_gauge: "counters_at l (snd (gauge_ops k counts m)) = counters_at l m"
  by (cases k) (simp_all add: update_sessions_ops_def update_registrations_ops_def update_streams_ops_def case_prod_beta Let_def)

lemma counters_step: "counters_at l (snd (metric_step e m)) = counters_plus (counts_of l [e]) (counters_at l m)"
proof (cases e)
  case (SipEv s)
  show ?thesis
  proof (cases s)
    case (EvRequest l' i verb)
    then show ?thesis
      by (auto simp: SipEv request_ops_def counters_plus_def counts_of_def counters_bump split: option.split)
  next
    case (EvResponse l' code is_inv)
    then show ?thesis by (simp add: SipEv response_ops_def Let_def counters_plus_def counts_of_def counters_bump)
  next
    case (EvResponseWithMetrics l' code is_inv is200)
    then show ?thesis
      by (simp add: SipEv response_with_metrics_ops_def response_ops_def Let_def counters_plus_def counts_of_def
        counters_bump)
  next
    case (EvCall k l')
    then show ?thesis
      by (cases k) (simp_all add: SipEv counters_plus_def counts_of_def counters_bump session_completed_ops_def
        register_success_ops_def)
  next
    case (EvRegisterFailure l' code)
    then show ?thesis by (simp add: SipEv register_failure_ops_def counters_plus_def counts_of_def counters_bump)
  qed (simp_all add: SipEv counters_plus_def counts_of_def)
next
  case (SessionEv s)
  have "counters_plus (counts_of l [SessionEv s]) (counters_at l m) = counters_at l m"
    by (simp add: counters_plus_def counts_of_def)
  moreover have "counters_at l (snd (session_ops s m)) = counters_at l m"
    by (cases s) (simp_all add: counters_gauge)
  ultimately show ?thesis by (simp add: SessionEv)
qed (simp_all add: counters_plus_def counts_of_def)

lemma counters_run: "counters_at l (snd (metric_run evs m)) = counters_plus (counts_of l evs) (counters_at l m)"
proof (induction evs arbitrary: m)
  case (Cons e evs)
  then show ?case
    by (simp add: case_prod_beta Let_def counters_step) (simp add: counters_plus_def counts_of_def)
qed (simp add: counters_plus_def counts_of_def)

lemma counters_run_new: "counters_at l (snd (metric_run evs new_metrics)) = counts_of l evs"
proof -
  have "counters_at l new_metrics = zero_counters" by (simp add: new_metrics_def mget_or_def)
  then show ?thesis unfolding counters_run by (simp add: counters_plus_def counts_of_def zero_counters_def)
qed

text \<open>
  C22: the counters behind the ratios are exact: after any events, the eight counters of a label set are the
  numbers of INVITEs, of 3xx, effective and ineffective INVITE responses, of answered INVITEs, of completed sessions
  and of accepted and finally refused registrations with those labels; challenges and redirects count as neither.
\<close>

theorem carrier_counters_exact: "counters_at l (snd (metric_run evs new_metrics)) = counts_of l evs"
  by (rule counters_run_new)

text \<open>
  every exported ratio is the ratio of the events: the session ratios are not negative and zero before the
  first INVITE, NER and ISA are complementary, and the registration ratio is a percentage.
\<close>

theorem ratios_of_events:
  "let c = counters_at l (snd (metric_run evs new_metrics)) in
     0 \<le> ser c \<and> 0 \<le> seer c \<and> 0 \<le> isa c \<and> 0 \<le> scr c \<and> 0 \<le> asr c \<and> ner c \<le> 100 \<and>
     0 \<le> register_success_ratio c \<and> register_success_ratio c \<le> 100 \<and>
     (if tally (invite_seen l) evs = 0 then ner c = 0 \<and> isa c = 0 else ner c + isa c = 100)"
proof -
  have nonneg: "0 \<le> tally p xs" for p :: "metric_event \<Rightarrow> bool" and xs by (simp add: tally_def)
  have pct: "0 \<le> percentage a b" if "0 \<le> a" "0 \<le> b" for a b using that by (simp add: percentage_def)
  have "counters_at l (snd (metric_run evs new_metrics)) = counts_of l evs"
    by (rule counters_run_new)
  moreover have "0 \<le> ser (counts_of l evs)" "0 \<le> seer (counts_of l evs)" "0 \<le> isa (counts_of l evs)"
    "0 \<le> scr (counts_of l evs)" "0 \<le> asr (counts_of l evs)"
    by (simp_all add: ser_def seer_def isa_def scr_def asr_def counts_of_def Let_def pct nonneg)
  moreover have "ner (counts_of l evs) \<le> 100"
    using nonneg [of "invite_seen l" evs] nonneg [of "invite_response is_ineffective_response l" evs]
    by (auto simp: ner_def counts_of_def percentage_def divide_le_eq)
  moreover have "0 \<le> register_success_ratio (counts_of l evs) \<and> register_success_ratio (counts_of l evs) \<le> 100"
    using nonneg [of "register_accepted l" evs] nonneg [of "register_refused l" evs]
    by (auto simp: register_success_ratio_def counts_of_def percentage_def Let_def divide_le_eq)
  moreover have "if tally (invite_seen l) evs = 0 then ner (counts_of l evs) = 0 \<and> isa (counts_of l evs) = 0
      else ner (counts_of l evs) + isa (counts_of l evs) = 100"
    by (simp add: ner_def isa_def counts_of_def percentage_def field_simps)
  ultimately show ?thesis by (simp only: Let_def)
qed

end
