(* ===== verification/Metric_Snapshots.thy ===== *)
theory Metric_Snapshots
  imports Metric_Properties
begin

text \<open>
  Gauges that are fed by snapshots of the exporter's trackers: after any events a label set shows its count in
  the last snapshot, and zero once it has left the snapshots; and the utilisation of the session limits.
\<close>

section \<open>The value a gauge shows\<close>

text \<open>The last value set, given the value before: \<open>None\<close> for a series that does not exist.\<close>

fun shown_step :: "family \<Rightarrow> string list \<Rightarrow> real option \<Rightarrow> collector_op \<Rightarrow> real option" where
  "shown_step f vals r (GaugeSet f' vals' x) = (if f' = f \<and> vals' = vals then Some x else r)"
| "shown_step f vals r _ = r"

abbreviation shown :: "family \<Rightarrow> string list \<Rightarrow> real option \<Rightarrow> collector_op list \<Rightarrow> real option" where
  "shown f vals \<equiv> foldl (shown_step f vals)"

text \<open>The reference: what the snapshots say.\<close>

definition snapshot_count :: "string list \<Rightarrow> string list \<Rightarrow> labeled_count list \<Rightarrow> nat option" where
  "snapshot_count names vals counts = mget (rev (snapshot_rows names counts)) vals"

fun expected_value :: "string list \<Rightarrow> string list \<Rightarrow> real option \<Rightarrow> labeled_count list list \<Rightarrow> real option" where
  "expected_value names vals r [] = r"
| "expected_value names vals r (counts # rest) = expected_value names vals
     (case snapshot_count names vals counts of Some n \<Rightarrow> Some (real n) | None \<Rightarrow> map_option (\<lambda>_. 0) r) rest"

section \<open>Keys of label sets\<close>

text \<open>Labels without a NUL byte have distinct keys.\<close>

definition nul_free :: "string \<Rightarrow> bool" where
  "nul_free s \<longleftrightarrow> CHR 0x00 \<notin> set s"

lemma split_at_nul: "nul_free a \<Longrightarrow> nul_free b \<Longrightarrow> a @ CHR 0x00 # xs = b @ CHR 0x00 # ys \<Longrightarrow> a = b \<and> xs = ys"
proof (induction a arbitrary: b)
  case Nil
  then show ?case by (cases b) (auto simp: nul_free_def)
next
  case (Cons c a)
  then show ?case by (cases b) (auto simp: nul_free_def)
qed

lemma join_nul_simps: "join_nul [v] = v" "join_nul (v # w # vs) = v @ CHR 0x00 # join_nul (w # vs)"
  by (simp_all add: join_nul_def)

lemma join_nul_inj:
  "length vs = length ws \<Longrightarrow> list_all nul_free vs \<Longrightarrow> list_all nul_free ws \<Longrightarrow> join_nul vs = join_nul ws \<Longrightarrow> vs = ws"
proof (induction vs ws rule: list_induct2)
  case (Cons v vs w ws)
  show ?case
  proof (cases vs)
    case Nil
    with Cons show ?thesis by (simp add: join_nul_simps)
  next
    case v: (Cons v' vs')
    then obtain w' ws' where ws: "ws = w' # ws'" using Cons.hyps by (cases ws) auto
    have "v @ CHR 0x00 # join_nul vs = w @ CHR 0x00 # join_nul ws"
      using Cons.prems(3) by (simp add: v ws join_nul_simps)
    then have "v = w \<and> join_nul vs = join_nul ws" using split_at_nul Cons.prems by auto
    then show ?thesis using Cons.IH Cons.prems by auto
  qed
qed simp

section \<open>One snapshot\<close>

definition row_ok :: "nat \<Rightarrow> string list \<Rightarrow> bool" where
  "row_ok n vals \<longleftrightarrow> length vals = n \<and> list_all nul_free vals"

text \<open>The map of the keys of a snapshot: every row under its own key.\<close>

definition keyed :: "nat \<Rightarrow> string list set \<Rightarrow> (string, string list) gomap \<Rightarrow> bool" where
  "keyed n rows m \<longleftrightarrow> (\<forall>vals\<in>rows. row_ok n vals) \<and> set m = (\<lambda>vals. (join_nul vals, vals)) ` rows"

lemma keyed_get: "keyed n rows m \<Longrightarrow> row_ok n vals \<Longrightarrow> mget m (join_nul vals) = None \<longleftrightarrow> vals \<notin> rows"
proof -
  assume k: "keyed n rows m" and v: "row_ok n vals"
  have "fst ` set m = join_nul ` rows" using k by (simp add: keyed_def image_image)
  then have "mget m (join_nul vals) = None \<longleftrightarrow> join_nul vals \<notin> join_nul ` rows" by (simp add: mget_None_keys)
  moreover have "v = vals" if "v \<in> rows" "join_nul vals = join_nul v" for v
    using join_nul_inj [of v vals] k v that by (simp add: keyed_def row_ok_def)
  ultimately show ?thesis by auto
qed

lemma keyed_put:
  assumes "keyed n rows m" "row_ok n vals" "mwf m"
  shows "keyed n (insert vals rows) (mput (join_nul vals) vals m)"
proof -
  have "set (mput (join_nul vals) vals m) = insert (join_nul vals, vals) {e \<in> set m. fst e \<noteq> join_nul vals}"
    by (rule set_mput [OF assms(3)])
  moreover have "v = vals" if "v \<in> rows" "join_nul v = join_nul vals" for v
    using join_nul_inj [of v vals] that assms(1,2) by (simp add: keyed_def row_ok_def)
  ultimately show ?thesis using assms(1,2) by (auto simp: keyed_def)
qed

lemma keyed_rows:
  "list_all (\<lambda>(vals, c). row_ok n vals) rows \<Longrightarrow> keyed n R m \<Longrightarrow> mwf m \<Longrightarrow>
    keyed n (R \<union> fst ` set rows) (foldl (\<lambda>m (vals, c). mput (join_nul vals) vals m) m rows)"
proof (induction rows arbitrary: m R)
  case (Cons r rows)
  obtain vals c where r: "r = (vals, c)" by force
  from Cons.IH [OF _ keyed_put [OF Cons.prems(2) _ Cons.prems(3), of vals]] Cons.prems show ?case by (simp add: r)
qed simp

lemma shown_rows:
  "shown f vals r (map (\<lambda>(v, n). GaugeSet f v (real n)) rows) =
     (case mget (rev rows) vals of Some n \<Rightarrow> Some (real n) | None \<Rightarrow> r)"
  by (induction rows arbitrary: r) (auto simp: map_of_append map_add_def split: option.split)

lemma shown_zeros:
  "shown f vals r (map (\<lambda>(k, v). GaugeSet f v 0) xs) = (if vals \<in> snd ` set xs then Some 0 else r)"
  by (induction xs arbitrary: r) auto

text \<open>The value shown agrees with the rows of the last snapshot.\<close>

definition shows_rows :: "string list set \<Rightarrow> string list \<Rightarrow> real option \<Rightarrow> bool" where
  "shows_rows rows vals r \<longleftrightarrow> (if vals \<in> rows then r \<noteq> None else r = None \<or> r = Some 0)"

lemma set_gauge_shows:
  assumes prev: "keyed (length names) R prev" and rows: "list_all (\<lambda>(v, c). row_ok (length names) v) (snapshot_rows names counts)"
    and r: "shows_rows R vals r" and vals: "row_ok (length names) vals"
  shows "shown f vals r (fst (set_gauge_from_counts f names prev counts)) =
      (case snapshot_count names vals counts of Some n \<Rightarrow> Some (real n) | None \<Rightarrow> map_option (\<lambda>_. 0) r)"
    and "keyed (length names) (fst ` set (snapshot_rows names counts)) (snd (set_gauge_from_counts f names prev counts))"
    and "shows_rows (fst ` set (snapshot_rows names counts)) vals
      (shown f vals r (fst (set_gauge_from_counts f names prev counts)))"
proof -
  let ?rows = "snapshot_rows names counts"
  let ?current = "foldl (\<lambda>m (vals, n). mput (join_nul vals) vals m) [] ?rows"
  let ?stale = "filter (\<lambda>(key, vals). mget ?current key = None) prev"
  have cur: "keyed (length names) (fst ` set ?rows) ?current"
    using keyed_rows [OF rows, of "{}" "[]"] by (simp add: keyed_def)
  then show k: "keyed (length names) (fst ` set ?rows) (snd (set_gauge_from_counts f names prev counts))"
    by (simp add: set_gauge_from_counts_def Let_def)
  have cnt: "snapshot_count names vals counts = None \<longleftrightarrow> vals \<notin> fst ` set ?rows"
    by (simp add: snapshot_count_def mget_None_keys)
  have stale: "vals \<in> snd ` set ?stale \<longleftrightarrow> vals \<in> R \<and> vals \<notin> fst ` set ?rows"
  proof -
    have "vals \<in> snd ` set ?stale \<longleftrightarrow> (\<exists>v\<in>R. v = vals \<and> mget ?current (join_nul v) = None)"
      using prev by (force simp: keyed_def image_iff)
    then show ?thesis using keyed_get [OF cur vals] by auto
  qed
  have "shown f vals r (fst (set_gauge_from_counts f names prev counts)) =
      (if vals \<in> snd ` set ?stale then Some 0
       else case snapshot_count names vals counts of Some n \<Rightarrow> Some (real n) | None \<Rightarrow> r)"
    by (simp add: set_gauge_from_counts_def Let_def shown_rows shown_zeros snapshot_count_def)
  also have "\<dots> = (case snapshot_count names vals counts of Some n \<Rightarrow> Some (real n) | None \<Rightarrow> map_option (\<lambda>_. 0) r)"
    unfolding stale using r cnt by (cases "snapshot_count names vals counts"; cases r) (auto simp: shows_rows_def split: if_splits)
  finally show eq: "shown f vals r (fst (set_gauge_from_counts f names prev counts)) =
      (case snapshot_count names vals counts of Some n \<Rightarrow> Some (real n) | None \<Rightarrow> map_option (\<lambda>_. 0) r)" .
  show "shows_rows (fst ` set ?rows) vals (shown f vals r (fst (set_gauge_from_counts f names prev counts)))"
    unfolding eq shows_rows_def using cnt by (cases r; cases "snapshot_count names vals counts") auto
qed

section \<open>Any events\<close>

fun gauge_family :: "gauge_kind \<Rightarrow> family" where
  "gauge_family Sessions = InSession FSessions"
| "gauge_family ActiveRegistrations = InRegistration FActiveRegistrations"
| "gauge_family RTPActiveStreams = InRtp FRtpActiveStreams"

definition gauge_names :: "gauge_kind \<Rightarrow> string list" where
  "gauge_names k = fm_labels (spec_of (gauge_family k))"

fun prev_rows :: "gauge_kind \<Rightarrow> metrics \<Rightarrow> (string, string list) gomap" where
  "prev_rows Sessions m = mt_prev_sessions m"
| "prev_rows ActiveRegistrations m = mt_prev_registrations m"
| "prev_rows RTPActiveStreams m = mt_prev_streams m"

fun snapshot_of :: "gauge_kind \<Rightarrow> metric_event \<Rightarrow> labeled_count list option" where
  "snapshot_of k (SessionEv (EvGauge k' counts)) = (if k' = k then Some counts else None)"
| "snapshot_of k _ = None"

text \<open>
  Events whose labels have no NUL byte; the sessions gauge is set by snapshots only (\<open>UpdateSession\<close> has no caller).
\<close>

definition event_fine :: "gauge_kind \<Rightarrow> metric_event \<Rightarrow> bool" where
  "event_fine k e = (case snapshot_of k e of
       Some counts \<Rightarrow> list_all (\<lambda>(v, c). list_all nul_free v) (snapshot_rows (gauge_names k) counts)
     | None \<Rightarrow> (case e of SessionEv (EvSession _ _) \<Rightarrow> k \<noteq> Sessions | _ \<Rightarrow> True))"

lemma names_of_gauge: "gauge_names Sessions = call_label_names" "gauge_names ActiveRegistrations = call_label_names"
  "gauge_names RTPActiveStreams = rtp_label_names"
  by (simp_all add: gauge_names_def)

fun sets_only_others :: "family \<Rightarrow> collector_op \<Rightarrow> bool" where
  "sets_only_others f (GaugeSet f' vals x) = (f' \<noteq> f)"
| "sets_only_others f _ = True"

lemma shown_others: "list_all (sets_only_others f) ops \<Longrightarrow> shown f vals r ops = r"
proof (induction ops arbitrary: r)
  case (Cons op1 ops)
  then show ?case by (cases op1) auto
qed simp

lemma utilization_others: "list_all (sets_only_others (gauge_family k)) (utilization_ops counts limits)"
  by (cases k) (auto simp: utilization_ops_def list_all_iff Let_def)

lemma set_gauge_others: "f' \<noteq> f \<Longrightarrow> list_all (sets_only_others f) (fst (set_gauge_from_counts f' names prev counts))"
  by (auto simp: set_gauge_from_counts_def Let_def list_all_iff)

lemma bump_prev [simp]: "prev_rows k (bump f l m) = prev_rows k m"
  by (cases k) (simp_all add: bump_def)

lemma other_event:
  assumes "snapshot_of k e = None" "event_fine k e"
  shows "list_all (sets_only_others (gauge_family k)) (fst (metric_step e m)) \<and> prev_rows k (snd (metric_step e m)) = prev_rows k m"
proof (cases e)
  case (SipEv s)
  show ?thesis
  proof (cases s)
    case (EvCall c l)
    then show ?thesis
      by (cases c) (simp_all add: SipEv reinvite_ops_def session_completed_ops_def register_success_ops_def)
  qed (auto simp: SipEv request_ops_def response_ops_def response_with_metrics_ops_def status_ops_def invite_200ok_ops_def
      register_failure_ops_def Let_def split: option.split)
next
  case (SessionEv s)
  show ?thesis
  proof (cases s)
    case (EvGauge k' counts)
    then have "k' \<noteq> k" using assms(1) by (auto simp: SessionEv split: if_splits)
    then show ?thesis
      by (cases k'; cases k)
        (simp_all add: SessionEv EvGauge update_sessions_ops_def update_registrations_ops_def update_streams_ops_def
          case_prod_beta Let_def set_gauge_others utilization_others [of ActiveRegistrations, simplified]
          utilization_others [of RTPActiveStreams, simplified])
  next
    case (EvSession l n)
    then have "k \<noteq> Sessions" using assms by (simp add: event_fine_def SessionEv)
    then show ?thesis by (cases k) (simp_all add: SessionEv EvSession)
  next
    case (EvSessionsLimits limits)
    then show ?thesis by (cases k) (simp_all add: SessionEv)
  next
    case (EvVQReport l report)
    then show ?thesis by (auto simp: SessionEv vq_report_ops_def list_all_iff split: option.splits)
  qed (auto simp: SessionEv delay_ops_def spd_ops_def short_call_ops_def billable_ops_def list_all_iff)
next
  case (RtpEv s)
  then show ?thesis by (cases s) simp_all
next
  case (SelfEv s)
  then show ?thesis by (cases k; cases s) simp_all
qed

lemma snapshot_event:
  assumes e: "snapshot_of k e = Some counts" and fine: "event_fine k e"
    and prev: "keyed (length (gauge_names k)) R (prev_rows k m)" and r: "shows_rows R vals r"
    and vals: "row_ok (length (gauge_names k)) vals"
  shows "\<exists>R'. keyed (length (gauge_names k)) R' (prev_rows k (snd (metric_step e m))) \<and>
    shows_rows R' vals (shown (gauge_family k) vals r (fst (metric_step e m))) \<and>
    shown (gauge_family k) vals r (fst (metric_step e m)) = expected_value (gauge_names k) vals r [counts]"
proof -
  have ev: "e = SessionEv (EvGauge k counts)"
    using e by (cases "(k, e)" rule: snapshot_of.cases) (auto split: if_splits)
  let ?g = "set_gauge_from_counts (gauge_family k) (gauge_names k) (prev_rows k m) counts"
  have rows: "list_all (\<lambda>(v, c). row_ok (length (gauge_names k)) v) (snapshot_rows (gauge_names k) counts)"
    using fine e by (auto simp: event_fine_def row_ok_def list_all_iff snapshot_rows_def)
  have "shown (gauge_family k) vals r (fst (metric_step e m)) = shown (gauge_family k) vals r (fst ?g)"
    "prev_rows k (snd (metric_step e m)) = snd ?g"
    by (cases k; simp add: ev names_of_gauge update_sessions_ops_def update_registrations_ops_def update_streams_ops_def
      case_prod_beta Let_def shown_others utilization_others [of Sessions, simplified])+
  with set_gauge_shows [OF prev rows r vals, of "gauge_family k"] show ?thesis by auto
qed

lemma run_shows:
  "list_all (event_fine k) evs \<Longrightarrow> keyed (length (gauge_names k)) R (prev_rows k m) \<Longrightarrow> shows_rows R vals r \<Longrightarrow>
   row_ok (length (gauge_names k)) vals \<Longrightarrow>
   shown (gauge_family k) vals r (fst (metric_run evs m)) =
     expected_value (gauge_names k) vals r (List.map_filter (snapshot_of k) evs)"
proof (induction evs arbitrary: R m r)
  case (Cons e evs)
  show ?case
  proof (cases "snapshot_of k e")
    case None
    with Cons.prems(1) other_event [OF None] have "shown (gauge_family k) vals r (fst (metric_step e m)) = r"
      "prev_rows k (snd (metric_step e m)) = prev_rows k m" by (simp_all add: shown_others)
    with Cons None show ?thesis by (simp add: case_prod_beta Let_def map_filter_simps)
  next
    case (Some counts)
    have "event_fine k e" using Cons.prems(1) by simp
    from snapshot_event [OF Some this Cons.prems(2-4)] obtain R' where R':
      "keyed (length (gauge_names k)) R' (prev_rows k (snd (metric_step e m)))"
      "shows_rows R' vals (shown (gauge_family k) vals r (fst (metric_step e m)))"
      "shown (gauge_family k) vals r (fst (metric_step e m)) = expected_value (gauge_names k) vals r [counts]" by blast
    from Cons.IH [OF _ R'(1,2) Cons.prems(4)] Cons.prems(1) Some R'(3) show ?thesis
      by (simp add: case_prod_beta Let_def map_filter_simps)
  qed
qed (simp add: map_filter_simps)


definition sample_count :: "string \<Rightarrow> nat \<Rightarrow> labeled_count" where
  "sample_count carrier n = \<lparr>lc_labels = [(''carrier'', carrier), (''direction'', ''inbound'')], lc_count = n\<rparr>"


section \<open>Utilisation\<close>

lemma carrier_total_sum:
  "carrier_total counts carrier =
     (\<Sum>lc\<leftarrow>filter (\<lambda>lc. mget_or [] (lc_labels lc) ''carrier'' = carrier) counts. real (lc_count lc))"
proof -
  have "mget_or 0 (foldl (\<lambda>m lc. let c = mget_or [] (lc_labels lc) ''carrier''
        in mput c (mget_or 0 m c + real (lc_count lc)) m) m counts) carrier =
      mget_or 0 m carrier +
      (\<Sum>lc\<leftarrow>filter (\<lambda>lc. mget_or [] (lc_labels lc) ''carrier'' = carrier) counts. real (lc_count lc))" for m
    by (induction counts arbitrary: m) (auto simp: Let_def)
  from this [of "[]"] show ?thesis by (simp add: carrier_total_def mget_or_def)
qed

lemma utilization_member:
  "(carrier, limit) \<in> set limits \<Longrightarrow> 0 < limit \<Longrightarrow>
   GaugeSet (InSession FSessionsUtilization) [carrier] (min 100 (carrier_total counts carrier / real_of_int limit * 100))
     \<in> set (utilization_ops counts limits)"
  unfolding utilization_ops_def set_concat set_map
  by (rule UN_I, rule imageI, assumption) (simp add: Let_def max_utilization_def min_def)

text \<open>
  each snapshot of the sessions sets, for every carrier with a positive limit, the utilisation to the sessions
  of that carrier as a percentage of the limit, capped at 100; and no utilisation outside 0 to 100 is ever set.
\<close>

theorem utilization_exact:
  "list_all (\<lambda>(carrier, limit). if limit \<le> 0 then True
     else GaugeSet (InSession FSessionsUtilization) [carrier]
       (min 100 ((\<Sum>lc\<leftarrow>filter (\<lambda>lc. mget_or [] (lc_labels lc) ''carrier'' = carrier) counts. real (lc_count lc))
          / real_of_int limit * 100)) \<in> set (fst (update_sessions_ops counts m))) (mt_limits m) \<and>
   list_all (\<lambda>op. case op of GaugeSet (InSession FSessionsUtilization) vals x \<Rightarrow> 0 \<le> x \<and> x \<le> 100 | _ \<Rightarrow> True)
     (fst (update_sessions_ops counts m))"
  (is "?exact \<and> ?range")
proof
  have nonneg: "0 \<le> (\<Sum>lc\<leftarrow>filter p counts. real (lc_count lc))" for p by (intro sum_list_nonneg) auto
  have cap: "(if max_utilization < x then max_utilization else x) = min 100 x" for x
    by (simp add: max_utilization_def min_def)
  show ?exact
    unfolding list_all_iff carrier_total_sum [symmetric]
  proof (clarify, split if_split, intro conjI impI TrueI)
    fix carrier and limit :: int
    assume "(carrier, limit) \<in> set (mt_limits m)" "\<not> limit \<le> 0"
    then have "mt_limits m \<noteq> []" "GaugeSet (InSession FSessionsUtilization) [carrier]
        (min 100 (carrier_total counts carrier / real_of_int limit * 100)) \<in> set (utilization_ops counts (mt_limits m))"
      using utilization_member by auto
    then show "GaugeSet (InSession FSessionsUtilization) [carrier]
        (min 100 (carrier_total counts carrier / real_of_int limit * 100)) \<in> set (fst (update_sessions_ops counts m))"
      by (simp add: update_sessions_ops_def case_prod_beta Let_def)
  qed
  show ?range
    using nonneg
    by (auto simp: list_all_iff update_sessions_ops_def case_prod_beta Let_def set_gauge_from_counts_def utilization_ops_def
      cap carrier_total_sum max_utilization_def)
qed

end
