(* ===== verification/Sip_Print.thy ===== *)
theory Sip_Print
  imports Sip_Message App_Config
begin

text \<open>
  The SIP parser against the grammar of RFC 3261: messages are printed from their start line, headers and
  body, and \<open>sipPacketParse\<close> reads back what was printed: header names in any case and in their compact forms,
  headers in any order with unknown ones between them, addresses with display names, ports and parameters.
\<close>

section \<open>Printing\<close>

datatype start_line = StatusLine string string | RequestLine string string

record address =
  ad_display :: string
  ad_user :: string
  ad_host :: string
  ad_tail :: string
  ad_params :: string

datatype sip_header =
    FromHeader address string
  | ToHeader address "string option"
  | CallIdHeader string
  | CSeqHeader nat string
  | SessionExpiresHeader nat
  | ExpiresHeader nat
  | UserAgentHeader string
  | ContentTypeHeader string
  | OtherHeader string

fun start_text :: "start_line \<Rightarrow> string" where
  "start_text (StatusLine status reason) = ''SIP/2.0 '' @ status @ '' '' @ reason"
| "start_text (RequestLine name target) = name @ '' '' @ target @ '' SIP/2.0''"

definition address_text :: "address \<Rightarrow> string" where
  "address_text a = ad_display a @ ''<'' @ (''sip:'' @ ad_user a @ ''@'' @ ad_host a @ ad_tail a) @ ''>''"

fun header_value :: "sip_header \<Rightarrow> string" where
  "header_value (FromHeader a tag) = address_text a @ '';tag='' @ tag @ ad_params a"
| "header_value (ToHeader a None) = address_text a"
| "header_value (ToHeader a (Some tag)) = address_text a @ '';tag='' @ tag @ ad_params a"
| "header_value (CallIdHeader c) = c"
| "header_value (CSeqHeader n m) = dec n @ '' '' @ m"
| "header_value (SessionExpiresHeader n) = dec n"
| "header_value (ExpiresHeader n) = dec n"
| "header_value (UserAgentHeader s) = s"
| "header_value (ContentTypeHeader s) = s"
| "header_value (OtherHeader s) = s"

text \<open>A header is printed under a name of the sender's choice.\<close>

definition header_line :: "string \<times> sip_header \<Rightarrow> string" where
  "header_line = (\<lambda>(name, h). name @ '': '' @ header_value h)"

definition message_text :: "start_line \<Rightarrow> (string \<times> sip_header) list \<Rightarrow> string \<Rightarrow> string" where
  "message_text s hs body = start_text s @ crlf @ concat (map (\<lambda>h. header_line h @ crlf) hs) @ crlf @ body"

section \<open>What the fields should be\<close>

fun start_packet :: "start_line \<Rightarrow> sip_packet" where
  "start_packet (StatusLine status reason) = zero_packet\<lparr>pk_is_response := True, pk_response_status := status\<rparr>"
| "start_packet (RequestLine name target) = zero_packet\<lparr>pk_method := name\<rparr>"

definition party_of :: "address \<Rightarrow> string \<Rightarrow> sip_party" where
  "party_of a tag = \<lparr>sp_user = ad_user a, sp_addr = ad_host a, sp_tag = tag\<rparr>"

fun apply_header :: "sip_packet \<Rightarrow> sip_header \<Rightarrow> sip_packet" where
  "apply_header p (FromHeader a tag) = p\<lparr>pk_from := party_of a tag\<rparr>"
| "apply_header p (ToHeader a tag) = p\<lparr>pk_to := party_of a (case tag of None \<Rightarrow> [] | Some t \<Rightarrow> t)\<rparr>"
| "apply_header p (CallIdHeader c) = p\<lparr>pk_call_id := c\<rparr>"
| "apply_header p (CSeqHeader n m) = p\<lparr>pk_cseq_id := dec n, pk_cseq_method := m\<rparr>"
| "apply_header p (SessionExpiresHeader n) = p\<lparr>pk_session_expires := int n\<rparr>"
| "apply_header p (ExpiresHeader n) = p\<lparr>pk_expires := int n\<rparr>"
| "apply_header p (UserAgentHeader s) = (if pk_user_agent p = [] then p\<lparr>pk_user_agent := s\<rparr> else p)"
| "apply_header p (ContentTypeHeader s) = (if pk_content_type p = [] then p\<lparr>pk_content_type := s\<rparr> else p)"
| "apply_header p (OtherHeader s) = p"

section \<open>Well-formed messages\<close>

definition text_char :: "char \<Rightarrow> bool" where
  "text_char c \<longleftrightarrow> 32 \<le> code c \<and> code c < 127"

text \<open>A value: printable, neither empty nor with blanks at its ends.\<close>

definition value_ok :: "string \<Rightarrow> bool" where
  "value_ok s \<longleftrightarrow> s \<noteq> [] \<and> visible (hd s) \<and> visible (last s) \<and> list_all text_char s"

definition plain_char :: "char \<Rightarrow> bool" where
  "plain_char c \<longleftrightarrow> visible c \<and> c \<notin> set '';:<>@[]'' \<and> c \<noteq> CHR 0x22"

definition address_ok :: "address \<Rightarrow> bool" where
  "address_ok a \<longleftrightarrow>
     (ad_display a = [] \<or> visible (hd (ad_display a))) \<and> list_all (\<lambda>c. text_char c \<and> c \<notin> set ''<>'') (ad_display a) \<and>
     ad_user a \<noteq> [] \<and> list_all plain_char (ad_user a) \<and> ad_host a \<noteq> [] \<and> list_all plain_char (ad_host a) \<and>
     (ad_tail a = [] \<or> hd (ad_tail a) \<in> set '';:'') \<and> list_all (\<lambda>c. text_char c \<and> c \<notin> set ''<>'') (ad_tail a) \<and>
     (ad_params a = [] \<or> hd (ad_params a) = CHR '';'' \<and> visible (last (ad_params a))) \<and> list_all text_char (ad_params a)"

definition known_names :: "string list" where
  "known_names = [''From'', ''To'', ''Call-ID'', ''CSeq'', ''Session-Expires'', ''Expires'', ''User-Agent'', ''Content-Type'']"

fun header_name :: "sip_header \<Rightarrow> string option" where
  "header_name (FromHeader a tag) = Some ''From''"
| "header_name (ToHeader a tag) = Some ''To''"
| "header_name (CallIdHeader c) = Some ''Call-ID''"
| "header_name (CSeqHeader n m) = Some ''CSeq''"
| "header_name (SessionExpiresHeader n) = Some ''Session-Expires''"
| "header_name (ExpiresHeader n) = Some ''Expires''"
| "header_name (UserAgentHeader s) = Some ''User-Agent''"
| "header_name (ContentTypeHeader s) = Some ''Content-Type''"
| "header_name (OtherHeader s) = None"

fun value_fits :: "sip_header \<Rightarrow> bool" where
  "value_fits (FromHeader a tag) \<longleftrightarrow> address_ok a \<and> tag \<noteq> [] \<and> list_all plain_char tag"
| "value_fits (ToHeader a None) \<longleftrightarrow> address_ok a"
| "value_fits (ToHeader a (Some tag)) \<longleftrightarrow> address_ok a \<and> tag \<noteq> [] \<and> list_all plain_char tag"
| "value_fits (CSeqHeader n m) \<longleftrightarrow> m \<noteq> [] \<and> list_all visible m"
| "value_fits (SessionExpiresHeader n) \<longleftrightarrow> n < 2 ^ 63"
| "value_fits (ExpiresHeader n) \<longleftrightarrow> n < 2 ^ 63"
| "value_fits h \<longleftrightarrow> value_ok (header_value h)"

definition same_name :: "string \<Rightarrow> string \<Rightarrow> bool" where
  "same_name a b \<longleftrightarrow> map lower_char a = map lower_char b"

text \<open>The compact forms of RFC 3261 (section 7.3.3) for the headers the exporter reads, and the names of a header.\<close>

definition compact_form :: "string \<Rightarrow> char option" where
  "compact_form known =
     (if known = ''From'' then Some CHR ''f'' else if known = ''To'' then Some CHR ''t''
      else if known = ''Call-ID'' then Some CHR ''i'' else if known = ''Content-Type'' then Some CHR ''c'' else None)"

definition names_header :: "string \<Rightarrow> string \<Rightarrow> bool" where
  "names_header name known \<longleftrightarrow> same_name name known \<or>
     (case compact_form known of None \<Rightarrow> False | Some c \<Rightarrow> same_name name [c])"

definition header_ok :: "string \<times> sip_header \<Rightarrow> bool" where
  "header_ok = (\<lambda>(name, h). name \<noteq> [] \<and> list_all (\<lambda>c. visible c \<and> c \<noteq> CHR '':'') name \<and> value_fits h \<and>
     (case header_name h of
        Some known \<Rightarrow> names_header name known
      | None \<Rightarrow> \<not> list_ex (names_header name) known_names))"

fun start_ok :: "start_line \<Rightarrow> bool" where
  "start_ok (StatusLine status reason) \<longleftrightarrow> length status = 3 \<and> list_all text_char (status @ reason)"
| "start_ok (RequestLine name target) \<longleftrightarrow> name \<noteq> [] \<and> list_all visible name \<and> \<not> has_prefix ''SIP/2.0'' name \<and>
     list_all visible target"

text \<open>A line of the body that is neither a header the exporter knows nor a continuation.\<close>

definition inert_line :: "string \<Rightarrow> bool" where
  "inert_line line \<longleftrightarrow> (line = [] \<or> hd line \<notin> {CHR '' '', CHR 0x09}) \<and>
     (CHR '':'' \<notin> set line \<or>
      (let name = takeWhile (\<lambda>c. c \<noteq> CHR '':'') line
       in list_all visible name \<and> \<not> list_ex (names_header name) known_names))"

definition body_ok :: "string \<Rightarrow> bool" where
  "body_ok body \<longleftrightarrow> list_all inert_line (go_split body crlf)"

section \<open>Names\<close>

lemma plain_visible: "plain_char c \<Longrightarrow> visible c"
  unfolding plain_char_def by blast

lemma visible_text: "visible c \<Longrightarrow> text_char c" "plain_char c \<Longrightarrow> visible c" "plain_char c \<Longrightarrow> text_char c"
  by (auto simp: visible_def text_char_def dest: plain_visible)

lemma text_weaken:
  "list_all plain_char s \<Longrightarrow> list_all text_char s" "list_all visible s \<Longrightarrow> list_all text_char s"
  "list_all (\<lambda>c. text_char c \<and> p c) s \<Longrightarrow> list_all text_char s"
  by (auto simp: list_all_iff visible_text)

lemma text_ascii: "list_all text_char s \<Longrightarrow> ascii s"
  by (auto simp: list_all_iff ascii_def text_char_def)

lemmas visible_ascii = text_ascii [OF text_weaken(2)]

lemma equal_fold_ascii: "ascii s \<Longrightarrow> equal_fold s n = same_name s n"
  by (induction s n rule: equal_fold.induct) (auto simp: ascii_def same_name_def)

lemma normalize_ascii: "ascii s \<Longrightarrow> ascii (normalize_header_name s)"
  by (simp add: normalize_header_name_def ascii_def)

lemma known_lower:
  "map (map lower_char) known_names =
     [''from'', ''to'', ''call-id'', ''cseq'', ''session-expires'', ''expires'', ''user-agent'', ''content-type'']"
proof -
  have "map lower_char ''From'' = ''from''"
    "map lower_char ''To'' = ''to''"
    "map lower_char ''Call-ID'' = ''call-id''"
    "map lower_char ''CSeq'' = ''cseq''"
    "map lower_char ''Session-Expires'' = ''session-expires''"
    "map lower_char ''Expires'' = ''expires''"
    "map lower_char ''User-Agent'' = ''user-agent''"
    "map lower_char ''Content-Type'' = ''content-type''"
    by (simp_all add: lower_char_def char_of_eq_iff)
  then show ?thesis unfolding known_names_def list.map by blast
qed

lemma known_distinct: "distinct (map (map lower_char) known_names)"
  unfolding known_lower by simp

lemma same_name_unique: "same_name s n \<Longrightarrow> same_name s m \<longleftrightarrow> same_name n m"
  by (auto simp: same_name_def)

lemma known_different:
  "n \<in> set known_names \<Longrightarrow> m \<in> set known_names \<Longrightarrow> same_name n m \<longleftrightarrow> n = m"
  using known_distinct by (auto simp: same_name_def distinct_map inj_on_def)

lemma header_name_known: "header_name h = Some n \<Longrightarrow> n \<in> set known_names"
proof -
  have "header_name h = None \<or> header_name h \<in> Some ` set known_names" by (cases h) (simp_all add: known_names_def)
  then show "header_name h = Some n \<Longrightarrow> n \<in> set known_names" by auto
qed

lemma char_eq_iff: "c = char_of n \<longleftrightarrow> take_bit 8 n = (of_char c :: nat)"
  by (metis char_of_eq_iff)

text \<open>The parser's normalisation accepts exactly the names of the header.\<close>

lemma lower_char_is:
  "lower_char c = CHR ''f'' \<longleftrightarrow> c \<in> {CHR ''f'', CHR ''F''}" "lower_char c = CHR ''t'' \<longleftrightarrow> c \<in> {CHR ''t'', CHR ''T''}"
  "lower_char c = CHR ''i'' \<longleftrightarrow> c \<in> {CHR ''i'', CHR ''I''}" "lower_char c = CHR ''c'' \<longleftrightarrow> c \<in> {CHR ''c'', CHR ''C''}"
proof -
  have up: "lower_char c = d \<longleftrightarrow> c = d \<or> code c + 32 = code d"
    if "97 \<le> code d" "code d \<le> 122" for d
  proof -
    have "lower_char c = d \<longleftrightarrow> code (lower_char c) = code d" by (metis char_of_char)
    moreover have "code (lower_char c) = (if 65 \<le> code c \<and> code c \<le> 90 then code c + 32 else code c)"
      by (simp add: lower_char_def)
    moreover have "c = d \<longleftrightarrow> code c = code d" by (metis char_of_char)
    ultimately show ?thesis using that by auto
  qed
  have eq: "c = d \<longleftrightarrow> code c = code d" for d by (metis char_of_char)
  show "lower_char c = CHR ''f'' \<longleftrightarrow> c \<in> {CHR ''f'', CHR ''F''}" "lower_char c = CHR ''t'' \<longleftrightarrow> c \<in> {CHR ''t'', CHR ''T''}"
    "lower_char c = CHR ''i'' \<longleftrightarrow> c \<in> {CHR ''i'', CHR ''I''}" "lower_char c = CHR ''c'' \<longleftrightarrow> c \<in> {CHR ''c'', CHR ''C''}"
    by (simp_all add: up) (simp_all add: eq [of "CHR ''F''"] eq [of "CHR ''T''"] eq [of "CHR ''I''"] eq [of "CHR ''C''"])
qed

lemma same_name_length: "same_name a b \<Longrightarrow> length a = length b"
  unfolding same_name_def by (metis length_map)

lemma normalize_names:
  assumes "known \<in> set known_names"
  shows "same_name (normalize_header_name name) known \<longleftrightarrow> names_header name known"
proof (cases "length name = 1")
  case True
  then obtain c where c: "name = [c]" by (auto simp: length_Suc_conv)
  have long: "\<not> same_name name known" using True assms by (auto simp: known_names_def dest: same_name_length)
  have "normalize_header_name [c] =
      (if lower_char c = CHR ''f'' then ''From'' else if lower_char c = CHR ''t'' then ''To''
       else if lower_char c = CHR ''i'' then ''Call-ID'' else if lower_char c = CHR ''c'' then ''Content-Type'' else [c])"
    unfolding lower_char_is by (simp add: normalize_header_name_def)
  moreover have "same_name [c] [CHR ''f''] \<longleftrightarrow> lower_char c = CHR ''f''" "same_name [c] [CHR ''t''] \<longleftrightarrow> lower_char c = CHR ''t''"
    "same_name [c] [CHR ''i''] \<longleftrightarrow> lower_char c = CHR ''i''" "same_name [c] [CHR ''c''] \<longleftrightarrow> lower_char c = CHR ''c''"
    by (simp_all add: same_name_def lower_char_def)
  moreover have "same_name ''From'' known \<longleftrightarrow> known = ''From''" "same_name ''To'' known \<longleftrightarrow> known = ''To''"
    "same_name ''Call-ID'' known \<longleftrightarrow> known = ''Call-ID''" "same_name ''Content-Type'' known \<longleftrightarrow> known = ''Content-Type''"
    using known_different [OF _ assms] by (auto simp: known_names_def)
  moreover from assms have "known = ''From'' \<or> known = ''To'' \<or> known = ''Call-ID'' \<or> known = ''CSeq'' \<or>
      known = ''Session-Expires'' \<or> known = ''Expires'' \<or> known = ''User-Agent'' \<or> known = ''Content-Type''"
    by (simp add: known_names_def)
  ultimately show ?thesis
    using long unfolding c names_header_def compact_form_def by (elim disjE) simp_all
next
  case False
  then have "\<not> same_name name [c]" for c by (auto dest: same_name_length)
  with False show ?thesis by (simp add: normalize_header_name_def names_header_def split: option.split)
qed

section \<open>Values\<close>

lemma blank_encodings:
  "[CHR '' ''] \<in> set space_encodings" "list_all (\<lambda>e. e = [CHR '' ''] \<or> e \<noteq> [] \<and> hd e \<noteq> CHR '' '') space_encodings"
  by (simp_all add: space_encodings_def char_of_eq_iff char_eq_iff)

lemma space_prefix_blank: "space_prefix space_encodings (CHR '' '' # s) = Some 1"
proof -
  let ?p = "\<lambda>e. e \<noteq> [] \<and> has_prefix e (CHR '' '' # s)"
  have "?p [CHR '' '']" by (simp add: has_prefix_def)
  then have "find ?p space_encodings \<noteq> None" using blank_encodings(1) unfolding find_None_iff by blast
  then obtain e where e: "find ?p space_encodings = Some e" by blast
  then have p: "e \<in> set space_encodings" "e \<noteq> []" "take (length e) (CHR '' '' # s) = e"
    by (auto simp: find_Some_iff has_prefix_def)
  then have "hd e = CHR '' ''" by (metis hd_take length_greater_0_conv list.sel(1))
  with p(1) have "e = [CHR '' '']" using blank_encodings(2) by (auto simp: list_all_iff)
  with e show ?thesis by (simp add: space_prefix_def)
qed

lemma trim_space_blank: "s \<noteq> [] \<Longrightarrow> visible (hd s) \<Longrightarrow> visible (last s) \<Longrightarrow> trim_space (CHR '' '' # s) = s"
proof -
  assume s: "s \<noteq> []" "visible (hd s)" "visible (last s)"
  have "trim_left_space (CHR '' '' # s) = trim_left_space s"
    unfolding trim_left_space_def by (subst trim_with.simps) (simp add: space_prefix_blank)
  then have "trim_space (CHR '' '' # s) = trim_space s" by (simp add: trim_space_def)
  then show ?thesis using trim_space_visible [OF s] by simp
qed

lemma list_all_ends: "list_all p s \<Longrightarrow> s \<noteq> [] \<Longrightarrow> p (hd s) \<and> p (last s)"
  by (simp add: list_all_iff)

lemma dec_visible: "list_all visible (dec n)"
  using dec_digits [of n] by (auto simp: list_all_iff is_digit_def visible_def)

lemma value_ok_visible: "s \<noteq> [] \<Longrightarrow> list_all visible s \<Longrightarrow> value_ok s"
  using list_all_ends [of visible s] by (auto simp: value_ok_def list_all_iff visible_text)

lemma value_ok_append:
  assumes "value_ok a" and "list_all text_char b" and "b = [] \<or> visible (last b)"
  shows "value_ok (a @ b)"
  using assms by (cases "b = []") (auto simp: value_ok_def)

lemma address_text_chars: "address_ok a \<Longrightarrow> list_all text_char (address_text a)"
  by (auto simp: address_ok_def address_text_def text_weaken text_char_def)

lemma address_value: "address_ok a \<Longrightarrow> value_ok (address_text a)"
proof -
  assume a: "address_ok a"
  have "visible (hd (address_text a))"
    using a by (cases "ad_display a") (simp_all add: address_ok_def address_text_def visible_def)
  then show ?thesis by (simp add: value_ok_def address_text_chars [OF a]) (simp add: address_text_def visible_def)
qed

lemma tag_visible: "tag \<noteq> [] \<Longrightarrow> list_all plain_char tag \<Longrightarrow> visible (last tag)"
  using list_all_ends [of plain_char tag] by (simp add: visible_text)

lemma tagged_value:
  assumes a: "address_ok a" and t: "tag \<noteq> []" "list_all plain_char tag"
  shows "value_ok (address_text a @ '';tag='' @ tag @ ad_params a)"
proof (rule value_ok_append [OF address_value [OF a]])
  show "list_all text_char ('';tag='' @ tag @ ad_params a)"
    using a t by (simp add: address_ok_def text_weaken text_char_def)
  have "ad_params a = [] \<or> visible (last (ad_params a))" using a by (auto simp: address_ok_def)
  then show "'';tag='' @ tag @ ad_params a = [] \<or> visible (last ('';tag='' @ tag @ ad_params a))"
    using t tag_visible by (cases "ad_params a = []") simp_all
qed

lemma header_value_ok: "value_fits h \<Longrightarrow> value_ok (header_value h)"
proof (cases h)
  case (ToHeader a tag)
  with tagged_value [of a] show "value_fits h \<Longrightarrow> ?thesis" by (cases tag) (simp_all add: address_value)
next
  case (CSeqHeader n m)
  assume f: "value_fits h"
  with CSeqHeader have m: "m \<noteq> []" "list_all visible m" by auto
  have "value_ok (dec n @ '' '' @ m)"
    using list_all_ends [OF m(2,1)] m(1) text_weaken(2) [OF m(2)]
    by (intro value_ok_append value_ok_visible dec_visible) (simp_all add: text_char_def)
  with CSeqHeader show ?thesis by simp
next
  case (FromHeader a tag)
  with tagged_value [of a tag] show "value_fits h \<Longrightarrow> ?thesis" by simp
qed (simp_all add: value_ok_visible dec_visible)

lemma split_header_line:
  assumes "header_ok (name, h)"
  shows "split_header (header_line (name, h)) = (name, header_value h)"
proof -
  have n: "name \<noteq> []" "list_all visible name" "CHR '':'' \<notin> set name" and v: "value_ok (header_value h)"
    using assms header_value_ok by (auto simp: header_ok_def list_all_iff)
  have i: "index_byte CHR '':'' (header_line (name, h)) = Some (length name)"
    using n(3) by (simp add: header_line_def index_byte_app)
  have "trim_space name = name" using list_all_ends [OF n(2,1)] n(1) by (simp add: trim_space_visible)
  moreover have "trim_space (CHR '' '' # header_value h) = header_value h"
    using v by (simp add: value_ok_def trim_space_blank)
  ultimately show ?thesis by (simp add: split_header_def i) (simp add: header_line_def)
qed

section \<open>Addresses\<close>

lemma cut_at_simps [simp]:
  "cut_at c [] = []" "cut_at c (c # xs) = []" "x \<noteq> c \<Longrightarrow> cut_at c (x # xs) = x # cut_at c xs"
  by (simp_all add: cut_at_def split: option.split)

lemma cut_at_app: "c \<notin> set xs \<Longrightarrow> cut_at c (xs @ ys) = xs @ cut_at c ys"
  by (induction xs) auto

lemma cut_at_none: "c \<notin> set xs \<Longrightarrow> cut_at c xs = xs"
  using cut_at_app [of c xs "[]"] by simp

lemma plain_not:
  "list_all plain_char s \<Longrightarrow> CHR '';'' \<notin> set s" "list_all plain_char s \<Longrightarrow> CHR '':'' \<notin> set s"
  "list_all plain_char s \<Longrightarrow> CHR ''@'' \<notin> set s" "list_all plain_char s \<Longrightarrow> CHR ''<'' \<notin> set s"
  "list_all plain_char s \<Longrightarrow> CHR ''>'' \<notin> set s" "list_all plain_char s \<Longrightarrow> CHR ''['' \<notin> set s"
  "list_all plain_char s \<Longrightarrow> CHR 0x22 \<notin> set s"
  by (auto simp: list_all_iff plain_char_def)

lemma extract_user_plain:
  assumes "u \<noteq> []" and "list_all plain_char u"
  shows "extract_user u = u"
proof -
  have "visible (hd u)" "visible (last u)" using list_all_ends [OF assms(2,1)] by (simp_all add: visible_text)
  then have "trim_space u = u" using assms(1) by (simp add: trim_space_visible)
  moreover have "hd u \<noteq> CHR 0x22" using plain_not(7) [OF assms(2)] assms(1) by (metis hd_in_set)
  ultimately show ?thesis
    using plain_not(1,2) [OF assms(2)] by (simp add: extract_user_def strip_params_def cut_at_none)
qed

lemma extract_host_plain:
  assumes h: "h \<noteq> []" "list_all plain_char h" and tail: "tail = [] \<or> hd tail \<in> set '';:''"
  shows "extract_host (h @ tail) = h"
proof -
  obtain x xs where hx: "h = x # xs" using h(1) by (cases h) auto
  then have x: "x \<noteq> CHR ''[''" using plain_not(6) [OF h(2)] by auto
  have cut: "strip_params (h @ tail) = h @ cut_at CHR '';'' tail"
    using plain_not(1) [OF h(2)] by (simp add: strip_params_def cut_at_app)
  have "cut_at CHR '':'' (cut_at CHR '';'' tail) = []" using tail by (cases tail) auto
  then have "cut_at CHR '':'' (h @ cut_at CHR '';'' tail) = h"
    using plain_not(2) [OF h(2)] by (simp add: cut_at_app)
  then show ?thesis using x by (simp add: extract_host_def Let_def cut) (simp add: hx)
qed

lemma strip_sip: "strip_scheme (''sip:'' @ rest) = rest"
proof -
  have "lower_char CHR '':'' \<noteq> lower_char CHR ''s''" by (simp add: lower_char_def)
  moreover have "equal_fold ''sip:'' ''sip:''" by (rule equal_fold_refl)
  ultimately show ?thesis by (simp add: strip_scheme_def)
qed

definition address_uri :: "address \<Rightarrow> string" where
  "address_uri a = ''sip:'' @ ad_user a @ ''@'' @ ad_host a @ ad_tail a"

lemma no_angle:
  "list_all (\<lambda>c. text_char c \<and> c \<notin> set ''<>'') s \<Longrightarrow> list_all text_char s \<and> CHR ''<'' \<notin> set s \<and> CHR ''>'' \<notin> set s"
  by (auto simp: list_all_iff)

lemma address_parts:
  assumes "address_ok a"
  shows "ad_user a \<noteq> []" "list_all plain_char (ad_user a)" "ad_host a \<noteq> []" "list_all plain_char (ad_host a)"
    "ad_tail a = [] \<or> hd (ad_tail a) \<in> set '';:''"
    "list_all (\<lambda>c. text_char c \<and> c \<notin> set ''<>'') (ad_display a)"
    "list_all (\<lambda>c. text_char c \<and> c \<notin> set ''<>'') (ad_tail a)"
    "ad_params a = [] \<or> hd (ad_params a) = CHR '';'' \<and> visible (last (ad_params a))" "list_all text_char (ad_params a)"
  using assms unfolding address_ok_def by blast+

lemma address_uri_chars:
  assumes "address_ok a"
  shows "list_all text_char (address_uri a)" "CHR ''>'' \<notin> set (address_uri a)"
    "CHR ''<'' \<notin> set (ad_display a)" "CHR ''>'' \<notin> set (ad_display a)"
  using no_angle [OF address_parts(6) [OF assms]] no_angle [OF address_parts(7) [OF assms]]
    text_weaken(1) address_parts(2,4) [OF assms] plain_not(5)
  by (simp_all add: address_uri_def text_char_def)

lemma address_text_uri: "address_text a = ad_display a @ CHR ''<'' # address_uri a @ ''>''"
  by (simp add: address_text_def address_uri_def)

lemma parse_address:
  assumes "address_ok a"
  shows "parse_uri (address_text a @ rest) = (ad_user a, ad_host a)"
proof -
  note c = address_uri_chars [OF assms]
  let ?v = "address_text a @ rest" and ?gt = "length (ad_display a) + 1 + length (address_uri a)"
  have v: "?v = ad_display a @ CHR ''<'' # address_uri a @ CHR ''>'' # rest" by (simp add: address_text_uri)
  have lt: "index_byte CHR ''<'' ?v = Some (length (ad_display a))" using c(3) unfolding v by (rule index_byte_app)
  have "index_byte CHR ''>'' ((ad_display a @ CHR ''<'' # address_uri a) @ CHR ''>'' # rest) =
      Some (length (ad_display a @ CHR ''<'' # address_uri a))"
    using c(2,4) by (intro index_byte_app) simp
  then have gt: "index_byte CHR ''>'' ?v = Some ?gt" by (simp add: v)
  have uri: "drop (length (ad_display a) + 1) (take ?gt ?v) = address_uri a" by (simp add: v)
  have strip: "strip_scheme (address_uri a) = ad_user a @ CHR ''@'' # ad_host a @ ad_tail a"
    unfolding address_uri_def strip_sip by simp
  note ok = address_parts [OF assms]
  have at: "index_byte CHR ''@'' (ad_user a @ CHR ''@'' # ad_host a @ ad_tail a) = Some (length (ad_user a))"
    by (rule index_byte_app) (rule plain_not(3) [OF ok(2)])
  show ?thesis
    unfolding parse_uri_def lt gt option.case uri
    by (simp add: strip at extract_user_plain [OF ok(1,2)] extract_host_plain [OF ok(3-5)] uri)
qed

section \<open>One header\<close>

lemma stop_not_plain: "tag_stop c \<Longrightarrow> \<not> plain_char c"
  unfolding tag_stop_def insert_iff empty_iff by (elim disjE) (simp_all add: plain_char_def visible_def)

lemma plain_not_stop: "list_all plain_char s \<Longrightarrow> list_all (\<lambda>c. \<not> tag_stop c) s"
  unfolding list_all_iff using stop_not_plain by blast

lemma tag_of_text:
  assumes a: "address_ok a" and t: "list_all plain_char tag"
  shows "extract_tag (address_text a @ '';tag='' @ tag @ ad_params a) = Some (Some tag)"
proof -
  note c = address_uri_chars [OF a] and p = address_parts(8,9) [OF a]
  have "ascii (tag @ ad_params a)"
    using text_ascii [OF text_weaken(1) [OF t]] text_ascii [OF p(2)] by simp
  moreover have "ad_params a = [] \<or> tag_stop (hd (ad_params a))" using p(1) by (auto simp: tag_stop_def)
  ultimately have "extract_tag (ad_display a @ ''<'' @ address_uri a @ ''>;tag='' @ tag @ ad_params a) = Some (Some tag)"
    by (intro extract_tag_of_address c plain_not_stop t)
  then show ?thesis by (simp add: address_text_uri)
qed

lemma no_tag_of_text:
  assumes a: "address_ok a"
  shows "extract_tag (address_text a) = Some None"
proof -
  note c = address_uri_chars [OF a]
  have v: "address_text a = ad_display a @ CHR ''<'' # address_uri a @ ''>''" by (simp add: address_text_uri)
  have lt: "index_byte CHR ''<'' (address_text a) = Some (length (ad_display a))"
    unfolding v using c(3) by (rule index_byte_app)
  have "index_byte CHR ''>'' ((CHR ''<'' # address_uri a) @ CHR ''>'' # []) = Some (length (CHR ''<'' # address_uri a))"
    by (rule index_byte_app) (use c(2) in simp)
  then have gt: "index_byte CHR ''>'' (drop (length (ad_display a)) (address_text a)) = Some (Suc (length (address_uri a)))"
    by (simp add: v)
  have rest: "drop (length (ad_display a) + Suc (length (address_uri a))) (address_text a) = ''>''" by (simp add: v)
  have "go_to_lower ''>'' = ''>''" by (simp add: go_to_lower_ascii ascii_def lower_char_def)
  then show ?thesis unfolding extract_tag_def lt gt option.case Let_def rest by (simp add: has_prefix_def)
qed

lemma fields_visible: "list_all visible w \<Longrightarrow> fields_loop cur (w @ s) = fields_loop (cur @ w) s"
proof (induction w arbitrary: cur)
  case (Cons x w)
  then have "space_prefix space_encodings (x # w @ s) = None" by (simp add: space_prefix_visible)
  with Cons show ?case by (subst fields_loop.simps) simp
qed simp

lemma cseq_fields:
  assumes "m \<noteq> []" and "list_all visible m"
  shows "extract_cseq (dec n @ '' '' @ m) = Some (dec n, m)"
proof -
  have "fields_loop [] (dec n @ CHR '' '' # m) = fields_loop (dec n) (CHR '' '' # m)"
    using fields_visible [OF dec_visible, of "[]" n] by simp
  also have "\<dots> = dec n # fields_loop [] m"
    by (subst fields_loop.simps) (simp add: space_prefix_blank)
  also have "fields_loop [] m = fields_loop m []" using fields_visible [OF assms(2), of "[]" "[]"] by simp
  also have "fields_loop m [] = [m]" using assms(1) by (subst fields_loop.simps) simp
  finally show ?thesis by (simp add: extract_cseq_def go_fields_def)
qed

lemma atoi_dec: "n < 2 ^ 63 \<Longrightarrow> atoi_or_zero (dec n) = int n"
  using go_atoi_dec [of n] by (simp add: atoi_or_zero_def)

lemma session_expires_dec: "n < 2 ^ 63 \<Longrightarrow> extract_session_expires (dec n) = int n"
proof -
  assume n: "n < 2 ^ 63"
  have "CHR '';'' \<notin> set (dec n)" using dec_digits [of n] by (auto simp: list_all_iff is_digit_def)
  then have "go_split (dec n) '';'' = [dec n]" using go_split_join [of "CHR '';''" "[dec n]"] by simp
  with n show ?thesis by (simp add: extract_session_expires_def trim_dec atoi_dec)
qed

text \<open>The name decides the branch of the switch.\<close>

lemma known_fold:
  assumes "header_ok (name, h)" and "n \<in> set known_names"
  shows "equal_fold (normalize_header_name name) n \<longleftrightarrow> header_name h = Some n"
proof -
  have "ascii name" using assms(1) text_ascii [of name] by (auto simp: header_ok_def list_all_iff visible_text)
  then have fold: "equal_fold (normalize_header_name name) n = same_name (normalize_header_name name) n"
    by (simp add: equal_fold_ascii normalize_ascii)
  show ?thesis
  proof (cases "header_name h")
    case None
    with assms normalize_names [OF assms(2)] show ?thesis by (auto simp: fold header_ok_def list_ex_iff)
  next
    case (Some k)
    then have "same_name (normalize_header_name name) k"
      using assms(1) normalize_names [OF header_name_known [OF Some]] by (simp add: header_ok_def)
    from same_name_unique [OF this] known_different [OF header_name_known [OF Some] assms(2)] Some show ?thesis
      by (simp add: fold)
  qed
qed

lemma known_folds:
  assumes "header_ok (name, h)"
  shows "equal_fold (normalize_header_name name) ''From'' \<longleftrightarrow> header_name h = Some ''From''"
    "equal_fold (normalize_header_name name) ''To'' \<longleftrightarrow> header_name h = Some ''To''"
    "equal_fold (normalize_header_name name) ''Call-ID'' \<longleftrightarrow> header_name h = Some ''Call-ID''"
    "equal_fold (normalize_header_name name) ''CSeq'' \<longleftrightarrow> header_name h = Some ''CSeq''"
    "equal_fold (normalize_header_name name) ''Session-Expires'' \<longleftrightarrow> header_name h = Some ''Session-Expires''"
    "equal_fold (normalize_header_name name) ''Expires'' \<longleftrightarrow> header_name h = Some ''Expires''"
    "equal_fold (normalize_header_name name) ''User-Agent'' \<longleftrightarrow> header_name h = Some ''User-Agent''"
    "equal_fold (normalize_header_name name) ''Content-Type'' \<longleftrightarrow> header_name h = Some ''Content-Type''"
  by (rule known_fold [OF assms], simp add: known_names_def)+

lemma printed_party:
  assumes ok: "header_ok (name, h)" and printed: "header_value h = address_text a @ rest"
    and tag: "extract_tag (header_value h) = Some tag" and a: "address_ok a"
  shows "header_name h = Some ''From'' \<Longrightarrow> tag = Some t \<Longrightarrow>
      parse_header_line (header_line (name, h)) p = Some (Inr (p\<lparr>pk_from := party_of a t\<rparr>))"
    and "header_name h = Some ''To'' \<Longrightarrow>
      parse_header_line (header_line (name, h)) p =
        Some (Inr (p\<lparr>pk_to := party_of a (case tag of None \<Rightarrow> [] | Some t \<Rightarrow> t)\<rparr>))"
  using tag parse_address [OF a, of rest]
  unfolding parse_header_line_def split_header_line [OF ok] prod.case Let_def known_folds [OF ok] printed
  by (simp_all add: party_of_def)

lemma parse_printed_header:
  assumes ok: "header_ok (name, h)"
  shows "parse_header_line (header_line (name, h)) p = Some (Inr (apply_header p h))"
proof -
  have fits: "value_fits h" using ok by (simp add: header_ok_def)
  note line = parse_header_line_def split_header_line [OF ok] prod.case Let_def known_folds [OF ok]
  show ?thesis
  proof (cases h)
    case (FromHeader a tag)
    with fits have a: "address_ok a" "list_all plain_char tag" by simp_all
    have v: "header_value h = address_text a @ '';tag='' @ tag @ ad_params a" by (simp add: FromHeader)
    from printed_party(1) [OF ok v tag_of_text [OF a, folded v] a(1)] show ?thesis by (simp add: FromHeader)
  next
    case (ToHeader a tag)
    show ?thesis
    proof (cases tag)
      case None
      with ToHeader fits have a: "address_ok a" by simp
      have v: "header_value h = address_text a @ []" by (simp add: ToHeader None)
      have "extract_tag (header_value h) = Some None" using no_tag_of_text [OF a] by (simp add: v)
      from printed_party(2) [OF ok v this a] show ?thesis by (simp add: ToHeader None)
    next
      case (Some t)
      with ToHeader fits have a: "address_ok a" "list_all plain_char t" by simp_all
      have v: "header_value h = address_text a @ '';tag='' @ t @ ad_params a" by (simp add: ToHeader Some)
      from printed_party(2) [OF ok v tag_of_text [OF a, folded v] a(1)] show ?thesis by (simp add: ToHeader Some)
    qed
  next
    case (CSeqHeader n m)
    with fits have "m \<noteq> []" "list_all visible m" by simp_all
    from cseq_fields [OF this, of n] show ?thesis unfolding line by (simp add: CSeqHeader)
  qed (use fits in \<open>unfold line, simp_all add: extract_expires_def trim_dec atoi_dec session_expires_dec\<close>)
qed

section \<open>Lines\<close>

lemma split_line:
  assumes "CHR 0x0D \<notin> set s"
  shows "go_split (s @ crlf @ rest) crlf = s # go_split rest crlf"
proof -
  have i: "index_sub crlf (s @ crlf @ rest) = Some (length s)"
    using assms by (induction s) (auto simp: has_prefix_def crlf_def)
  have n: "length (s @ crlf @ rest) = Suc (length rest) + (length s + 1)" by (simp add: crlf_def)
  have d: "take (length s) (s @ crlf @ rest) = s" "drop (length s + length crlf) (s @ crlf @ rest) = rest" by simp_all
  have "split_fuel (Suc (length rest) + (length s + 1)) crlf rest = go_split rest crlf"
    unfolding go_split_def by (rule split_fuel_enough) (simp_all add: crlf_def)
  then show ?thesis by (simp only: go_split_def [of "s @ crlf @ rest"] split_fuel.simps i option.case d n)
qed

lemma text_no_cr: "list_all text_char s \<Longrightarrow> CHR 0x0D \<notin> set s"
  by (auto simp: list_all_iff text_char_def)

lemma split_lines:
  "list_all (list_all text_char) ls \<Longrightarrow>
   go_split (concat (map (\<lambda>l. l @ crlf) ls) @ rest) crlf = ls @ go_split rest crlf"
  by (induction ls) (simp_all add: split_line text_no_cr)

text \<open>The first empty line ends the headers.\<close>

lemma body_position:
  "list_all (\<lambda>l. l \<noteq> [] \<and> list_all text_char l) ls \<Longrightarrow> ls \<noteq> [] \<Longrightarrow>
   \<exists>i. index_sub (crlf @ crlf) (concat (map (\<lambda>l. l @ crlf) ls) @ crlf @ rest) = Some i \<and>
     drop (i + 4) (concat (map (\<lambda>l. l @ crlf) ls) @ crlf @ rest) = rest"
proof (induction ls)
  case (Cons l ls)
  let ?rest = "concat (map (\<lambda>l. l @ crlf) ls) @ crlf @ rest"
  have cr: "CHR 0x0D \<notin> set l" using Cons.prems text_no_cr by simp
  have skip: "index_sub (crlf @ crlf) (xs @ ys) = map_option (\<lambda>i. length xs + i) (index_sub (crlf @ crlf) ys)"
    if "CHR 0x0D \<notin> set xs" for xs ys
    using that by (induction xs; cases "index_sub (crlf @ crlf) ys") (auto simp: has_prefix_def crlf_def option.map_comp o_def)
  show ?case
  proof (cases ls)
    case Nil
    have "index_sub (crlf @ crlf) (crlf @ crlf @ rest) = Some 0"
      by (rule index_sub_here) (simp add: has_prefix_def crlf_def)
    then show ?thesis using skip [OF cr, of "crlf @ crlf @ rest"] by (simp add: Nil) (simp add: crlf_def)
  next
    case (Cons l' ls')
    then obtain i where i: "index_sub (crlf @ crlf) ?rest = Some i" "drop (i + 4) ?rest = rest"
      using Cons.IH Cons.prems by auto
    obtain x xs where l': "l' = x # xs" "text_char x" using Cons.prems(1) \<open>ls = l' # ls'\<close> by (cases l') auto
    then have "x \<noteq> CHR 0x0D" by (auto simp: text_char_def)
    then have "index_sub (crlf @ crlf) (crlf @ ?rest) = Some (2 + i)"
      using i(1) by (simp add: \<open>ls = l' # ls'\<close> l'(1) crlf_def has_prefix_def)
    then have "index_sub (crlf @ crlf) (l @ crlf @ ?rest) = Some (length l + (2 + i))"
      unfolding skip [OF cr] by simp
    then have "index_sub (crlf @ crlf) ((l @ crlf) @ ?rest) = Some (length l + (2 + i))"
      unfolding append_assoc .
    moreover have n: "length l + (2 + i) + 4 = length (l @ crlf) + (i + 4)" by (simp add: crlf_def)
    have "drop (length l + (2 + i) + 4) ((l @ crlf) @ ?rest) = rest"
      unfolding n using i(2) by (simp only: drop_append length_append drop_all le_add1 diff_add_inverse append.left_neutral)
    moreover have "concat (map (\<lambda>l. l @ crlf) (l # ls)) @ crlf @ rest = (l @ crlf) @ ?rest" by simp
    ultimately show ?thesis by metis
  qed
qed simp

section \<open>Messages\<close>

lemma unfold_plain:
  "list_all (\<lambda>l. l = [] \<or> hd l \<notin> {CHR '' '', CHR 0x09}) ls \<Longrightarrow> unfold_loop acc ls = acc @ ls"
  by (induction ls arbitrary: acc) auto

lemma parse_headers_append:
  "parse_headers (ls @ ms) p =
     (case parse_headers ls p of None \<Rightarrow> None | Some (Inl e) \<Rightarrow> Some (Inl e) | Some (Inr q) \<Rightarrow> parse_headers ms q)"
  by (induction ls arbitrary: p) (auto split: option.split sum.split)

lemma parse_printed_headers:
  "list_all header_ok hs \<Longrightarrow>
   parse_headers (map header_line hs) p = Some (Inr (foldl apply_header p (map snd hs)))"
  by (induction hs arbitrary: p) (auto simp: parse_printed_header)

lemma inert_name:
  assumes "inert_line l" and "n \<in> set known_names"
  shows "\<not> equal_fold (normalize_header_name (fst (split_header l))) n"
proof (cases "CHR '':'' \<in> set l")
  case True
  let ?name = "takeWhile (\<lambda>c. c \<noteq> CHR '':'') l"
  have v: "list_all visible ?name" "\<not> names_header ?name n"
    using assms True by (auto simp: inert_line_def Let_def list_ex_iff)
  have "trim_space ?name = ?name"
    using trim_space_set [of ?name] list_all_ends [OF v(1)] trim_space_visible [of ?name] by (cases "?name = []") auto
  moreover have "index_byte CHR '':'' l = Some (length ?name)" "take (length ?name) l = ?name"
    using True by (induction l) auto
  ultimately have "fst (split_header l) = ?name" by (simp add: split_header_def)
  then show ?thesis
    using v normalize_names [OF assms(2)] equal_fold_ascii [OF normalize_ascii [OF visible_ascii [OF v(1)]]] by simp
next
  case False
  then have "fst (split_header l) = []" by (simp add: split_header_def index_byte_None [THEN iffD2])
  then show ?thesis using assms(2) by (auto simp: normalize_header_name_def known_names_def)
qed

lemma parse_inert:
  "list_all inert_line ls \<Longrightarrow> parse_headers ls p = Some (Inr p)"
proof (induction ls)
  case (Cons l ls)
  then have "\<not> equal_fold (normalize_header_name (fst (split_header l))) n" if "n \<in> set known_names" for n
    using inert_name that by simp
  then have "parse_header_line l p = Some (Inr p)"
    by (simp add: known_names_def parse_header_line_def case_prod_beta Let_def)
  with Cons show ?case by simp
qed simp

lemma printed_line:
  assumes "header_ok (name, h)"
  shows "list_all text_char (header_line (name, h))" "header_line (name, h) \<noteq> []"
    "hd (header_line (name, h)) \<notin> {CHR '' '', CHR 0x09}"
proof -
  have n: "name \<noteq> []" "list_all visible name" and v: "value_ok (header_value h)"
    using assms header_value_ok by (auto simp: header_ok_def list_all_iff)
  show "list_all text_char (header_line (name, h))" "header_line (name, h) \<noteq> []"
    using text_weaken(2) [OF n(2)] v n(1) by (simp_all add: header_line_def value_ok_def text_char_def)
  have "visible (hd (header_line (name, h)))" using list_all_ends [OF n(2,1)] n(1) by (simp add: header_line_def)
  then show "hd (header_line (name, h)) \<notin> {CHR '' '', CHR 0x09}" by (auto simp: visible_def)
qed

lemma parse_printed_start:
  assumes "start_ok s"
  shows "parse_start_line (start_text s) = Inr (start_packet s)" "list_all text_char (start_text s)"
    "start_text s \<noteq> []" "hd (start_text s) \<notin> {CHR '' '', CHR 0x09}"
proof -
  have "parse_start_line (start_text s) = Inr (start_packet s) \<and> list_all text_char (start_text s) \<and>
    start_text s \<noteq> [] \<and> hd (start_text s) \<notin> {CHR '' '', CHR 0x09}"
  proof (cases s)
    case (StatusLine status reason)
    then obtain a b c where "status = [a, b, c]" using assms by (auto simp: numeral_3_eq_3 length_Suc_conv)
    with assms StatusLine show ?thesis
      by (simp add: parse_start_line_def has_prefix_def trim_prefix_def text_char_def)
  next
    case (RequestLine name target)
    with assms have n: "name \<noteq> []" "list_all visible name" "\<not> has_prefix ''SIP/2.0'' name" "list_all visible target"
      by simp_all
    have blank: "CHR '' '' \<notin> set name" "CHR '' '' \<notin> set target" using n(2,4) by (auto simp: list_all_iff visible_def)
    have "\<not> has_prefix ''SIP/2.0'' (name @ CHR '' '' # target @ '' SIP/2.0'')"
    proof
      assume "has_prefix ''SIP/2.0'' (name @ CHR '' '' # target @ '' SIP/2.0'')"
      then have t: "take 7 name @ take (7 - length name) (CHR '' '' # target @ '' SIP/2.0'') = ''SIP/2.0''"
        by (simp add: has_prefix_def eval_nat_numeral)
      show False
      proof (cases "7 \<le> length name")
        case True
        with t n(3) show False by (simp add: has_prefix_def eval_nat_numeral)
      next
        case False
        then have "CHR '' '' \<in> set (take (7 - length name) (CHR '' '' # target @ '' SIP/2.0''))"
          by (cases "7 - length name") auto
        with t have "CHR '' '' \<in> set ''SIP/2.0''" by (metis Un_iff set_append)
        then show False by simp
      qed
    qed
    moreover have "index_sub '' '' (name @ CHR '' '' # target @ '' SIP/2.0'') = Some (length name)"
      "index_sub '' '' (target @ '' SIP/2.0'') = Some (length target)"
      using blank by (simp_all add: index_sub_byte index_byte_app)
    moreover have "trim_space name = name" "visible (hd name)"
      using list_all_ends [OF n(2,1)] n(1) by (simp_all add: trim_space_visible)
    ultimately show ?thesis
      using n text_weaken(2)
      by (auto simp: RequestLine parse_start_line_def go_split_n_def numeral_2_eq_2 text_char_def visible_def)
  qed
  then show "parse_start_line (start_text s) = Inr (start_packet s)" "list_all text_char (start_text s)"
    "start_text s \<noteq> []" "hd (start_text s) \<notin> {CHR '' '', CHR 0x09}" by blast+
qed

lemma call_id_set:
  "list_all value_fits hs \<Longrightarrow> pk_call_id p \<noteq> [] \<or> list_ex (\<lambda>h. header_name h = Some ''Call-ID'') hs \<Longrightarrow>
   pk_call_id (foldl apply_header p hs) \<noteq> []"
proof (induction hs arbitrary: p)
  case (Cons h hs)
  have "pk_call_id (apply_header p h) \<noteq> [] \<or> list_ex (\<lambda>h. header_name h = Some ''Call-ID'') hs"
    using Cons.prems by (cases h) (auto simp: value_ok_def)
  with Cons show ?case by simp
qed simp

lemma inert_empty: "inert_line []"
  by (simp add: inert_line_def)

lemma printed_lines:
  assumes s: "start_ok s" and hs: "list_all header_ok hs" and body: "body_ok body"
  shows "unfold_headers (go_split (message_text s hs body) crlf) =
      start_text s # map header_line hs @ [] # go_split body crlf"
    and "\<exists>i. index_sub (crlf @ crlf) (message_text s hs body) = Some i \<and> drop (i + 4) (message_text s hs body) = body"
proof -
  let ?ls = "start_text s # map header_line hs"
  have m: "message_text s hs body = concat (map (\<lambda>l. l @ crlf) ?ls) @ crlf @ body"
    by (simp add: message_text_def o_def)
  have lns: "list_all (\<lambda>l. l \<noteq> [] \<and> list_all text_char l) ?ls" "list_all (\<lambda>l. l = [] \<or> hd l \<notin> {CHR '' '', CHR 0x09}) ?ls"
    using parse_printed_start [OF s] printed_line hs by (auto simp: list_all_iff)
  have body': "list_all (\<lambda>l. l = [] \<or> hd l \<notin> {CHR '' '', CHR 0x09}) (go_split body crlf)"
    using body by (auto simp: body_ok_def inert_line_def list_all_iff)
  have "list_all (list_all text_char) ?ls" using lns(1) by (auto simp: list_all_iff)
  from split_lines [OF this, of "crlf @ body"] have "go_split (message_text s hs body) crlf = ?ls @ [] # go_split body crlf"
    using split_line [of "[]" body] by (simp add: m)
  then show "unfold_headers (go_split (message_text s hs body) crlf) =
      start_text s # map header_line hs @ [] # go_split body crlf"
    using lns(2) body' by (simp add: unfold_headers_def unfold_plain)
  show "\<exists>i. index_sub (crlf @ crlf) (message_text s hs body) = Some i \<and> drop (i + 4) (message_text s hs body) = body"
    unfolding m by (rule body_position [OF lns(1)]) simp
qed

lemma parse_printed:
  assumes s: "start_ok s" and hs: "list_all header_ok hs" and body: "body_ok body"
    and call: "list_ex (\<lambda>(name, h). header_name h = Some ''Call-ID'') hs"
  shows "sip_packet_parse (message_text s hs body) =
    Some (Inr ((foldl apply_header (start_packet s) (map snd hs))\<lparr>pk_body := body\<rparr>))"
proof -
  let ?p = "foldl apply_header (start_packet s) (map snd hs)"
  obtain i where i: "index_sub (crlf @ crlf) (message_text s hs body) = Some i" "drop (i + 4) (message_text s hs body) = body"
    using printed_lines(2) [OF s hs body] by blast
  have "list_all inert_line ([] # go_split body crlf)" using body inert_empty by (simp add: body_ok_def)
  then have heads: "parse_headers (map header_line hs @ [] # go_split body crlf) (start_packet s) = Some (Inr ?p)"
    unfolding parse_headers_append parse_printed_headers [OF hs] by (simp only: parse_inert option.case sum.case)
  have "value_fits (snd h)" if "header_ok h" for h using that by (cases h) (simp add: header_ok_def)
  then have "list_all value_fits (map snd hs)" using hs by (auto simp: list_all_iff)
  moreover have "list_ex (\<lambda>h. header_name h = Some ''Call-ID'') (map snd hs)"
    using call by (simp add: list_ex_iff case_prod_beta)
  ultimately have "pk_call_id ?p \<noteq> []" by (intro call_id_set disjI2)
  then show ?thesis
    unfolding sip_packet_parse_def printed_lines(1) [OF s hs body] list.case parse_printed_start(1) [OF s]
      sum.case heads option.case i
    by (simp add: i)
qed

text \<open>
  C4: the SIP parser reads back every well-formed message as it was printed: the headers may come in any order,
  under their full or compact names in any case, with headers the exporter does not know between them; From and To
  may carry display names, ports, URI and header parameters; and the body is returned byte for byte, if no line of
  it looks like a known header.
\<close>

theorem sip_message_roundtrip:
  assumes "start_ok s" and "list_all header_ok hs" and "body_ok body"
    and "list_ex (\<lambda>(name, h). header_name h = Some ''Call-ID'') hs"
  shows "sip_packet_parse (message_text s hs body) =
    Some (Inr ((foldl apply_header (start_packet s) (map snd hs))\<lparr>pk_body := body\<rparr>))"
  by (rule parse_printed [OF assms])

definition bob :: address where
  "bob = \<lparr>ad_display = ''Bob Smith '', ad_user = ''bob'', ad_host = ''h'', ad_tail = '':5060;transport=udp'', ad_params = '';x=1''\<rparr>"

definition sample_headers :: "(string \<times> sip_header) list" where
  "sample_headers = [(''CSEQ'', CSeqHeader 7 ''INVITE''), (''f'', FromHeader bob ''t1''), (''Via'', OtherHeader ''SIP/2.0/UDP h''),
     (''To'', ToHeader bob None), (''call-id'', CallIdHeader ''c1@h'')]"

lemma sample_headers_ok:
  "address_ok bob" "header_ok (''CSEQ'', CSeqHeader 7 ''INVITE'')" "header_ok (''f'', FromHeader bob ''t1'')"
  "header_ok (''Via'', OtherHeader ''SIP/2.0/UDP h'')" "header_ok (''To'', ToHeader bob None)"
  "header_ok (''call-id'', CallIdHeader ''c1@h'')"
proof -
  show bob: "address_ok bob"
    by (simp add: bob_def address_ok_def text_char_def visible_def plain_char_def)
  show "header_ok (''CSEQ'', CSeqHeader 7 ''INVITE'')"
    by (simp add: header_ok_def visible_def names_header_def same_name_def lower_char_def char_of_eq_iff)
  show "header_ok (''f'', FromHeader bob ''t1'')"
    by (simp add: header_ok_def bob visible_def plain_char_def names_header_def compact_form_def same_name_def)
  show "header_ok (''Via'', OtherHeader ''SIP/2.0/UDP h'')"
    by (simp add: header_ok_def value_ok_def text_char_def visible_def names_header_def compact_form_def same_name_def
      known_names_def)
  show "header_ok (''To'', ToHeader bob None)"
    by (simp add: header_ok_def bob visible_def names_header_def same_name_def)
  show "header_ok (''call-id'', CallIdHeader ''c1@h'')"
    by (simp add: header_ok_def value_ok_def text_char_def visible_def names_header_def same_name_def
      lower_char_def char_of_eq_iff char_eq_iff)
qed

lemma sample_body_ok: "body_ok ''v=0''"
  by (simp add: body_ok_def go_split_def crlf_def has_prefix_def inert_line_def)

theorem sip_message_roundtrip_witness:
  "sip_packet_parse (message_text (RequestLine ''INVITE'' ''sip:a@h'') sample_headers ''v=0'') =
     Some (Inr ((foldl apply_header (start_packet (RequestLine ''INVITE'' ''sip:a@h'')) (map snd sample_headers))\<lparr>pk_body := ''v=0''\<rparr>))"
proof (rule sip_message_roundtrip)
  show "start_ok (RequestLine ''INVITE'' ''sip:a@h'')" by (simp add: visible_def has_prefix_def)
  show "list_all header_ok sample_headers" unfolding sample_headers_def by (simp add: sample_headers_ok)
  show "body_ok ''v=0''" by (rule sample_body_ok)
  show "list_ex (\<lambda>(name, h). header_name h = Some ''Call-ID'') sample_headers" by (simp add: sample_headers_def)
qed

end
