(* ===== verification/Gauge_Properties.thy ===== *)
theory Gauge_Properties
  imports Exporter_Properties Metric_Snapshots Sip_Print
begin

text \<open>
  The exporter and its metrics together: what the gauges of sessions and registrations show after a
  periodic update, for every run of the exporter from its start.
\<close>

section \<open>The last snapshot\<close>

lemma expected_value_last:
  "expected_value names vals r (cs @ [counts]) =
    (case snapshot_count names vals counts of
       Some n \<Rightarrow> Some (real n)
     | None \<Rightarrow> map_option (\<lambda>_. 0) (expected_value names vals r cs))"
  by (induction cs arbitrary: r) (simp_all split: option.split)

text \<open>What a scrape reads of a series: one that does not exist yet counts as zero.\<close>

definition reading :: "real option \<Rightarrow> real" where
  "reading r = (case r of None \<Rightarrow> 0 | Some x \<Rightarrow> x)"

text \<open>A count per label set, as \<open>Counts\<close> and \<open>registrationCounts\<close> give it.\<close>

definition counts_by :: "('a \<Rightarrow> string \<times> string \<times> string \<times> string) \<Rightarrow> 'a list \<Rightarrow> labeled_count list" where
  "counts_by key xs = map (\<lambda>(k, n). \<lparr>lc_labels = dialog_labels k, lc_count = n\<rparr>) (mtally (map key xs))"

lemma counts_of_dialogs: "dialog_counts c = counts_by (\<lambda>(did, e). dialog_label_key e) c"
  by (simp add: dialog_counts_def counts_by_def)

lemma counts_of_registrations: "registration_counts t = counts_by (\<lambda>(aor, e). registration_key e) (ct_register_expiry t)"
  by (simp add: registration_counts_def counts_by_def)

fun key_row :: "string \<times> string \<times> string \<times> string \<Rightarrow> string list" where
  "key_row (a, b, c, d) = [a, b, c, d]"

lemma key_row_inj [simp]: "key_row k = key_row k' \<longleftrightarrow> k = k'"
  by (cases k; cases k') auto

declare key_row.simps [simp del]

lemma snapshot_rows_by:
  "snapshot_rows call_label_names (counts_by key xs) = map (\<lambda>(k, n). (key_row k, n)) (mtally (map key xs))"
  by (auto simp: snapshot_rows_def counts_by_def dialog_labels_def call_label_names_def mget_or_def key_row.simps)

lemma map_of_rev: "distinct (map fst m) \<Longrightarrow> map_of (rev m) k = map_of m k"
proof (induction m)
  case (Cons x m)
  moreover from Cons.prems have "map_of m (fst x) = None" by (simp add: map_of_eq_None_iff)
  ultimately show ?case by (cases x) (auto simp: map_add_def split: option.split)
qed simp

lemma snapshot_count_by:
  "reading (map_option real (snapshot_count call_label_names (key_row k) (counts_by key xs))) = real (count_list (map key xs) k)"
proof -
  let ?t = "mtally (map key xs)" and ?rows = "\<lambda>m. map (\<lambda>(k, n :: nat). (key_row k, n)) m"
  have row: "map_of (?rows m) (key_row k) = map_of m k" for m
    by (induction m) auto
  have fst: "map fst (?rows m) = map key_row (map fst m)" for m
    by (induction m) auto
  have "distinct (map fst (?rows ?t))"
    using mtally_wf [of "map key xs"] unfolding fst by (simp add: distinct_map inj_on_def)
  then have "snapshot_count call_label_names (key_row k) (counts_by key xs) = mget ?t k"
    by (simp add: snapshot_count_def snapshot_rows_by map_of_rev row)
  then show ?thesis
    using mget_mtally [of "map key xs" k] by (simp add: reading_def mget_or_def split: option.splits)
qed

section \<open>The events of an update\<close>

lemma emit_events: "ex_events (emit evs e) = ex_events e @ evs"
  by (simp add: emit_def)

abbreviation snapshots :: "gauge_kind \<Rightarrow> metric_event list \<Rightarrow> labeled_count list list" where
  "snapshots k \<equiv> List.map_filter (snapshot_of k)"

lemma snapshots_append [simp]: "snapshots k (xs @ ys) = snapshots k xs @ snapshots k ys"
  by (simp add: List.map_filter_def)

lemma snapshots_quiet: "list_all (\<lambda>ev. snapshot_of k ev = None) evs \<Longrightarrow> snapshots k evs = []"
  by (induction evs) (simp_all add: map_filter_simps)

text \<open>The sizes of the trackers and the statistics of the streams do not touch the two gauges.\<close>

lemma quiet_snapshots:
  assumes "k \<noteq> RTPActiveStreams"
  shows "snapshots k (ex_events (update_tracker_sizes e)) = snapshots k (ex_events e)"
    and "snapshots k (ex_events (update_rtp_metrics e)) = snapshots k (ex_events e)"
proof -
  show "snapshots k (ex_events (update_tracker_sizes e)) = snapshots k (ex_events e)"
    by (simp add: update_tracker_sizes_def emit_events snapshots_quiet)
  have "snapshots k (concat (map stats_events ss)) = []" for ss
    by (rule snapshots_quiet) (auto simp: stats_events_def Let_def list_all_iff)
  then show "snapshots k (ex_events (update_rtp_metrics e)) = snapshots k (ex_events e)"
    using assms by (auto simp: update_rtp_metrics_def emit_events Let_def case_prod_beta snapshots_quiet)
qed

text \<open>The last step of an update that changes a store, before its events.\<close>

lemma rtp_metrics_stores:
  "ex_dialogs (update_rtp_metrics (update_tracker_sizes e)) = ex_dialogs e"
  "ex_calls (update_rtp_metrics (update_tracker_sizes e)) = ex_calls e"
  by (simp_all add: update_rtp_metrics_def update_tracker_sizes_def emit_def Let_def case_prod_beta)

section \<open>What is left in the stores\<close>

lemma release_aliases_calls: "ex_calls (snd (release_rtp_aliases c eps e)) = ex_calls e"
  by (induction c eps e rule: release_rtp_aliases.induct)
    (auto simp: release_rtp_aliases.simps Let_def case_prod_beta split: option.split)

lemma unregister_calls: "ex_calls (snd (unregister_media cfg c b e)) = ex_calls e"
  by (simp add: unregister_media_def Let_def case_prod_beta emit_alias_released_def emit_def release_aliases_calls
    release_all_def on_filter_def)

lemma expire_dialogs_calls:
  "ct_register_expiry (ex_calls (snd (expire_dialogs cfg now rs e))) = ct_register_expiry (ex_calls e)"
proof (induction rs arbitrary: e)
  case (Cons r rs)
  show ?case
    by (simp add: Let_def case_prod_beta Cons.IH unregister_calls on_fas_def on_calls_def close_invite_transactions_def)
qed simp

lemma sweep_stores: "ex_dialogs (sweep_fas now e) = ex_dialogs e" "ex_calls (sweep_fas now e) = ex_calls e"
  by (simp_all add: sweep_fas_def emit_def case_prod_beta split: option.split)

lemma tick_stores:
  "ex_dialogs (dialog_metrics_tick cfg now e) = mdrop (\<lambda>did d. de_expires_at d < now) (ex_dialogs e)"
  "ct_register_expiry (ex_calls (dialog_metrics_tick cfg now e)) =
     mdrop (\<lambda>aor d. rx_expiry d < now) (ct_register_expiry (ex_calls e))"
proof -
  let ?e1 = "snd (cleanup_expired_dialogs cfg now e)"
  have "ex_dialogs ?e1 = snd (dialog_cleanup now (ex_dialogs e))"
    using expire_dialogs_session(1) [of cfg now "fst (dialog_cleanup now (ex_dialogs e))"
        "e\<lparr>ex_dialogs := snd (dialog_cleanup now (ex_dialogs e))\<rparr>"]
    by (simp add: cleanup_expired_dialogs_def case_prod_beta session_view_def)
  then show "ex_dialogs (dialog_metrics_tick cfg now e) = mdrop (\<lambda>did d. de_expires_at d < now) (ex_dialogs e)"
    unfolding dialog_metrics_tick_def Let_def case_prod_beta
    by (simp add: emit_def rtp_metrics_stores sweep_stores on_filter_def on_calls_def dialog_cleanup_def cleanup_walk_store)
  have "ct_register_expiry (ex_calls ?e1) = ct_register_expiry (ex_calls e)"
    by (simp add: cleanup_expired_dialogs_def case_prod_beta expire_dialogs_calls)
  then show "ct_register_expiry (ex_calls (dialog_metrics_tick cfg now e)) =
     mdrop (\<lambda>aor d. rx_expiry d < now) (ct_register_expiry (ex_calls e))"
    unfolding dialog_metrics_tick_def Let_def case_prod_beta
    by (simp add: emit_def rtp_metrics_stores sweep_stores on_filter_def on_calls_def cleanup_calls_def
      cleanup_bye_tracker_def cleanup_options_tracker_def cleanup_invite_transactions_def cleanup_invite_sdp_def
      cleanup_invite_tracker_def cleanup_expired_registrations_def cleanup_register_tracker_def)
qed

text \<open>An update adds one snapshot of each store to what was there.\<close>

lemma release_aliases_events: "ex_events (snd (release_rtp_aliases c eps e)) = ex_events e"
  by (induction c eps e rule: release_rtp_aliases.induct)
    (auto simp: release_rtp_aliases.simps Let_def case_prod_beta split: option.split)

lemma expire_dialogs_events: "ex_events (snd (expire_dialogs cfg now rs e)) = ex_events e"
proof (induction rs arbitrary: e)
  case (Cons r rs)
  show ?case
    by (simp add: Let_def case_prod_beta Cons.IH unregister_media_def release_aliases_events release_all_def
      on_filter_def on_fas_def on_calls_def)
qed simp

lemma expired_quiet: "snapshots k (concat (map expired_events rs)) = []"
  by (rule snapshots_quiet)
    (auto simp: expired_events_def rtp_dialog_events_def Let_def list_all_iff split: if_splits)

lemma sweep_quiet: "snapshots k (ex_events (sweep_fas now e)) = snapshots k (ex_events e)"
proof -
  have "snapshots k (map fas_report_event rs) = []" for rs
    by (rule snapshots_quiet) (auto simp: fas_report_event_def list_all_iff)
  then show ?thesis by (simp add: sweep_fas_def emit_events case_prod_beta split: option.split)
qed

lemma tick_snapshots:
  "snapshots Sessions (ex_events (dialog_metrics_tick cfg now e)) =
     snapshots Sessions (ex_events e) @ [dialog_counts (ex_dialogs (dialog_metrics_tick cfg now e))]"
  "snapshots ActiveRegistrations (ex_events (dialog_metrics_tick cfg now e)) =
     snapshots ActiveRegistrations (ex_events e) @ [registration_counts (ex_calls (dialog_metrics_tick cfg now e))]"
proof -
  have "ex_events (snd (cleanup_expired_dialogs cfg now e)) = ex_events e"
    by (simp add: cleanup_expired_dialogs_def case_prod_beta expire_dialogs_events)
  then have "snapshots k (ex_events (sweep_fas now (on_filter f
      (on_calls g (snd (cleanup_expired_dialogs cfg now e)\<lparr>ex_scan := s, ex_burst := b\<rparr>)\<lparr>ex_media := m\<rparr>)))) =
      snapshots k (ex_events e)" for k f g s b m
    by (simp add: sweep_quiet on_filter_def on_calls_def)
  then show "snapshots Sessions (ex_events (dialog_metrics_tick cfg now e)) =
     snapshots Sessions (ex_events e) @ [dialog_counts (ex_dialogs (dialog_metrics_tick cfg now e))]"
    "snapshots ActiveRegistrations (ex_events (dialog_metrics_tick cfg now e)) =
     snapshots ActiveRegistrations (ex_events e) @ [registration_counts (ex_calls (dialog_metrics_tick cfg now e))]"
    unfolding dialog_metrics_tick_def Let_def case_prod_beta emit_events snapshots_append
    by (simp_all add: quiet_snapshots rtp_metrics_stores emit_events map_filter_simps expired_quiet)
      (simp_all add: emit_def rtp_metrics_stores)
qed

section \<open>The gauges after an update\<close>

text \<open>A snapshot of calls whose labels have no NUL byte.\<close>

definition plain_counts :: "labeled_count list \<Rightarrow> bool" where
  "plain_counts counts \<longleftrightarrow> list_all (\<lambda>(v, n). list_all nul_free v) (snapshot_rows call_label_names counts)"

lemma plain_fine:
  assumes "list_all plain_counts (snapshots k evs)" and "direct_writes evs = 0" and "gauge_names k = call_label_names"
  shows "list_all (event_fine k) evs"
  using assms(1,2)
proof (induction evs)
  case (Cons ev evs)
  have "event_fine k ev"
  proof (cases "snapshot_of k ev")
    case None
    have "\<not> is_session_write ev" using Cons.prems(2) by (simp split: if_splits)
    then show ?thesis
      using None by (auto simp: event_fine_def split: metric_event.split session_event.split)
  next
    case (Some counts)
    with Cons.prems(1) have "plain_counts counts" by (simp add: map_filter_simps)
    with Some assms(3) show ?thesis by (simp add: event_fine_def plain_counts_def)
  qed
  with Cons show ?case by (simp add: map_filter_simps split: option.splits if_splits)
qed simp

lemma gauge_reads_count:
  assumes evs: "list_all (event_fine k) evs" and names: "gauge_names k = call_label_names"
    and last: "snapshots k evs = cs @ [counts_by key xs]" and plain: "list_all nul_free (key_row l)"
  shows "reading (shown (gauge_family k) (key_row l) None (fst (metric_run evs new_metrics))) =
    real (count_list (map key xs) l)"
proof -
  have row: "row_ok (length (gauge_names k)) (key_row l)"
    using plain by (cases l) (simp add: row_ok_def names call_label_names_def key_row.simps)
  have "keyed (length (gauge_names k)) {} (prev_rows k new_metrics)"
    by (cases k) (simp_all add: keyed_def new_metrics_def)
  from run_shows [OF evs this _ row] have "shown (gauge_family k) (key_row l) None (fst (metric_run evs new_metrics)) =
      expected_value call_label_names (key_row l) None (cs @ [counts_by key xs])"
    by (simp add: shows_rows_def names last)
  then show ?thesis
    using snapshot_count_by [of l key xs] unfolding expected_value_last
    by (cases "snapshot_count call_label_names (key_row l) (counts_by key xs)";
        cases "expected_value call_label_names (key_row l) None cs") (simp_all add: reading_def)
qed

text \<open>
  C3: what the gauges show is what the stores hold.  Whatever packets and updates came before, after a periodic
  update the sessions gauge shows for each label set the number of dialogs in the store with these labels, the
  gauge of active registrations the number of registrations with them, and neither store holds an entry whose
  time is up.
\<close>

theorem gauges_show_stores:
  assumes "reachable cfg (new_exporter maps sl sw bl bw fl) e"
    and "list_all plain_counts (snapshots Sessions (ex_events (dialog_metrics_tick cfg now e)) @
      snapshots ActiveRegistrations (ex_events (dialog_metrics_tick cfg now e)))"
    and "list_all nul_free [carrier, ua, country, direction]"
  shows "let e' = dialog_metrics_tick cfg now e; ops = fst (metric_run (ex_events e') new_metrics);
      labels = (carrier, ua, country, direction); vals = [carrier, ua, country, direction];
      dialogs = map snd (ex_dialogs e'); registrations = map snd (ct_register_expiry (ex_calls e'))
    in reading (shown (InSession FSessions) vals None ops) = real (count_list (map dialog_label_key dialogs) labels) \<and>
       reading (shown (InRegistration FActiveRegistrations) vals None ops) =
         real (count_list (map registration_key registrations) labels) \<and>
       list_all (\<lambda>d. now \<le> de_expires_at d) dialogs \<and> list_all (\<lambda>r. now \<le> rx_expiry r) registrations"
proof -
  let ?e = "dialog_metrics_tick cfg now e" and ?l = "(carrier, ua, country, direction)"
  have "session_ok (session_view (new_exporter maps sl sw bl bw fl))"
    by (simp add: session_ok_def session_view_def new_exporter_def new_dialoger_def dialog_size_def)
  then have "session_ok (session_view ?e)"
    by (rule reachable_session [OF reachable.step [OF assms(1) exporter_step.tick]])
  then have fine: "list_all (event_fine Sessions) (ex_events ?e)" "list_all (event_fine ActiveRegistrations) (ex_events ?e)"
    using assms(2) plain_fine names_of_gauge by (simp_all add: session_ok_def session_view_def)
  have plain: "list_all nul_free (key_row ?l)" using assms(3) by (simp add: key_row.simps)
  have snd: "map (\<lambda>(i, d). f d) m = map (f \<circ> snd) m" for f m by auto
  note gauge_reads_count [OF fine(1) names_of_gauge(1) tick_snapshots(1) [unfolded counts_of_dialogs] plain]
    gauge_reads_count [OF fine(2) names_of_gauge(2) tick_snapshots(2) [unfolded counts_of_registrations] plain]
  moreover have "list_all (\<lambda>d. now \<le> de_expires_at d) (map snd (ex_dialogs ?e))"
    "list_all (\<lambda>r. now \<le> rx_expiry r) (map snd (ct_register_expiry (ex_calls ?e)))"
    by (auto simp: tick_stores mdrop_def list_all_iff)
  ultimately show ?thesis by (simp add: Let_def key_row.simps snd)
qed

section \<open>An answered call\<close>

text \<open>The 200 of an INVITE, in a frame from the capture.\<close>

definition answer_headers :: "(string \<times> sip_header) list" where
  "answer_headers = [(''From'', FromHeader bob ''1''), (''To'', ToHeader bob (Some ''2'')),
     (''Call-ID'', CallIdHeader ''c1''), (''CSeq'', CSeqHeader 1 ''INVITE'')]"

definition answer_text :: string where
  "answer_text = message_text (StatusLine ''200'' ''OK'') answer_headers []"

definition answer_datagram :: datagram where
  "answer_datagram = sample_datagram\<lparr>dg_payload := map (\<lambda>c. of_nat (of_char c)) answer_text\<rparr>"

definition answer_packet :: sip_packet where
  "answer_packet = zero_packet\<lparr>pk_is_response := True, pk_response_status := ''200'', pk_from := party_of bob ''1'',
     pk_to := party_of bob ''2'', pk_call_id := ''c1'', pk_cseq_id := ''1'', pk_cseq_method := ''INVITE''\<rparr>"

lemma answer_headers_ok: "list_all header_ok answer_headers"
proof -
  have "header_ok (''From'', FromHeader bob ''1'')" "header_ok (''To'', ToHeader bob (Some ''2''))"
    by (simp_all add: header_ok_def sample_headers_ok(1) visible_def plain_char_def names_header_def same_name_def)
  moreover have "header_ok (''Call-ID'', CallIdHeader ''c1'')" "header_ok (''CSeq'', CSeqHeader 1 ''INVITE'')"
    by (simp_all add: header_ok_def value_ok_def visible_def text_char_def names_header_def same_name_def)
  ultimately show ?thesis by (simp add: answer_headers_def)
qed

lemma empty_body_ok: "body_ok []"
  using inert_empty by (simp add: body_ok_def go_split_def crlf_def)

lemma answer_parsed: "sip_packet_parse answer_text = Some (Inr answer_packet)"
proof -
  have "sip_packet_parse answer_text =
      Some (Inr ((foldl apply_header (start_packet (StatusLine ''200'' ''OK'')) (map snd answer_headers))\<lparr>pk_body := []\<rparr>))"
    unfolding answer_text_def
    by (rule parse_printed [OF _ answer_headers_ok empty_body_ok])
      (simp_all add: answer_headers_def text_char_def)
  then show ?thesis
    by (simp add: answer_headers_def answer_packet_def zero_packet_def dec_small digit_char_def char_of_eq_iff)
qed

lemma text_bytes: "bytes_text (map (\<lambda>c. of_nat (of_char c)) s) = s"
proof -
  have "unat (of_nat (of_char c) :: u8) = of_char c" for c :: char
    by (simp add: unat_of_nat of_char_mod_256)
  then show ?thesis by (simp add: bytes_text_def o_def)
qed

lemma answer_frame: "parse_frame (encode_frame sample_rest answer_datagram) = Some (Inr answer_datagram)"
  by (rule parse_encoded_frame)
    (simp_all add: sample_rest_def answer_datagram_def frame_rest_wf_def answer_text_def message_text_def)

text \<open>What the call leaves: its dialog, for the default of half an hour.\<close>

definition answered_dialog :: dialog_entry where
  "answered_dialog = \<lparr>de_expires_at = 1800000000007, de_created_at = 7, de_carrier = ''other'', de_ua_type = ''other'',
     de_source_country = ''unknown'', de_destination_country = ''DE'', de_direction = ''outbound'', de_call_id = ''c1''\<rparr>"

lemma answer_handled:
  "ex_dialogs (handle_response sample_config (sample_context\<lparr>px_src_ip := src\<rparr>) default_carrier
     (ua_classify None []) default_country (direction_from_pkttype 0 True) (answer_packet\<lparr>pk_source_ip := src\<rparr>) sample_start) =
   [(''c1:1:2'', answered_dialog)]"
  by code_simp

lemma answer_start:
  "\<not> is_rtp_version (dg_payload answer_datagram)" "\<not> length (dg_payload answer_datagram) < min_sip_data_len"
  "is_sip_method answer_text"
  by (simp_all add: answer_datagram_def answer_text_def message_text_def is_rtp_version_def min_sip_data_len_def
    is_sip_method_def sip_methods_def has_method_prefix_def has_prefix_def answer_headers_def header_line_def
    address_text_def bob_def crlf_def)

definition after_answer :: "(rtp_endpoint_key list \<times> nat) exporter" where
  "after_answer = handle_response sample_config (sample_context\<lparr>px_src_ip := ipv4_string (10, 0, 0, 1)\<rparr>) default_carrier
     (ua_classify None []) default_country (direction_from_pkttype 0 True)
     (answer_packet\<lparr>pk_source_ip := ipv4_string (10, 0, 0, 1)\<rparr>) sample_start"

lemma answer_processed:
  "process_frame sample_config sample_context (encode_frame sample_rest answer_datagram) sample_start = Some after_answer"
proof -
  have sources: "resolve_carrier sample_config a b = (default_carrier, [])"
    "resolve_source_country sample_config [] a = default_country" "resolve_ua sample_config s = ua_classify None s" for a b s
    by (simp_all add: resolve_carrier_def resolve_source_country_def resolve_ua_def sample_config_def)
  have d: "bytes_text (dg_payload answer_datagram) = answer_text" "dg_src_ip answer_datagram = (10, 0, 0, 1)"
    by (simp_all add: answer_datagram_def text_bytes sample_datagram_def)
  have "handle_message sample_config (sample_context\<lparr>px_src_ip := ipv4_string (10, 0, 0, 1)\<rparr>) default_carrier
      default_country answer_text sample_start = Some (Inr after_answer)"
    by (simp add: handle_message_def answer_parsed sources after_answer_def Let_def)
      (simp add: answer_packet_def zero_packet_def sample_context_def)
  then have "parse_raw_packet sample_config sample_context (encode_frame sample_rest answer_datagram) sample_start =
      Some (None, after_answer)"
    unfolding parse_raw_packet_def answer_frame by (simp add: answer_start sources d)
  then show ?thesis by (simp add: process_frame_def)
qed

lemma answer_reachable: "reachable sample_config sample_start after_answer"
  by (rule reachable.step [OF reachable.init exporter_step.packet [OF answer_processed]])

lemma after_answer_dialogs: "ex_dialogs after_answer = [(''c1:1:2'', answered_dialog)]"
  unfolding after_answer_def by (rule answer_handled)

lemma after_answer_plain:
  "list_all plain_counts (snapshots Sessions (ex_events (dialog_metrics_tick sample_config 9 after_answer)) @
      snapshots ActiveRegistrations (ex_events (dialog_metrics_tick sample_config 9 after_answer)))"
proof -
  have "snapshots Sessions (ex_events after_answer) = []" "snapshots ActiveRegistrations (ex_events after_answer) = []"
    "ct_register_expiry (ex_calls after_answer) = []"
    by code_simp+
  then show ?thesis
    by (simp add: tick_snapshots tick_stores after_answer_dialogs mdrop_def answered_dialog_def dialog_counts_def
      registration_counts_def dialog_label_key_def mtally_def plain_counts_def snapshot_rows_def call_label_names_def
      dialog_labels_def mget_or_def nul_free_def)
qed

theorem gauges_show_stores_witness:
  "reading (shown (InSession FSessions) [''other'', ''other'', ''unknown'', ''outbound''] None
     (fst (metric_run (ex_events (dialog_metrics_tick sample_config 9 after_answer)) new_metrics))) = 1"
proof -
  have "list_all nul_free [''other'', ''other'', ''unknown'', ''outbound'']" by (simp add: nul_free_def)
  from gauges_show_stores [OF answer_reachable [unfolded sample_start_def] after_answer_plain this]
  show ?thesis
    by (simp add: Let_def tick_stores after_answer_dialogs mdrop_def answered_dialog_def dialog_label_key_def)
qed

end
