(* ===== verification/E164_Generator.thy ===== *)
theory E164_Generator
  imports E164_Table "HOL-Library.List_Lexorder" "HOL-Library.Char_ord"
begin

text \<open>
  The generator of the E.164 table (\<open>internal/geoip/gen_e164.go\<close>): the expansion of a \<open>leadingDigits\<close> pattern
  into the digit strings it stands for, and the table built from the territories.  The XML reader and the printing of
  the Go file are left out.  The recursive descent takes a number of calls it may make, and
  \<open>expand_pattern\<close> gives it enough for any token list.
\<close>

section \<open>Tokens\<close>

datatype token = TokDigit char | TokClass string | TokPipe | TokLParen | TokRParen

text \<open>
  \<open>parseClass\<close>: the members of a class and the number of bytes it takes, with the closing bracket.
  \<open>None\<close> is a range up to the byte 255, which the loop over bytes never leaves.
\<close>

function class_loop :: "string \<Rightarrow> nat \<Rightarrow> string \<Rightarrow> (string \<times> nat) option" where
  "class_loop s i cs =
     (if i < length s \<and> s ! i \<noteq> CHR '']'' then
        if i + 2 < length s \<and> s ! (i + 1) = CHR ''-''
        then
          if (of_char (s ! (i + 2)) :: nat) = 255 then None
          else class_loop s (i + 3) (cs @ map char_of [of_char (s ! i) ..< Suc (of_char (s ! (i + 2)) :: nat)])
        else class_loop s (i + 1) (cs @ [s ! i])
      else Some (cs, i + 1))"
  by pat_completeness auto
termination by (relation "measure (\<lambda>(s, i, cs). length s - i)") auto

definition parse_class :: "string \<Rightarrow> (string \<times> nat) option" where
  "parse_class s = class_loop s 0 []"

definition is_digit_char :: "char \<Rightarrow> bool" where
  "is_digit_char c \<longleftrightarrow> c \<in> set ''0123456789''"

text \<open>\<open>None\<close> is the panic on an unexpected character, or a class that is never left.\<close>

function tokenize_loop :: "string \<Rightarrow> token list \<Rightarrow> token list option" where
  "tokenize_loop s toks =
     (case s of
        [] \<Rightarrow> Some toks
      | c # rest \<Rightarrow>
          if c = CHR ''|'' then tokenize_loop rest (toks @ [TokPipe])
          else if c = CHR ''('' then tokenize_loop rest (toks @ [TokLParen])
          else if c = CHR '')'' then tokenize_loop rest (toks @ [TokRParen])
          else if c = CHR ''['' then
            (case parse_class rest of
               None \<Rightarrow> None
             | Some (cs, n) \<Rightarrow> tokenize_loop (drop n rest) (toks @ [TokClass cs]))
          else if c = CHR ''?'' \<or> c = CHR '':'' then tokenize_loop rest toks
          else if is_digit_char c then tokenize_loop rest (toks @ [TokDigit c])
          else None)"
  by pat_completeness auto
termination by (relation "measure (\<lambda>(s, toks). length s)") auto

definition tokenize :: "string \<Rightarrow> token list option" where
  "tokenize pattern = tokenize_loop pattern []"

section \<open>Expansion\<close>

text \<open>\<open>string(c)\<close> of a byte: the UTF-8 form of that code point.\<close>

definition byte_string :: "char \<Rightarrow> string" where
  "byte_string c = (let n = of_char c :: nat in if n < 128 then [c] else [char_of (192 + n div 64), char_of (128 + n mod 64)])"

text \<open>The parser's position is the list of tokens left; \<open>None\<close> is a parser that has used up its calls.\<close>

fun parse_expr :: "nat \<Rightarrow> token list \<Rightarrow> (string list \<times> token list) option"
  and expr_tail :: "nat \<Rightarrow> string list \<Rightarrow> token list \<Rightarrow> (string list \<times> token list) option"
  and parse_term :: "nat \<Rightarrow> string list \<Rightarrow> token list \<Rightarrow> (string list \<times> token list) option"
  and parse_factor :: "nat \<Rightarrow> token list \<Rightarrow> (string list \<times> token list) option" where
  "parse_expr 0 ts = None"
| "parse_expr (Suc n) ts =
     (case parse_term n [[]] ts of None \<Rightarrow> None | Some (result, ts') \<Rightarrow> expr_tail n result ts')"
| "expr_tail 0 result ts = None"
| "expr_tail (Suc n) result ts =
     (case ts of
        TokPipe # ts' \<Rightarrow>
          (case parse_term n [[]] ts' of None \<Rightarrow> None | Some (more, ts2) \<Rightarrow> expr_tail n (result @ more) ts2)
      | _ \<Rightarrow> Some (result, ts))"
| "parse_term 0 result ts = None"
| "parse_term (Suc n) result ts =
     (if ts = [] \<or> hd ts = TokPipe \<or> hd ts = TokRParen then Some (result, ts)
      else (case parse_factor n ts of
          None \<Rightarrow> None
        | Some (factors, ts') \<Rightarrow> parse_term n (concat (map (\<lambda>prefix. map ((@) prefix) factors) result)) ts'))"
| "parse_factor 0 ts = None"
| "parse_factor (Suc n) ts =
     (case ts of
        [] \<Rightarrow> Some ([[]], [])
      | TokDigit c # ts' \<Rightarrow> Some ([[c]], ts')
      | TokClass cs # ts' \<Rightarrow> Some (map byte_string cs, ts')
      | TokLParen # ts' \<Rightarrow>
          (case parse_expr n ts' of
             None \<Rightarrow> None
           | Some (inner, ts2) \<Rightarrow>
               Some (inner, if ts2 \<noteq> [] \<and> hd ts2 = TokRParen then tl ts2 else ts2))
      | _ # ts' \<Rightarrow> Some ([[]], ts'))"

definition expand_pattern :: "string \<Rightarrow> string list option" where
  "expand_pattern pattern =
     Option.bind (tokenize pattern) (\<lambda>ts. map_option fst (parse_expr (4 * length ts + 4) ts))"

section \<open>The calls are enough\<close>

lemma parser_total:
  "(4 * length ts + 3 \<le> n \<longrightarrow> (\<exists>r ts'. parse_expr n ts = Some (r, ts') \<and> length ts' \<le> length ts)) \<and>
   (4 * length ts + 2 \<le> n \<longrightarrow> (\<forall>r0. \<exists>r ts'. parse_term n r0 ts = Some (r, ts') \<and> length ts' \<le> length ts)) \<and>
   (4 * length ts + 1 \<le> n \<longrightarrow> (\<forall>r0. \<exists>r ts'. expr_tail n r0 ts = Some (r, ts') \<and> length ts' \<le> length ts)) \<and>
   (4 * length ts \<le> n \<longrightarrow> ts \<noteq> [] \<longrightarrow> (\<exists>r ts'. parse_factor n ts = Some (r, ts') \<and> length ts' < length ts))"
proof (induction n arbitrary: ts)
  case 0
  then show ?case by simp
next
  case (Suc n)
  note ih = Suc.IH [THEN conjunct1, rule_format] Suc.IH [THEN conjunct2, THEN conjunct1, rule_format]
    Suc.IH [THEN conjunct2, THEN conjunct2, THEN conjunct1, rule_format]
    Suc.IH [THEN conjunct2, THEN conjunct2, THEN conjunct2, rule_format]
  have expr: "\<exists>r ts'. parse_expr (Suc n) ts = Some (r, ts') \<and> length ts' \<le> length ts" if le: "4 * length ts + 3 \<le> Suc n"
  proof -
    obtain r1 t1 where 1: "parse_term n [[]] ts = Some (r1, t1)" "length t1 \<le> length ts"
      using ih(2) [of ts "[[]]"] le by auto
    then obtain r2 t2 where 2: "expr_tail n r1 t1 = Some (r2, t2)" "length t2 \<le> length t1"
      using ih(3) [of t1 r1] le by auto
    then show ?thesis using 1 by auto
  qed
  have trm: "\<exists>r ts'. parse_term (Suc n) r0 ts = Some (r, ts') \<and> length ts' \<le> length ts" if le: "4 * length ts + 2 \<le> Suc n" for r0
  proof (cases "ts = [] \<or> hd ts = TokPipe \<or> hd ts = TokRParen")
    case False
    then obtain f t1 where 1: "parse_factor n ts = Some (f, t1)" "length t1 < length ts"
      using ih(4) [of ts] le by auto
    then obtain r2 t2 where "parse_term n (concat (map (\<lambda>prefix. map ((@) prefix) f) r0)) t1 = Some (r2, t2)" "length t2 \<le> length t1"
      using ih(2) [of t1 "concat (map (\<lambda>prefix. map ((@) prefix) f) r0)"] le by auto
    then show ?thesis using 1 False by auto
  qed auto
  have tail: "\<exists>r ts'. expr_tail (Suc n) r0 ts = Some (r, ts') \<and> length ts' \<le> length ts" if le: "4 * length ts + 1 \<le> Suc n" for r0
  proof (cases "\<exists>ts'. ts = TokPipe # ts'")
    case True
    then obtain t0 where t0: "ts = TokPipe # t0" by blast
    then obtain r1 t1 where 1: "parse_term n [[]] t0 = Some (r1, t1)" "length t1 \<le> length t0"
      using ih(2) [of t0 "[[]]"] le by auto
    then obtain r2 t2 where "expr_tail n (r0 @ r1) t1 = Some (r2, t2)" "length t2 \<le> length t1"
      using ih(3) [of t1 "r0 @ r1"] le t0 by auto
    then show ?thesis using 1 t0 by auto
  next
    case False
    then show ?thesis by (auto split: list.splits token.splits)
  qed
  have fac: "\<exists>r ts'. parse_factor (Suc n) ts = Some (r, ts') \<and> length ts' < length ts" if le: "4 * length ts \<le> Suc n" and ne: "ts \<noteq> []"
  proof -
    obtain t t0 where t0: "ts = t # t0" using ne by (cases ts) auto
    show ?thesis
    proof (cases t)
      case TokLParen
      obtain r1 t1 where 1: "parse_expr n t0 = Some (r1, t1)" "length t1 \<le> length t0"
        using ih(1) [of t0] le t0 by auto
      then show ?thesis by (cases t1) (auto simp: t0 TokLParen)
    qed (simp_all add: t0)
  qed
  show ?case using expr trm tail fac by blast
qed

section \<open>What a pattern stands for\<close>

datatype class_item = Single char | Range char char
datatype factor = Digit char | Class "class_item list" | Group "factor list list"

fun item_chars :: "class_item \<Rightarrow> string" where
  "item_chars (Single c) = [c]"
| "item_chars (Range a b) = map char_of [of_char a ..< Suc (of_char b :: nat)]"

fun words_factor :: "factor \<Rightarrow> string list" and words_term :: "factor list \<Rightarrow> string list"
  and words_expr :: "factor list list \<Rightarrow> string list" where
  "words_factor (Digit c) = [[c]]"
| "words_factor (Class items) = map (\<lambda>c. [c]) (concat (map item_chars items))"
| "words_factor (Group alts) = words_expr alts"
| "words_term [] = [[]]"
| "words_term (f # fs) = concat (map (\<lambda>w. map ((@) w) (words_term fs)) (words_factor f))"
| "words_expr [] = []"
| "words_expr (alt # alts) = words_term alt @ words_expr alts"

fun print_item :: "class_item \<Rightarrow> string" where
  "print_item (Single c) = [c]"
| "print_item (Range a b) = [a, CHR ''-'', b]"

fun print_factor :: "factor \<Rightarrow> string" and print_term :: "factor list \<Rightarrow> string"
  and print_alts :: "factor list list \<Rightarrow> string" and print_expr :: "factor list list \<Rightarrow> string" where
  "print_factor (Digit c) = [c]"
| "print_factor (Class items) = ''['' @ concat (map print_item items) @ '']''"
| "print_factor (Group alts) = ''(?:'' @ print_expr alts @ '')''"
| "print_term [] = []"
| "print_term (f # fs) = print_factor f @ print_term fs"
| "print_alts [] = []"
| "print_alts (alt # alts) = ''|'' @ print_term alt @ print_alts alts"
| "print_expr [] = []"
| "print_expr (alt # alts) = print_term alt @ print_alts alts"

text \<open>Patterns as libphonenumber writes them: digits, classes of digits and ranges of digits, non-empty groups.\<close>

fun item_ok :: "class_item \<Rightarrow> bool" where
  "item_ok (Single c) = is_digit_char c"
| "item_ok (Range a b) = (is_digit_char a \<and> is_digit_char b)"

fun factor_ok :: "factor \<Rightarrow> bool" and term_ok :: "factor list \<Rightarrow> bool" and expr_ok :: "factor list list \<Rightarrow> bool" where
  "factor_ok (Digit c) = is_digit_char c"
| "factor_ok (Class items) = list_all item_ok items"
| "factor_ok (Group alts) = (alts \<noteq> [] \<and> expr_ok alts)"
| "term_ok [] = True"
| "term_ok (f # fs) = (factor_ok f \<and> term_ok fs)"
| "expr_ok [] = True"
| "expr_ok (alt # alts) = (term_ok alt \<and> expr_ok alts)"

fun toks_factor :: "factor \<Rightarrow> token list" and toks_term :: "factor list \<Rightarrow> token list"
  and toks_alts :: "factor list list \<Rightarrow> token list" and toks_expr :: "factor list list \<Rightarrow> token list" where
  "toks_factor (Digit c) = [TokDigit c]"
| "toks_factor (Class items) = [TokClass (concat (map item_chars items))]"
| "toks_factor (Group alts) = [TokLParen] @ toks_expr alts @ [TokRParen]"
| "toks_term [] = []"
| "toks_term (f # fs) = toks_factor f @ toks_term fs"
| "toks_alts [] = []"
| "toks_alts (alt # alts) = [TokPipe] @ toks_term alt @ toks_alts alts"
| "toks_expr [] = []"
| "toks_expr (alt # alts) = toks_term alt @ toks_alts alts"

section \<open>Tokenising a printed pattern\<close>

declare class_loop.simps [simp del] tokenize_loop.simps [simp del]

lemma digit_neq: "is_digit_char c \<Longrightarrow> c \<noteq> CHR '']'' \<and> c \<noteq> CHR ''-'' \<and> c \<noteq> CHR ''|'' \<and> c \<noteq> CHR ''('' \<and> c \<noteq> CHR '')'' \<and>
    c \<noteq> CHR ''['' \<and> c \<noteq> CHR ''?'' \<and> c \<noteq> CHR '':''"
  by (auto simp: is_digit_char_def)

lemma digit_code: "is_digit_char c \<Longrightarrow> (of_char c :: nat) < 58"
  by (auto simp: is_digit_char_def)

lemma items_start: "list_all item_ok items \<Longrightarrow> hd (concat (map print_item items) @ CHR '']'' # rest) \<noteq> CHR ''-''"
proof (cases items)
  case (Cons i items')
  assume "list_all item_ok items"
  with Cons show ?thesis using digit_neq by (cases i) auto
qed simp

lemma class_loop_items:
  "list_all item_ok items \<Longrightarrow>
    class_loop (pre @ concat (map print_item items) @ CHR '']'' # rest) (length pre) cs =
      Some (cs @ concat (map item_chars items), length pre + length (concat (map print_item items)) + 1)"
proof (induction items arbitrary: pre cs)
  case Nil
  then show ?case by (simp add: class_loop.simps)
next
  case (Cons i items)
  let ?tail = "concat (map print_item items) @ CHR '']'' # rest"
  show ?case
  proof (cases i)
    case (Single c)
    have "hd ?tail \<noteq> CHR ''-''" "?tail \<noteq> []" using items_start Cons.prems by auto
    then have "(pre @ [c] @ ?tail) ! (length pre + 1) \<noteq> CHR ''-''" by (simp add: nth_append hd_conv_nth)
    then have "class_loop (pre @ [c] @ ?tail) (length pre) cs = class_loop (pre @ [c] @ ?tail) (length pre + 1) (cs @ [c])"
      using Cons.prems digit_neq [of c] by (subst class_loop.simps) (simp add: Single nth_append)
    also have "\<dots> = class_loop ((pre @ [c]) @ ?tail) (length (pre @ [c])) (cs @ [c])" by simp
    also have "\<dots> = Some ((cs @ [c]) @ concat (map item_chars items), length (pre @ [c]) + length (concat (map print_item items)) + 1)"
      using Cons.prems by (intro Cons.IH) simp
    finally show ?thesis by (simp add: Single)
  next
    case (Range a b)
    have "(pre @ [a, CHR ''-'', b] @ ?tail) ! (length pre + 1) = CHR ''-''" "(pre @ [a, CHR ''-'', b] @ ?tail) ! (length pre + 2) = b"
      "(pre @ [a, CHR ''-'', b] @ ?tail) ! length pre = a" by (simp_all add: nth_append)
    then have "class_loop (pre @ [a, CHR ''-'', b] @ ?tail) (length pre) cs =
        class_loop (pre @ [a, CHR ''-'', b] @ ?tail) (Suc (Suc (Suc (length pre)))) (cs @ item_chars i)"
      using Cons.prems digit_neq [of a] digit_code [of b]
      by (subst class_loop.simps) (simp add: Range numeral_3_eq_3 del: upt_Suc)
    also have "\<dots> = class_loop ((pre @ [a, CHR ''-'', b]) @ ?tail) (length (pre @ [a, CHR ''-'', b])) (cs @ item_chars i)" by simp
    also have "\<dots> = Some ((cs @ item_chars i) @ concat (map item_chars items),
        length (pre @ [a, CHR ''-'', b]) + length (concat (map print_item items)) + 1)"
      using Cons.prems by (intro Cons.IH) simp
    finally show ?thesis by (simp add: Range)
  qed
qed

lemma parse_class_items:
  "list_all item_ok items \<Longrightarrow> parse_class (concat (map print_item items) @ CHR '']'' # rest) =
    Some (concat (map item_chars items), length (concat (map print_item items)) + 1)"
  using class_loop_items [of items "[]" rest "[]"] by (simp add: parse_class_def)

lemma tokenize_print:
  "factor_ok f \<Longrightarrow> tokenize_loop (print_factor f @ rest) toks = tokenize_loop rest (toks @ toks_factor f)"
  "term_ok fs \<Longrightarrow> tokenize_loop (print_term fs @ rest) toks = tokenize_loop rest (toks @ toks_term fs)"
  "expr_ok alts \<Longrightarrow> tokenize_loop (print_alts alts @ rest) toks = tokenize_loop rest (toks @ toks_alts alts)"
  "expr_ok alts \<Longrightarrow> tokenize_loop (print_expr alts @ rest) toks = tokenize_loop rest (toks @ toks_expr alts)"
proof (induction f and fs and alts and alts arbitrary: rest toks and rest toks and rest toks and rest toks
    rule: print_factor_print_term_print_alts_print_expr.induct)
  case (1 c)
  then show ?case using digit_neq [of c] by (simp add: tokenize_loop.simps [of "c # rest"])
next
  case (2 items)
  then show ?case
    by (simp add: tokenize_loop.simps [of "CHR ''['' # _"] parse_class_items)
next
  case (3 alts)
  then show ?case
    by (simp add: tokenize_loop.simps [of "CHR ''('' # _"] tokenize_loop.simps [of "CHR ''?'' # _"]
      tokenize_loop.simps [of "CHR '':'' # _"] tokenize_loop.simps [of "CHR '')'' # _"])
next
  case (7 alt alts)
  then show ?case by (simp add: tokenize_loop.simps [of "CHR ''|'' # _"])
qed simp_all

section \<open>Parsing the tokens\<close>

lemma byte_string_ascii: "(of_char c :: nat) < 128 \<Longrightarrow> byte_string c = [c]"
  by (simp add: byte_string_def)

lemma item_bytes: "item_ok i \<Longrightarrow> c \<in> set (item_chars i) \<Longrightarrow> byte_string c = [c]"
proof (cases i)
  case (Single x)
  assume "item_ok i" "c \<in> set (item_chars i)"
  with Single show ?thesis using digit_code [of x] by (auto intro!: byte_string_ascii)
next
  case (Range a b)
  assume ok: "item_ok i" and c: "c \<in> set (item_chars i)"
  then obtain n :: nat where n: "c = char_of n" "n \<le> of_char b" using Range by (auto simp del: upt_Suc)
  moreover have "n < 58" using n ok digit_code [of b] Range by auto
  ultimately show ?thesis by (intro byte_string_ascii) (simp add: of_char_of)
qed

lemma class_bytes: "list_all item_ok items \<Longrightarrow>
    map byte_string (concat (map item_chars items)) = map (\<lambda>c. [c]) (concat (map item_chars items))"
  using item_bytes by (fastforce simp: list_all_iff)

lemma toks_factor_start:
  "toks_factor f \<noteq> []" "hd (toks_factor f @ rest) \<noteq> TokPipe" "hd (toks_factor f @ rest) \<noteq> TokRParen"
  by (cases f; simp)+

lemma map_append_Nil [simp]: "map ((@) []) xs = xs"
  by (simp add: map_idI)

lemma products_assoc:
  "concat (map (\<lambda>p. map ((@) p) ws) (concat (map (\<lambda>p. map ((@) p) fs) r))) =
    concat (map (\<lambda>p. map ((@) p) (concat (map (\<lambda>w. map ((@) w) ws) fs))) r)"
  by (induction r) (simp_all add: map_concat comp_def append_assoc [symmetric] del: append_assoc)

text \<open>Where a term, and where an expression, ends.\<close>

definition term_end :: "token list \<Rightarrow> bool" where
  "term_end rest \<longleftrightarrow> rest = [] \<or> hd rest = TokPipe \<or> hd rest = TokRParen"

definition expr_end :: "token list \<Rightarrow> bool" where
  "expr_end rest \<longleftrightarrow> rest = [] \<or> hd rest = TokRParen"

lemma ends [simp]: "expr_end rest \<Longrightarrow> term_end rest" "term_end (TokPipe # rest)" "expr_end (TokRParen # rest)" "expr_end []"
  by (auto simp: term_end_def expr_end_def)

lemma alts_end [simp]: "expr_end rest \<Longrightarrow> term_end (toks_alts alts @ rest)"
  by (cases alts) auto

lemma tail_stops: "expr_end rest \<Longrightarrow> expr_tail (Suc n) r rest = Some (r, rest)"
  by (auto simp: expr_end_def split: list.splits token.splits)

lemma term_stops: "term_end rest \<Longrightarrow> parse_term (Suc n) r rest = Some (r, rest)"
  by (auto simp: term_end_def)

lemma parse_print:
  "factor_ok f \<Longrightarrow> 4 * length (toks_factor f @ rest) \<le> n \<Longrightarrow>
    parse_factor n (toks_factor f @ rest) = Some (words_factor f, rest)"
  "term_ok fs \<Longrightarrow> term_end rest \<Longrightarrow> 4 * length (toks_term fs @ rest) + 2 \<le> n \<Longrightarrow>
    parse_term n r (toks_term fs @ rest) = Some (concat (map (\<lambda>p. map ((@) p) (words_term fs)) r), rest)"
  "expr_ok alts \<Longrightarrow> expr_end rest \<Longrightarrow>
    (4 * length (toks_alts alts @ rest) + 1 \<le> n \<longrightarrow>
      expr_tail n r (toks_alts alts @ rest) = Some (r @ words_expr alts, rest)) \<and>
    (alts \<noteq> [] \<longrightarrow> 4 * length (toks_expr alts @ rest) + 3 \<le> n \<longrightarrow>
      parse_expr n (toks_expr alts @ rest) = Some (words_expr alts, rest))"
proof (induction f and fs and alts arbitrary: rest n and rest n r and rest n r
    rule: factor_ok_term_ok_expr_ok.induct)
  case (1 c)
  then show ?case by (cases n) auto
next
  case (2 items)
  then show ?case by (cases n) (auto simp: class_bytes [symmetric])
next
  case (3 alts)
  then obtain m where n: "n = Suc m" by (cases n) auto
  have "parse_expr m (toks_expr alts @ TokRParen # rest) = Some (words_expr alts, TokRParen # rest)"
    using 3 n by auto
  then show ?case by (simp add: n)
next
  case 4
  then obtain m where "n = Suc m" by (cases n) auto
  then show ?case using 4 by (simp add: term_stops del: parse_term.simps)
next
  case (5 f fs)
  then obtain m where n: "n = Suc m" by (cases n) auto
  have len: "4 * length (toks_factor f @ toks_term fs @ rest) + 2 \<le> Suc m" using 5 n by simp
  obtain k where k: "length (toks_factor f) = Suc k" using toks_factor_start(1) [of f] by (cases "toks_factor f") auto
  have le2: "4 * length (toks_term fs @ rest) + 2 \<le> m" using len k by simp
  have "parse_factor m (toks_factor f @ toks_term fs @ rest) = Some (words_factor f, toks_term fs @ rest)"
    using 5 len by (intro 5(1)) auto
  moreover have "parse_term m r' (toks_term fs @ rest) = Some (concat (map (\<lambda>p. map ((@) p) (words_term fs)) r'), rest)" for r'
    using 5 le2 by (intro 5(2)) auto
  ultimately show ?case using toks_factor_start by (simp add: n products_assoc)
next
  case 6
  then show ?case by (cases n) (auto simp: tail_stops simp del: expr_tail.simps)
next
  case (7 alt alts)
  have trm: "parse_term m [[]] (toks_term alt @ toks_alts alts @ rest) = Some (words_term alt, toks_alts alts @ rest)"
    if le: "4 * length (toks_term alt @ toks_alts alts @ rest) + 2 \<le> m" for m
    using 7(1) [of "toks_alts alts @ rest" m "[[]]"] 7(3,4) le by simp
  have tail: "expr_tail m r' (toks_alts alts @ rest) = Some (r' @ words_expr alts, rest)"
    if le: "4 * length (toks_alts alts @ rest) + 1 \<le> m" for m r'
    using 7(2) [of rest m r'] 7(3,4) le by simp
  have "expr_tail n r (toks_alts (alt # alts) @ rest) = Some (r @ words_expr (alt # alts), rest)"
    if le: "4 * length (toks_alts (alt # alts) @ rest) + 1 \<le> n"
    using le trm [of "n - 1"] tail [of "n - 1"] by (cases n) auto
  moreover have "parse_expr n (toks_expr (alt # alts) @ rest) = Some (words_expr (alt # alts), rest)"
    if le: "4 * length (toks_expr (alt # alts) @ rest) + 3 \<le> n"
    using le trm [of "n - 1"] tail [of "n - 1"] by (cases n) auto
  ultimately show ?case by blast
qed

section \<open>The table\<close>

record territory =
  terr_id :: string
  country_code :: string
  leading_digits :: string
  main_country_for_code :: bool

definition ca_area_codes :: "string list" where
  "ca_area_codes =
    [''204'', ''226'', ''236'', ''249'', ''250'', ''263'', ''289'',
     ''306'', ''343'', ''354'', ''365'', ''367'', ''368'',
     ''403'', ''416'', ''418'', ''428'', ''431'', ''437'', ''438'',
     ''450'', ''468'', ''474'',
     ''506'', ''514'', ''519'', ''548'',
     ''579'', ''581'', ''584'', ''587'',
     ''604'', ''613'', ''639'', ''647'', ''672'', ''683'',
     ''705'', ''709'', ''742'', ''753'', ''778'', ''780'', ''782'',
     ''807'', ''819'', ''825'',
     ''867'', ''873'',
     ''902'', ''905'']"

text \<open>The territories of a country code in the order of the file, and the code's main country: the last one marked.\<close>

definition cc_territories :: "territory list \<Rightarrow> string \<Rightarrow> string list" where
  "cc_territories terrs cc = map terr_id (filter (\<lambda>t. country_code t = cc) terrs)"

definition main_for_code :: "territory list \<Rightarrow> string \<rightharpoonup> string" where
  "main_for_code terrs = fold (\<lambda>t m. if main_country_for_code t then m(country_code t \<mapsto> terr_id t) else m) terrs Map.empty"

fun leading_entries :: "territory list \<Rightarrow> (string \<times> string) list option" where
  "leading_entries [] = Some []"
| "leading_entries (t # ts) =
     (case (if leading_digits t = [] then Some [] else expand_pattern (leading_digits t)) of
        None \<Rightarrow> None
      | Some ps \<Rightarrow> map_option ((@) (map (\<lambda>p. (country_code t @ p, terr_id t)) ps)) (leading_entries ts))"

text \<open>The bare codes, in the order \<open>ccs\<close> in which the map of codes is walked.\<close>

definition bare_entry :: "territory list \<Rightarrow> string \<Rightarrow> (string \<times> string) list" where
  "bare_entry terrs cc =
     (case main_for_code terrs cc of
        Some country \<Rightarrow> [(cc, country)]
      | None \<Rightarrow> (case cc_territories terrs cc of [country] \<Rightarrow> [(cc, country)] | _ \<Rightarrow> []))"

definition table_entries :: "territory list \<Rightarrow> string list \<Rightarrow> (string \<times> string) list option" where
  "table_entries terrs ccs =
     map_option (\<lambda>leading. leading @ concat (map (bare_entry terrs) ccs) @ map (\<lambda>ac. (''1'' @ ac, ''CA'')) ca_area_codes)
       (leading_entries terrs)"

text \<open>\<open>seen\<close> keeps the last country of a prefix; a conflict is only reported.\<close>

definition seen_of :: "(string \<times> string) list \<Rightarrow> string \<rightharpoonup> string" where
  "seen_of entries = fold (\<lambda>(p, country) m. m(p \<mapsto> country)) entries Map.empty"

definition conflicts :: "(string \<times> string) list \<Rightarrow> (string \<times> string \<times> string) list" where
  "conflicts entries =
     concat (map (\<lambda>i. (let (p, country) = entries ! i in
       (case seen_of (take i entries) p of
          Some existing \<Rightarrow> if existing \<noteq> country then [(p, existing, country)] else []
        | None \<Rightarrow> []))) [0 ..< length entries])"

definition by_len_desc :: "string \<Rightarrow> string \<Rightarrow> bool" where
  "by_len_desc a b \<longleftrightarrow> (if length a \<noteq> length b then length b < length a else a < b)"

fun insert_by_len :: "string \<Rightarrow> string list \<Rightarrow> string list" where
  "insert_by_len p [] = [p]"
| "insert_by_len p (q # qs) = (if by_len_desc q p then q # insert_by_len p qs else p # q # qs)"

definition sorted_prefixes :: "(string \<times> string) list \<Rightarrow> string list" where
  "sorted_prefixes entries = fold insert_by_len (remdups (map fst entries)) []"

text \<open>The lines of the generated map.\<close>

definition generate_table :: "territory list \<Rightarrow> string list \<Rightarrow> (string \<times> string) list option" where
  "generate_table terrs ccs =
     map_option (\<lambda>entries. map (\<lambda>p. (p, the (seen_of entries p))) (sorted_prefixes entries)) (table_entries terrs ccs)"

lemma by_len_desc_total: "by_len_desc a b \<or> a = b \<or> by_len_desc b a"
  by (auto simp: by_len_desc_def)

lemma by_len_desc_trans: "by_len_desc a b \<Longrightarrow> by_len_desc b c \<Longrightarrow> by_len_desc a c"
  by (auto simp: by_len_desc_def split: if_splits)

lemma by_len_desc_irrefl [simp]: "\<not> by_len_desc a a"
  by (simp add: by_len_desc_def)

lemma by_len_desc_asym: "by_len_desc a b \<Longrightarrow> \<not> by_len_desc b a"
  using by_len_desc_trans by_len_desc_irrefl by blast

lemma set_insert_by_len [simp]: "set (insert_by_len p qs) = insert p (set qs)"
  by (induction qs) auto

lemma insert_by_len_sorted:
  "sorted_wrt by_len_desc qs \<Longrightarrow> p \<notin> set qs \<Longrightarrow> sorted_wrt by_len_desc (insert_by_len p qs)"
proof (induction qs)
  case (Cons q qs)
  then show ?case using by_len_desc_total [of q p] by (auto intro: by_len_desc_trans)
qed simp

lemma distinct_insert_by_len [simp]: "distinct (insert_by_len p qs) \<longleftrightarrow> p \<notin> set qs \<and> distinct qs"
  by (induction qs) auto

lemma fold_insert_by_len:
  "distinct (ps @ qs) \<Longrightarrow> sorted_wrt by_len_desc qs \<Longrightarrow>
    sorted_wrt by_len_desc (fold insert_by_len ps qs) \<and> set (fold insert_by_len ps qs) = set ps \<union> set qs"
proof (induction ps arbitrary: qs)
  case (Cons p ps)
  then have "sorted_wrt by_len_desc (fold insert_by_len ps (insert_by_len p qs)) \<and>
      set (fold insert_by_len ps (insert_by_len p qs)) = set ps \<union> set (insert_by_len p qs)"
    by (intro Cons.IH insert_by_len_sorted) auto
  then show ?case by simp
qed simp

lemma sorted_prefixes_facts:
  "sorted_wrt by_len_desc (sorted_prefixes entries)" "set (sorted_prefixes entries) = fst ` set entries"
  using fold_insert_by_len [of "remdups (map fst entries)" "[]"] by (auto simp: sorted_prefixes_def)

lemma by_len_desc_unique:
  "sorted_wrt by_len_desc ps \<Longrightarrow> sorted_wrt by_len_desc qs \<Longrightarrow> set ps = set qs \<Longrightarrow> ps = qs"
proof (induction ps arbitrary: qs)
  case (Cons p ps)
  then obtain q qs' where qs: "qs = q # qs'" by (cases qs) auto
  have "p = q \<or> by_len_desc q p" "q = p \<or> by_len_desc p q" using Cons.prems unfolding qs by fastforce+
  then have "p = q" using by_len_desc_asym by blast
  moreover have "p \<notin> set ps" "q \<notin> set qs'" using Cons.prems(1,2) qs by auto
  then have "set ps = set qs'" using Cons.prems(3) \<open>p = q\<close> unfolding qs by auto
  ultimately show ?case using Cons.IH [of qs'] Cons.prems(1,2) by (simp add: qs)
qed simp

lemma seen_fold: "fold (\<lambda>(p, country) m. m(p \<mapsto> country)) es m = m ++ seen_of es"
proof (induction es rule: rev_induct)
  case (snoc e es)
  then show ?case by (cases e) (simp add: seen_of_def map_add_def fun_eq_iff)
qed (simp add: seen_of_def)

lemma seen_append: "seen_of (as @ bs) = seen_of as ++ seen_of bs"
proof -
  have "seen_of (as @ bs) = fold (\<lambda>(p, country) m. m(p \<mapsto> country)) bs (seen_of as)" by (simp add: seen_of_def)
  then show ?thesis by (simp only: seen_fold)
qed

lemma seen_Cons: "seen_of (e # es) = [fst e \<mapsto> snd e] ++ seen_of es"
  using seen_append [of "[e]" es] by (simp add: seen_of_def split_beta)

lemma bare_entry_key: "e \<in> set (bare_entry terrs cc) \<Longrightarrow> fst e = cc"
  by (auto simp: bare_entry_def split: option.splits list.splits)

lemma bare_entry_seen: "seen_of (bare_entry terrs cc) p = (if p = cc then seen_of (bare_entry terrs p) p else None)"
  by (auto simp: bare_entry_def seen_of_def split: option.splits list.splits)

lemma bare_seen: "seen_of (concat (map (bare_entry terrs) ccs)) p = (if p \<in> set ccs then seen_of (bare_entry terrs p) p else None)"
proof (induction ccs)
  case (Cons cc ccs)
  then show ?case using bare_entry_seen [of terrs cc p] by (auto simp: seen_append map_add_def split: option.splits)
qed (simp add: seen_of_def)

section \<open>Properties\<close>

text \<open>
  the generated table does not depend on the order in which Go walks its map of country codes: two walks over the
  same codes give the same lines in the same order, or neither gives a table.
\<close>

theorem table_deterministic:
  assumes "set ccs = set ccs'"
  shows "generate_table terrs ccs = generate_table terrs ccs'"
proof (cases "leading_entries terrs")
  case (Some leading)
  define entries where
    "entries cs = leading @ concat (map (bare_entry terrs) cs) @ map (\<lambda>ac. (''1'' @ ac, ''CA'')) ca_area_codes" for cs
  have "seen_of (concat (map (bare_entry terrs) ccs)) = seen_of (concat (map (bare_entry terrs) ccs'))"
    using assms by (simp add: bare_seen fun_eq_iff)
  then have "seen_of (entries ccs) = seen_of (entries ccs')" by (simp add: entries_def seen_append)
  moreover have "set (entries ccs) = set (entries ccs')" using assms by (simp add: entries_def)
  then have "sorted_prefixes (entries ccs) = sorted_prefixes (entries ccs')"
    by (intro by_len_desc_unique) (simp_all add: sorted_prefixes_facts)
  ultimately show ?thesis using Some by (simp add: generate_table_def table_entries_def entries_def)
qed (simp add: generate_table_def table_entries_def)

theorem table_deterministic_witness:
  "generate_table [\<lparr>terr_id = ''US'', country_code = ''1'', leading_digits = [], main_country_for_code = True\<rparr>,
      \<lparr>terr_id = ''KZ'', country_code = ''7'', leading_digits = ''33|7'', main_country_for_code = False\<rparr>] [''1'', ''7''] =
   generate_table [\<lparr>terr_id = ''US'', country_code = ''1'', leading_digits = [], main_country_for_code = True\<rparr>,
      \<lparr>terr_id = ''KZ'', country_code = ''7'', leading_digits = ''33|7'', main_country_for_code = False\<rparr>] [''7'', ''1'']"
  by (rule table_deterministic) auto

text \<open>
  C24: the expansion of a pattern written with digits, classes and ranges of digits, groups and alternatives is exactly
  the list of the digit strings the pattern stands for, in the pattern's order: the tokenizer and the recursive
  descent undo the printing, and the calls given to the parser are enough.
\<close>

theorem pattern_expanded:
  assumes "alts \<noteq> []" "expr_ok alts"
  shows "expand_pattern (print_expr alts) = Some (words_expr alts)"
proof -
  have "tokenize (print_expr alts) = Some (toks_expr alts)"
    using tokenize_print(4) [of alts "[]" "[]"] assms by (simp add: tokenize_def tokenize_loop.simps [of "[]"])
  then show ?thesis
    using parse_print(3) [of alts "[]" "4 * length (toks_expr alts) + 4"] assms by (simp add: expand_pattern_def)
qed

theorem pattern_expanded_witness:
  "expand_pattern ''2(?:0[4-6]|3)'' = Some [''204'', ''205'', ''206'', ''23'']"
  using pattern_expanded [of "[[Digit CHR ''2'', Group [[Digit CHR ''0'', Class [Range CHR ''4'' CHR ''6'']], [Digit CHR ''3'']]]]"]
  by (simp add: is_digit_char_def upt_rec char_of_def bit_nat_def)

lemma expand_pattern_total: "tokenize pattern = Some ts \<Longrightarrow> \<exists>ws. expand_pattern pattern = Some ws"
  using parser_total [of ts "4 * length ts + 4"] by (auto simp: expand_pattern_def)

end
