(* ===== verification/Capture_Setup.thy ===== *)
theory Capture_Setup
  imports Ring_Pipeline Metric_Ops
begin

text \<open>
  Starting and stopping the capture (\<open>internal/exporter/exporter.go\<close>): \<open>Initialize\<close> with the eBPF maps, the
  sockets and the rings of all interfaces, \<open>Close\<close>, and the goroutines that read blocks and handle runs.
  What the system calls and the eBPF library return is given, for each interface, by an environment; the calls
  made are listed.
\<close>

section \<open>The socket of an interface\<close>

datatype socket_call =
    OpenSocket u16 | RecvBufForce nat | RecvBuf nat | GetRecvBuf | RecvTimeout int int | InterfaceByName string
  | BindSocket u16 | IgnoreOutgoing | AttachFilter | SetNonblock bool | ReadSocket nat | CloseSocket

definition eth_p_all :: u16 where "eth_p_all = 3"

definition htons :: "u16 \<Rightarrow> u16" where
  "htons i = (push_bit 8 i AND 0xFF00) OR drop_bit 8 i"

definition socket_recv_buf_size :: nat where "socket_recv_buf_size = 4 * 1024 * 1024"

definition socket_rcv_timeo :: duration where "socket_rcv_timeo = 1 * second"

text \<open>Calls made one after the other up to the first that fails.\<close>

fun run_calls :: "('c \<Rightarrow> errno option) \<Rightarrow> 'c list \<Rightarrow> ('c \<times> errno) option \<times> 'c list" where
  "run_calls sys [] = (None, [])"
| "run_calls sys (c # cs) =
     (case sys c of
        Some err \<Rightarrow> (Some (c, err), [c])
      | None \<Rightarrow> (let (failed, made) = run_calls sys cs in (failed, c # made)))"

definition set_recv_buffer :: "(socket_call \<Rightarrow> errno option) \<Rightarrow> (socket_call \<times> errno) option \<times> socket_call list" where
  "set_recv_buffer sys =
     (let force = RecvBufForce socket_recv_buf_size; plain = RecvBuf socket_recv_buf_size in
      case sys force of
        None \<Rightarrow> (None, [force])
      | Some _ \<Rightarrow> (case sys plain of None \<Rightarrow> (None, [force, plain]) | Some err \<Rightarrow> (Some (plain, err), [force, plain])))"

text \<open>
  The reads that empty the socket, with their results in a list: the loop ends at the first error.  \<open>None\<close> is a
  list without an error, a loop that has not ended.
\<close>

fun drain_reads :: "errno option list \<Rightarrow> socket_call list option" where
  "drain_reads [] = None"
| "drain_reads (Some err # rs) = Some [ReadSocket read_buf_size]"
| "drain_reads (None # rs) = map_option ((#) (ReadSocket read_buf_size)) (drain_reads rs)"

definition drain_socket :: "errno option list \<Rightarrow> socket_call list option" where
  "drain_socket reads = map_option (\<lambda>rs. [SetNonblock True] @ rs @ [SetNonblock False]) (drain_reads reads)"

definition create_socket ::
  "string \<Rightarrow> bool \<Rightarrow> (socket_call \<Rightarrow> errno option) \<Rightarrow> errno option list
    \<Rightarrow> ((socket_call \<times> errno) option \<times> socket_call list) option" where
  "create_socket name ignore_outgoing sys reads =
     (let opening = OpenSocket (htons eth_p_all) in
      case sys opening of
        Some err \<Rightarrow> Some (Some (opening, err), [opening])
      | None \<Rightarrow>
          let (failed1, made1) = set_recv_buffer sys;
              rest = [GetRecvBuf, RecvTimeout (socket_rcv_timeo div second) (socket_rcv_timeo mod second div 1000),
                InterfaceByName name, BindSocket (htons eth_p_all)] @
                (if ignore_outgoing then [IgnoreOutgoing] else []) @ [AttachFilter];
              (failed2, made2) = (if failed1 = None then run_calls sys rest else (failed1, []))
          in case failed2 of
               Some f \<Rightarrow> Some (Some f, [opening] @ made1 @ made2 @ [CloseSocket])
             | None \<Rightarrow> map_option (\<lambda>drained. (None, [opening] @ made1 @ made2 @ drained)) (drain_socket reads))"

section \<open>The capture of an interface\<close>

record iface_env =
  ie_load_ok :: bool
  ie_sip_ports_map :: bool
  ie_port_update :: "nat \<Rightarrow> u16 \<Rightarrow> errno option"
  ie_rtp_map :: bool
  ie_program :: bool
  ie_socket :: "socket_call \<Rightarrow> errno option"
  ie_reads :: "errno option list"
  ie_ring :: "ring_call \<Rightarrow> errno option"
  ie_memory :: "nat \<Rightarrow> u8 list"
  ie_page_size :: u32

datatype capture_call =
    LoadCollection | UpdateSipPort nat u16 | CloseCollection | SocketCall socket_call | RingCall ring_call

datatype capture_error =
    NoInterfaces | NotRoot | MemlockFailed | LoadFailed | NoSipPortsMap | SipPortFailed u16 errno | NoRtpMap | NoProgram
  | SocketFailed socket_call errno | RingFailed "setup_error list"

fun update_sip_ports :: "iface_env \<Rightarrow> nat \<Rightarrow> u16 list \<Rightarrow> capture_error option \<times> capture_call list" where
  "update_sip_ports env i [] = (None, [])"
| "update_sip_ports env i (p # ps) =
     (case ie_port_update env i p of
        Some err \<Rightarrow> (Some (SipPortFailed p err), [UpdateSipPort i p])
      | None \<Rightarrow> (let (failed, made) = update_sip_ports env (Suc i) ps in (failed, UpdateSipPort i p # made)))"

definition configure_maps :: "iface_env \<Rightarrow> u16 list \<Rightarrow> capture_error option \<times> capture_call list" where
  "configure_maps env ports =
     (if \<not> ie_sip_ports_map env then (Some NoSipPortsMap, [])
      else let (failed, made) = update_sip_ports env 0 ports
           in (if failed \<noteq> None then failed else if \<not> ie_rtp_map env then Some NoRtpMap else None, made))"

text \<open>One turn of the loop over the interfaces.  \<open>None\<close>: the panic on a missing port set, or a drain without end.\<close>

definition open_interface ::
  "iface_env \<Rightarrow> string \<Rightarrow> u16 list option \<Rightarrow> bool \<Rightarrow> ((capture_error + ring_handle) \<times> capture_call list) option" where
  "open_interface env name ports ignore_outgoing =
     (if \<not> ie_load_ok env then Some (Inl LoadFailed, [LoadCollection])
      else case ports of
        None \<Rightarrow> None
      | Some ps \<Rightarrow>
          (case configure_maps env ps of
             (Some err, c1) \<Rightarrow> Some (Inl err, [LoadCollection] @ c1 @ [CloseCollection])
           | (None, c1) \<Rightarrow>
               if \<not> ie_program env then Some (Inl NoProgram, [LoadCollection] @ c1 @ [CloseCollection])
               else (case create_socket name ignore_outgoing (ie_socket env) (ie_reads env) of
                   None \<Rightarrow> None
                 | Some (Some (c, err), c2) \<Rightarrow>
                     Some (Inl (SocketFailed c err), [LoadCollection] @ c1 @ map SocketCall c2 @ [CloseCollection])
                 | Some (None, c2) \<Rightarrow>
                     (case setup_packet_ring (ie_page_size env) (ie_ring env) (ie_memory env) default_ring_geometry of
                        (Inl errs, c3) \<Rightarrow> Some (Inl (RingFailed errs),
                          [LoadCollection] @ c1 @ map SocketCall c2 @ map RingCall c3 @ [CloseCollection])
                      | (Inr r, c3) \<Rightarrow> Some (Inr r, [LoadCollection] @ c1 @ map SocketCall c2 @ map RingCall c3)))))"

section \<open>All interfaces\<close>

record init_config =
  ic_interfaces :: "string list"
  ic_sip_ports :: "u16 list list"
  ic_ignore_outgoing :: bool
  ic_rtp_stream_ttl :: duration

record sock_entry =
  se_index :: nat
  se_iface :: string
  se_ring :: ring_handle

datatype worker = PacketConsumer | SocketReader nat | MetricsUpdate

record capture =
  cp_alive :: bool
  cp_socks :: "sock_entry list"
  cp_port_sets :: "u16 list list"
  cp_workers :: "worker list"
  cp_closed :: bool

definition tag_calls :: "nat \<Rightarrow> capture_call list \<Rightarrow> (nat \<times> capture_call) list" where
  "tag_calls i calls = map (Pair i) calls"

definition close_rings :: "(nat \<Rightarrow> iface_env) \<Rightarrow> sock_entry list \<Rightarrow> (nat \<times> capture_call) list" where
  "close_rings envs socks = concat (map (\<lambda>s. tag_calls (se_index s)
     (map RingCall (fst (snd (close_ring (ie_ring (envs (se_index s))) (se_ring s)))))) socks)"

definition close_collections :: "sock_entry list \<Rightarrow> (nat \<times> capture_call) list" where
  "close_collections socks = map (\<lambda>s. (se_index s, CloseCollection)) socks"

text \<open>\<open>releaseAll\<close>, the roll-back of the interfaces already opened.\<close>

definition release_all_interfaces :: "(nat \<Rightarrow> iface_env) \<Rightarrow> sock_entry list \<Rightarrow> (nat \<times> capture_call) list" where
  "release_all_interfaces envs socks = close_rings envs socks @ close_collections socks"

fun open_interfaces ::
  "(nat \<Rightarrow> iface_env) \<Rightarrow> init_config \<Rightarrow> string list \<Rightarrow> sock_entry list
    \<Rightarrow> ((capture_error + sock_entry list) \<times> (nat \<times> capture_call) list) option" where
  "open_interfaces envs cfg [] socks = Some (Inr socks, [])"
| "open_interfaces envs cfg (name # names) socks =
     (let i = length socks in
      case open_interface (envs i) name (idx (ic_sip_ports cfg) i) (ic_ignore_outgoing cfg) of
        None \<Rightarrow> None
      | Some (Inl err, calls) \<Rightarrow> Some (Inl err, tag_calls i calls @ release_all_interfaces envs socks)
      | Some (Inr r, calls) \<Rightarrow>
          map_option (\<lambda>(res, trace). (res, tag_calls i calls @ trace))
            (open_interfaces envs cfg names (socks @ [\<lparr>se_index = i, se_iface = name, se_ring = r\<rparr>])))"

definition start_workers :: "sock_entry list \<Rightarrow> worker list" where
  "start_workers socks = [PacketConsumer] @ map SocketReader [0 ..< length socks] @ [MetricsUpdate]"

definition check_prerequisites :: "bool \<Rightarrow> bool \<Rightarrow> capture_error option" where
  "check_prerequisites is_root memlock_ok =
     (if \<not> is_root then Some NotRoot else if \<not> memlock_ok then Some MemlockFailed else None)"

text \<open>The error, if any; the calls made; the exporter and the capture after it.\<close>

definition initialize ::
  "bool \<Rightarrow> bool \<Rightarrow> (nat \<Rightarrow> iface_env) \<Rightarrow> init_config \<Rightarrow> 'm exporter \<Rightarrow> capture
    \<Rightarrow> (capture_error option \<times> (nat \<times> capture_call) list \<times> 'm exporter \<times> capture) option" where
  "initialize is_root memlock_ok envs cfg e c =
     (if ic_interfaces cfg = [] then Some (Some NoInterfaces, [], e, c)
      else case check_prerequisites is_root memlock_ok of
        Some err \<Rightarrow> Some (Some err, [], e, c)
      | None \<Rightarrow>
          let e1 = e\<lparr>ex_media := set_ttl (ic_rtp_stream_ttl cfg) (ex_media e)\<rparr> in
          map_option (\<lambda>(res, trace). case res of
              Inl err \<Rightarrow> (Some err, trace, e1, c)
            | Inr socks \<Rightarrow> (None, trace, e1, c\<lparr>cp_alive := True, cp_socks := socks, cp_port_sets := ic_sip_ports cfg,
                cp_workers := start_workers socks\<rparr>))
            (open_interfaces envs cfg (ic_interfaces cfg) []))"

definition new_capture :: capture where
  "new_capture = \<lparr>cp_alive = False, cp_socks = [], cp_port_sets = [], cp_workers = [], cp_closed = False\<rparr>"

text \<open>\<open>Close\<close>, once the workers have left: only the first call does anything.\<close>

definition close_capture :: "(nat \<Rightarrow> iface_env) \<Rightarrow> capture \<Rightarrow> (nat \<times> capture_call) list \<times> capture" where
  "close_capture envs c =
     (if cp_closed c then ([], c)
      else (close_collections (cp_socks c) @ close_rings envs (cp_socks c),
        c\<lparr>cp_alive := False, cp_workers := [], cp_closed := True\<rparr>))"

text \<open>\<open>readSocketStats\<close>: the packets and drops of each socket, \<open>None\<close> where the kernel call failed.\<close>

definition read_socket_stats :: "(nat \<Rightarrow> (u32 \<times> u32) option) \<Rightarrow> sock_entry list \<Rightarrow> socket_stat list" where
  "read_socket_stats stats socks =
     List.map_filter (\<lambda>s. map_option (\<lambda>(packets, drops).
       \<lparr>ss_iface = se_iface s, ss_received = packets, ss_dropped = drops\<rparr>) (stats (se_index s))) socks"

section \<open>What is held\<close>

datatype resource = Collection | Socket | RxRing | Mapping

fun acquires :: "iface_env \<Rightarrow> capture_call \<Rightarrow> resource list" where
  "acquires env LoadCollection = (if ie_load_ok env then [Collection] else [])"
| "acquires env (SocketCall (OpenSocket p)) = (if ie_socket env (OpenSocket p) = None then [Socket] else [])"
| "acquires env (RingCall (SetRxRing r)) = (if ie_ring env (SetRxRing r) = None then [RxRing] else [])"
| "acquires env (RingCall (MmapRing n)) = (if ie_ring env (MmapRing n) = None then [Mapping] else [])"
| "acquires env _ = []"

fun releases :: "capture_call \<Rightarrow> resource list" where
  "releases CloseCollection = [Collection]"
| "releases (SocketCall CloseSocket) = [Socket]"
| "releases (RingCall CloseFd) = [Socket]"
| "releases (RingCall DisableRxRing) = [RxRing]"
| "releases (RingCall Munmap) = [Mapping]"
| "releases _ = []"

text \<open>
  The resources held after some calls, from those held before; \<open>None\<close> when something is released that is not held
  or acquired a second time.
\<close>

fun holdings :: "iface_env \<Rightarrow> capture_call list \<Rightarrow> resource set \<Rightarrow> resource set option" where
  "holdings env [] h = Some h"
| "holdings env (c # cs) h =
     (if set (releases c) \<subseteq> h \<and> set (acquires env c) \<inter> h = {}
      then holdings env cs (h - set (releases c) \<union> set (acquires env c)) else None)"

definition calls_of :: "nat \<Rightarrow> (nat \<times> capture_call) list \<Rightarrow> capture_call list" where
  "calls_of i trace = map snd (filter (\<lambda>(j, c). j = i) trace)"


section \<open>Opening and closing balance\<close>

lemma held_append: "holdings env (a @ b) h = Option.bind (holdings env a h) (holdings env b)"
  by (induction a arbitrary: h) auto

definition neutral :: "iface_env \<Rightarrow> capture_call \<Rightarrow> bool" where
  "neutral env c \<longleftrightarrow> releases c = [] \<and> acquires env c = []"

lemma held_neutral: "list_all (neutral env) cs \<Longrightarrow> holdings env cs h = Some h"
  by (induction cs) (auto simp: neutral_def)

lemma run_calls_all: "list_all p cs \<Longrightarrow> list_all p (snd (run_calls sys cs))"
  by (induction cs) (auto simp: case_prod_beta Let_def split: option.split)

lemma drain_neutral: "drain_socket reads = Some cs \<Longrightarrow> list_all (neutral env) (map SocketCall cs)"
proof -
  have "drain_reads reads = Some rs \<Longrightarrow> list_all (neutral env) (map SocketCall rs)" for rs
    by (induction reads arbitrary: rs rule: drain_reads.induct) (auto simp: neutral_def)
  then show "drain_socket reads = Some cs \<Longrightarrow> ?thesis" by (auto simp: drain_socket_def neutral_def)
qed

lemma recv_buffer_neutral: "list_all (neutral env) (map SocketCall (snd (set_recv_buffer sys)))"
  by (auto simp: set_recv_buffer_def neutral_def Let_def split: option.split)

lemma create_socket_held:
  assumes "create_socket name ign (ie_socket env) reads = Some (res, calls)" "Socket \<notin> h"
  shows "holdings env (map SocketCall calls) h = Some (if res = None then insert Socket h else h)"
proof -
  let ?opening = "OpenSocket (htons eth_p_all)"
  define made1 where "made1 = snd (set_recv_buffer (ie_socket env))"
  define rest where "rest = [GetRecvBuf, RecvTimeout (socket_rcv_timeo div second) (socket_rcv_timeo mod second div 1000),
                InterfaceByName name, BindSocket (htons eth_p_all)] @ (if ign then [IgnoreOutgoing] else []) @ [AttachFilter]"
  define step2 where "step2 = (if fst (set_recv_buffer (ie_socket env)) = None then run_calls (ie_socket env) rest
    else (fst (set_recv_buffer (ie_socket env)), []))"
  have n1: "holdings env (map SocketCall made1) h' = Some h'" for h'
    using recv_buffer_neutral unfolding made1_def by (rule held_neutral)
  have "list_all (\<lambda>c. neutral env (SocketCall c)) rest" by (simp add: rest_def neutral_def)
  then have "list_all (\<lambda>c. neutral env (SocketCall c)) (snd step2)" by (simp add: step2_def run_calls_all)
  then have n2: "holdings env (map SocketCall (snd step2)) h' = Some h'" for h'
    by (intro held_neutral) (simp add: list_all_iff)
  have n3: "drain_socket reads = Some d \<Longrightarrow> holdings env (map SocketCall d) h' = Some h'" for d h'
    using drain_neutral by (rule held_neutral)
  show ?thesis
  proof (cases "ie_socket env ?opening")
    case (Some err)
    then show ?thesis using assms by (auto simp: create_socket_def Let_def)
  next
    case None
    have eq: "create_socket name ign (ie_socket env) reads =
        (case fst step2 of
           Some f \<Rightarrow> Some (Some f, [?opening] @ made1 @ snd step2 @ [CloseSocket])
         | None \<Rightarrow> map_option (\<lambda>d. (None, [?opening] @ made1 @ snd step2 @ d)) (drain_socket reads))"
      unfolding create_socket_def Let_def step2_def rest_def made1_def using None by (simp add: case_prod_beta)
    show ?thesis
    proof (cases "fst step2")
      case (Some f)
      then show ?thesis using assms None eq by (auto simp: held_append n1 n2)
    next
      case fine: None
      then obtain d where "drain_socket reads = Some d" "res = None" "calls = [?opening] @ made1 @ snd step2 @ d"
        using assms eq by auto
      then show ?thesis using assms(2) None n3 by (simp add: held_append n1 n2)
    qed
  qed
qed

definition ring_whole :: "ring_handle \<Rightarrow> bool" where
  "ring_whole r \<longleftrightarrow> rh_memory r \<noteq> [] \<and> rh_fd_open r \<and> rh_rx_configured r"

lemma close_whole: "ring_whole r \<Longrightarrow> fst (snd (close_ring sys r)) = [Munmap, DisableRxRing, CloseFd]"
  by (simp add: ring_whole_def close_ring_def)

lemma setup_ring_held:
  assumes "setup_packet_ring page_size (ie_ring env) memory default_ring_geometry = (res, calls)"
    and "Socket \<in> h" "RxRing \<notin> h" "Mapping \<notin> h" "memory 0x800000 \<noteq> []"
  shows "holdings env (map RingCall calls) h =
      Some (case res of Inl _ \<Rightarrow> h - {Socket} | Inr _ \<Rightarrow> h \<union> {RxRing, Mapping}) \<and> (\<forall>r. res = Inr r \<longrightarrow> ring_whole r)"
proof (cases "ring_request_of page_size default_ring_geometry")
  case None
  then show ?thesis using assms by (auto simp: setup_packet_ring_def rollback_setup_def close_ring_def Let_def)
next
  case (Some q)
  then have "unat (rq_block_size q) * unat (rq_block_nr q) = 0x800000"
    by (auto simp: ring_request_of_def default_ring_geometry_def Let_def split: if_splits)
  then show ?thesis using assms Some
    by (auto simp: setup_packet_ring_def rollback_setup_def close_ring_def ring_whole_def Let_def split: option.splits)
qed

lemma maps_neutral: "list_all (neutral env) (snd (configure_maps env ports))"
proof -
  have "list_all (neutral env) (snd (update_sip_ports env i ports))" for i
    by (induction env i ports rule: update_sip_ports.induct) (auto simp: neutral_def case_prod_beta Let_def split: option.split)
  then show ?thesis by (simp add: configure_maps_def case_prod_beta Let_def)
qed

lemma open_interface_held:
  assumes "open_interface env name ports ign = Some (res, calls)" "ie_memory env 0x800000 \<noteq> []"
  shows "holdings env calls {} = Some (case res of Inl _ \<Rightarrow> {} | Inr _ \<Rightarrow> UNIV) \<and> (\<forall>r. res = Inr r \<longrightarrow> ring_whole r)"
proof (cases "ie_load_ok env")
  case True
  have univ: "{Collection, Socket, RxRing, Mapping} = UNIV"
    using resource.exhaust by auto
  obtain ps where ps: "ports = Some ps" using assms True by (auto simp: open_interface_def split: option.splits)
  obtain failed c1 where c1: "configure_maps env ps = (failed, c1)" by force
  then have n1: "holdings env c1 h = Some h" for h using maps_neutral [of env ps] held_neutral by simp
  show ?thesis
  proof (cases "failed = None \<and> ie_program env")
    case False
    then show ?thesis using assms(1) True c1 n1 ps by (cases failed) (auto simp: open_interface_def held_append)
  next
    case go: True
    then obtain f c2 where f: "create_socket name ign (ie_socket env) (ie_reads env) = Some (f, c2)"
      using assms(1) True c1 ps by (auto simp: open_interface_def split: option.splits)
    from create_socket_held [OF this, of "{Collection}"]
    have n2: "holdings env (map SocketCall c2) {Collection} = Some (if f = None then {Socket, Collection} else {Collection})"
      by simp
    show ?thesis
    proof (cases f)
      case (Some ce)
      then show ?thesis using assms(1) True c1 n1 n2 ps go f by (cases ce) (auto simp: open_interface_def held_append)
    next
      case None
      obtain r c3 where r: "setup_packet_ring (ie_page_size env) (ie_ring env) (ie_memory env) default_ring_geometry = (r, c3)"
        by force
      from setup_ring_held [OF this, of "{Socket, Collection}"] assms(2)
      have n3: "holdings env (map RingCall c3) {Socket, Collection} =
          Some (case r of Inl _ \<Rightarrow> {Collection} | Inr _ \<Rightarrow> UNIV)" "\<forall>r'. r = Inr r' \<longrightarrow> ring_whole r'"
        by (auto simp: univ [symmetric] split: sum.splits)
      show ?thesis using assms(1) True c1 n1 n2 n3 ps go f None r
        by (cases r) (auto simp: open_interface_def held_append)
    qed
  qed
qed (use assms in \<open>auto simp: open_interface_def\<close>)

lemma calls_of_simps [simp]:
  "calls_of i [] = []" "calls_of i (a @ b) = calls_of i a @ calls_of i b"
  "calls_of i (tag_calls j cs) = (if j = i then cs else [])"
  "calls_of i ((j, c) # trace) = (if j = i then [c] else []) @ calls_of i trace"
  by (auto simp: calls_of_def tag_calls_def filter_map comp_def)

definition socks_ok :: "sock_entry list \<Rightarrow> bool" where
  "socks_ok socks \<longleftrightarrow> map se_index socks = [0 ..< length socks] \<and> list_all (\<lambda>s. ring_whole (se_ring s)) socks"

lemma socks_ok_snoc [simp]:
  "socks_ok (socks @ [s]) \<longleftrightarrow> socks_ok socks \<and> se_index s = length socks \<and> ring_whole (se_ring s)"
  by (auto simp: socks_ok_def)

lemma closing_calls:
  assumes "socks_ok socks"
  shows "calls_of i (close_rings envs socks) = (if i < length socks then map RingCall [Munmap, DisableRxRing, CloseFd] else [])"
    "calls_of i (close_collections socks) = (if i < length socks then [CloseCollection] else [])"
  using assms
proof (induction socks rule: rev_induct)
  case (snoc s socks)
  {
    case 1
    then show ?case using snoc.IH(1) by (auto simp: close_rings_def close_whole)
  next
    case 2
    then show ?case using snoc.IH(2) by (auto simp: close_collections_def)
  }
qed (simp_all add: close_rings_def close_collections_def)

lemma all_resources: "resource \<in> {Collection, Socket, RxRing, Mapping}"
  by (cases resource) auto

lemma held_release:
  assumes "socks_ok socks"
  shows "holdings env (calls_of i (release_all_interfaces envs socks)) (if i < length socks then UNIV else {}) = Some {}"
    "holdings env (calls_of i (close_collections socks @ close_rings envs socks)) (if i < length socks then UNIV else {}) = Some {}"
  using all_resources by (auto simp: release_all_interfaces_def closing_calls [OF assms])

lemma open_interfaces_held:
  assumes "open_interfaces envs cfg names socks = Some (res, trace)" "socks_ok socks"
    and mem: "\<forall>i. ie_memory (envs i) 0x800000 \<noteq> []"
  shows "holdings (envs i) (calls_of i trace) (if i < length socks then UNIV else {}) =
      Some (case res of Inl _ \<Rightarrow> {} | Inr socks' \<Rightarrow> if i < length socks' then UNIV else {}) \<and>
    (case res of Inl _ \<Rightarrow> True | Inr socks' \<Rightarrow> socks_ok socks' \<and> length socks' = length socks + length names)"
  using assms(1,2)
proof (induction names arbitrary: socks trace)
  case (Cons name names)
  let ?n = "length socks"
  obtain one calls where one: "open_interface (envs ?n) name (idx (ic_sip_ports cfg) ?n) (ic_ignore_outgoing cfg) = Some (one, calls)"
    using Cons.prems by (auto simp: Let_def split: option.splits)
  note h1 = open_interface_held [OF one] mem
  show ?case
  proof (cases one)
    case (Inl err)
    then have "res = Inl err" "trace = tag_calls ?n calls @ release_all_interfaces envs socks"
      using Cons.prems one by auto
    then show ?thesis using h1 held_release(1) [OF Cons.prems(2), of "envs i" i envs] Inl by (auto simp: held_append)
  next
    case (Inr r)
    let ?socks = "socks @ [\<lparr>se_index = ?n, se_iface = name, se_ring = r\<rparr>]"
    obtain trace' where t: "open_interfaces envs cfg names ?socks = Some (res, trace')" "trace = tag_calls ?n calls @ trace'"
      using Cons.prems one Inr by (auto simp: Let_def)
    have "socks_ok ?socks" using Cons.prems(2) h1 Inr by simp
    note ih = Cons.IH [OF t(1) this]
    show ?thesis using ih h1 Inr t(2) by (cases "i = ?n") (auto simp: held_append less_Suc_eq split: sum.splits)
  qed
qed auto

lemma drain_total: "list_ex (\<lambda>r. r \<noteq> None) reads \<Longrightarrow> drain_socket reads \<noteq> None"
proof -
  have "list_ex (\<lambda>r. r \<noteq> None) reads \<Longrightarrow> drain_reads reads \<noteq> None"
    by (induction reads rule: drain_reads.induct) auto
  then show "list_ex (\<lambda>r. r \<noteq> None) reads \<Longrightarrow> ?thesis" by (auto simp: drain_socket_def)
qed

lemma open_interface_total:
  "list_ex (\<lambda>r. r \<noteq> None) (ie_reads env) \<Longrightarrow> open_interface env name (Some ps) ign \<noteq> None"
  using drain_total [of "ie_reads env"]
  by (auto simp: open_interface_def create_socket_def Let_def case_prod_beta split: option.splits sum.splits prod.splits)

lemma open_interfaces_total:
  "\<forall>i. list_ex (\<lambda>r. r \<noteq> None) (ie_reads (envs i)) \<Longrightarrow> length socks + length names \<le> length (ic_sip_ports cfg) \<Longrightarrow>
    open_interfaces envs cfg names socks \<noteq> None"
proof (induction names arbitrary: socks)
  case (Cons name names)
  let ?n = "length socks"
  have "idx (ic_sip_ports cfg) ?n = Some (ic_sip_ports cfg ! ?n)" using Cons.prems by (simp add: idx_def)
  then obtain one calls where one: "open_interface (envs ?n) name (idx (ic_sip_ports cfg) ?n) (ic_ignore_outgoing cfg) = Some (one, calls)"
    using open_interface_total Cons.prems(1) by fastforce
  show ?case
  proof (cases one)
    case (Inr r)
    have "open_interfaces envs cfg names (socks @ [\<lparr>se_index = ?n, se_iface = name, se_ring = r\<rparr>]) \<noteq> None"
      using Cons.prems by (intro Cons.IH) auto
    then show ?thesis using one Inr by auto
  qed (use one in auto)
qed simp

lemma initialize_returns:
  assumes "\<forall>i. list_ex (\<lambda>r. r \<noteq> None) (ie_reads (envs i))" "length (ic_interfaces cfg) \<le> length (ic_sip_ports cfg)"
  shows "initialize is_root memlock_ok envs cfg e c \<noteq> None"
proof -
  have "open_interfaces envs cfg (ic_interfaces cfg) [] \<noteq> None"
    using assms by (intro open_interfaces_total) auto
  then obtain res where "open_interfaces envs cfg (ic_interfaces cfg) [] = Some res" by blast
  then show ?thesis
    by (cases "ic_interfaces cfg = []"; cases "check_prerequisites is_root memlock_ok")
      (simp_all add: initialize_def Let_def)
qed

lemma initialize_balance:
  assumes "initialize is_root memlock_ok envs cfg e new_capture = Some (err, trace, e', c')"
    and mem: "\<forall>i. ie_memory (envs i) 0x800000 \<noteq> []"
  shows "holdings (envs i) (calls_of i trace) {} = Some (if err = None \<and> i < length (ic_interfaces cfg) then UNIV else {})"
    "holdings (envs i) (calls_of i (trace @ fst (close_capture envs c'))) {} = Some {}"
    "if err = None then cp_alive c' \<and> cp_workers c' = [PacketConsumer] @ map SocketReader [0 ..< length (ic_interfaces cfg)] @ [MetricsUpdate]
     else c' = new_capture"
    "ic_interfaces cfg \<noteq> [] \<or> err \<noteq> None" "\<not> cp_closed c'"
proof -
  consider (early) x where "err = Some x" "trace = []" "c' = new_capture"
    | (failed) x where "open_interfaces envs cfg (ic_interfaces cfg) [] = Some (Inl x, trace)" "err = Some x" "c' = new_capture"
    | (running) socks where "open_interfaces envs cfg (ic_interfaces cfg) [] = Some (Inr socks, trace)" "err = None"
        "ic_interfaces cfg \<noteq> []" "c' = new_capture\<lparr>cp_alive := True, cp_socks := socks, cp_port_sets := ic_sip_ports cfg,
          cp_workers := start_workers socks\<rparr>"
  proof (cases "ic_interfaces cfg = [] \<or> check_prerequisites is_root memlock_ok \<noteq> None")
    case True
    then have "err \<noteq> None \<and> trace = [] \<and> c' = new_capture"
      using assms(1)
      by (cases "ic_interfaces cfg = []"; cases "check_prerequisites is_root memlock_ok") (auto simp: initialize_def)
    then show ?thesis using early by blast
  next
    case False
    then have "open_interfaces envs cfg (ic_interfaces cfg) [] \<noteq> None"
      using assms(1) by (cases "open_interfaces envs cfg (ic_interfaces cfg) []") (auto simp: initialize_def Let_def)
    then obtain res trace' where res: "open_interfaces envs cfg (ic_interfaces cfg) [] = Some (res, trace')" by auto
    show ?thesis
    proof (cases res)
      case (Inl x)
      then show ?thesis using assms(1) False res by (intro failed [of x]) (auto simp: initialize_def Let_def)
    next
      case (Inr socks)
      then show ?thesis using assms(1) False res by (intro running [of socks]) (auto simp: initialize_def Let_def)
    qed
  qed
  note start_cases = this
  have ok: "socks_ok []" by (simp add: socks_ok_def)
  note h = open_interfaces_held [OF _ ok mem]
  have "holdings (envs i) (calls_of i trace) {} = Some (if err = None \<and> i < length (ic_interfaces cfg) then UNIV else {}) \<and>
    holdings (envs i) (calls_of i (trace @ fst (close_capture envs c'))) {} = Some {} \<and>
    (if err = None then cp_alive c' \<and> cp_workers c' = [PacketConsumer] @ map SocketReader [0 ..< length (ic_interfaces cfg)] @ [MetricsUpdate]
     else c' = new_capture) \<and> (ic_interfaces cfg \<noteq> [] \<or> err \<noteq> None) \<and> \<not> cp_closed c'"
    using start_cases
  proof cases
    case early
    then show ?thesis by (simp add: close_capture_def new_capture_def close_collections_def close_rings_def)
  next
    case failed
    then show ?thesis using h [OF failed(1), of i]
      by (simp add: close_capture_def new_capture_def close_collections_def close_rings_def)
  next
    case running
    have socks: "socks_ok socks" "length socks = length (ic_interfaces cfg)" using h [OF running(1), of i] by auto
    show ?thesis using running h [OF running(1), of i] socks held_release(2) [OF socks(1), of "envs i" i envs]
      by (auto simp: close_capture_def new_capture_def start_workers_def held_append)
  qed
  then show "holdings (envs i) (calls_of i trace) {} = Some (if err = None \<and> i < length (ic_interfaces cfg) then UNIV else {})"
    "holdings (envs i) (calls_of i (trace @ fst (close_capture envs c'))) {} = Some {}"
    "if err = None then cp_alive c' \<and> cp_workers c' = [PacketConsumer] @ map SocketReader [0 ..< length (ic_interfaces cfg)] @ [MetricsUpdate]
     else c' = new_capture"
    "ic_interfaces cfg \<noteq> [] \<or> err \<noteq> None" "\<not> cp_closed c'" by blast+
qed

section \<open>Properties\<close>

text \<open>
  C18: starting the capture returns, with an error or running, and never leaks: however many interfaces there are and
  whichever system call fails, an error leaves no eBPF collection, socket, ring or mapping behind, nothing is closed
  twice or opened twice, and no worker runs; success holds all four for each interface, with a reader each, and
  \<open>Close\<close> gives every one of them back once, a second \<open>Close\<close> doing nothing.
\<close>

theorem capture_setup_clean:
  assumes "\<forall>i. ie_memory (envs i) 0x800000 \<noteq> []" "\<forall>i. list_ex (\<lambda>r. r \<noteq> None) (ie_reads (envs i))"
    and "length (ic_interfaces cfg) \<le> length (ic_sip_ports cfg)"
  shows "\<exists>err trace e' c'. initialize is_root memlock_ok envs cfg e new_capture = Some (err, trace, e', c') \<and>
    (if err = None
     then cp_alive c' \<and> cp_workers c' = [PacketConsumer] @ map SocketReader [0 ..< length (ic_interfaces cfg)] @ [MetricsUpdate] \<and>
       (\<forall>i. holdings (envs i) (calls_of i trace) {} = Some (if i < length (ic_interfaces cfg) then UNIV else {}) \<and>
         holdings (envs i) (calls_of i (trace @ fst (close_capture envs c'))) {} = Some {}) \<and>
       \<not> cp_alive (snd (close_capture envs c')) \<and> fst (close_capture envs (snd (close_capture envs c'))) = []
     else \<not> cp_alive c' \<and> cp_workers c' = [] \<and> (\<forall>i. holdings (envs i) (calls_of i trace) {} = Some {}))"
proof -
  obtain err trace e' c' where run: "initialize is_root memlock_ok envs cfg e new_capture = Some (err, trace, e', c')"
    using initialize_returns [OF assms(2,3)] by (metis option.exhaust prod_cases4)
  note b = initialize_balance [OF run assms(1)]
  have once: "fst (close_capture envs (snd (close_capture envs c'))) = []" "\<not> cp_alive (snd (close_capture envs c'))"
    using b(5) by (simp_all add: close_capture_def)
  have "if err = None
     then cp_alive c' \<and> cp_workers c' = [PacketConsumer] @ map SocketReader [0 ..< length (ic_interfaces cfg)] @ [MetricsUpdate] \<and>
       (\<forall>i. holdings (envs i) (calls_of i trace) {} = Some (if i < length (ic_interfaces cfg) then UNIV else {}) \<and>
         holdings (envs i) (calls_of i (trace @ fst (close_capture envs c'))) {} = Some {}) \<and>
       \<not> cp_alive (snd (close_capture envs c')) \<and> fst (close_capture envs (snd (close_capture envs c'))) = []
     else \<not> cp_alive c' \<and> cp_workers c' = [] \<and> (\<forall>i. holdings (envs i) (calls_of i trace) {} = Some {})"
  proof (cases "err = None")
    case True
    then show ?thesis using b once by simp
  next
    case False
    then have "c' = new_capture" using b(3) by simp
    then show ?thesis using False b(1) by (simp add: new_capture_def)
  qed
  then show ?thesis using run by blast
qed

definition sample_env :: iface_env where
  "sample_env = \<lparr>ie_load_ok = True, ie_sip_ports_map = True, ie_port_update = (\<lambda>i p. None), ie_rtp_map = True,
     ie_program = True, ie_socket = (\<lambda>c. None), ie_reads = [None, Some eagain],
     ie_ring = (\<lambda>c. if c = SetVersion then Some eagain else None), ie_memory = (\<lambda>n. [0]), ie_page_size = 4096\<rparr>"

theorem capture_setup_clean_witness:
  "\<exists>err trace e' c'. initialize True True (\<lambda>i. sample_env) \<lparr>ic_interfaces = [''eth0'', ''eth1''], ic_sip_ports = [[5060], [5061]],
      ic_ignore_outgoing = True, ic_rtp_stream_ttl = second\<rparr> (new_exporter ([] :: unit list) 0 0 0 0 0) new_capture = Some (err, trace, e', c') \<and>
    holdings sample_env (calls_of 0 trace) {} \<noteq> None \<and> holdings sample_env (calls_of 1 trace) {} \<noteq> None"
proof -
  let ?cfg = "\<lparr>ic_interfaces = [''eth0'', ''eth1''], ic_sip_ports = [[5060], [5061 :: u16]], ic_ignore_outgoing = True,
      ic_rtp_stream_ttl = second\<rparr>"
  let ?e = "new_exporter ([] :: unit list) 0 0 0 0 0"
  have env: "\<forall>i::nat. ie_memory sample_env 0x800000 \<noteq> []" "\<forall>i::nat. list_ex (\<lambda>r. r \<noteq> None) (ie_reads sample_env)"
    by (simp_all add: sample_env_def)
  obtain err trace e' c' where run: "initialize True True (\<lambda>i. sample_env) ?cfg ?e new_capture = Some (err, trace, e', c')"
    and if_clean: "if err = None
      then (\<forall>i. holdings sample_env (calls_of i trace) {} = Some (if i < length (ic_interfaces ?cfg) then UNIV else {}))
      else (\<forall>i. holdings sample_env (calls_of i trace) {} = Some {})"
    using capture_setup_clean [of "\<lambda>i. sample_env" ?cfg True True ?e, OF env] by (fastforce split: if_splits)
  have "holdings sample_env (calls_of i trace) {} \<noteq> None" for i using if_clean by (cases "err = None") auto
  then show ?thesis using run by blast
qed

end
