(* ===== verification/Capture_Workers.thy ===== *)
theory Capture_Workers
  imports Capture_Setup
begin

text \<open>
  The goroutines of the capture (\<open>internal/exporter/exporter.go\<close>): the reader of a ring (\<open>readPacketRing\<close>,
  \<open>nextPacketRingBlock\<close>) and the consumer of runs (\<open>readPacketRuns\<close>), as step relations.  The closing of
  \<open>done\<close>, the kernel's writes to the ring, the outcome of handing a block over and the parser's releases come
  in between in any order.
\<close>

section \<open>The reader of a ring\<close>

text \<open>
  \<open>rd_lent\<close> are the blocks handed out and not yet given back by the parser, \<open>rd_read\<close> the physical indices read
  so far.
\<close>

record reader =
  rd_index :: u32
  rd_borrowed :: borrowed_blocks
  rd_errors :: nat
  rd_running :: bool
  rd_lent :: "nat list"
  rd_read :: "nat list"

definition physical_index :: "u32 \<Rightarrow> u32 \<Rightarrow> nat" where
  "physical_index n index = unat (index mod n)"

definition new_reader :: "u32 \<Rightarrow> reader" where
  "new_reader n = \<lparr>rd_index = 0, rd_borrowed = new_borrowed_blocks (unat n), rd_errors = 0, rd_running = True,
     rd_lent = [], rd_read = []\<rparr>"

text \<open>A block is tracked, handed over with the outcome \<open>keep\<close> and \<open>failed\<close>, and the index moves on.\<close>

definition consume_block :: "u32 \<Rightarrow> bool \<Rightarrow> bool \<Rightarrow> reader \<Rightarrow> reader" where
  "consume_block n keep failed r =
     (let physical = physical_index n (rd_index r) in
      r\<lparr>rd_borrowed := track_block physical (rd_borrowed r), rd_index := rd_index r + 1,
        rd_errors := rd_errors r + (if failed then 1 else 0), rd_running := keep,
        rd_lent := rd_lent r @ [physical], rd_read := rd_read r @ [physical]\<rparr>)"

definition after_poll :: "errno option \<Rightarrow> reader \<Rightarrow> reader" where
  "after_poll err r =
     (case err of
        None \<Rightarrow> r
      | Some e \<Rightarrow> (let (stop, counted) = handle_read_error e
          in r\<lparr>rd_running := \<not> stop, rd_errors := rd_errors r + (if counted then 1 else 0)\<rparr>))"

abbreviation reusable :: "u32 \<Rightarrow> reader \<Rightarrow> bool" where
  "reusable n r \<equiv> \<not> bb_borrowed (rd_borrowed r) ! physical_index n (rd_index r)"

inductive reader_step :: "u32 \<Rightarrow> reader \<Rightarrow> reader \<Rightarrow> bool" for n where
  reader_closed: "rd_running r \<Longrightarrow> reader_step n r (r\<lparr>rd_running := False\<rparr>)"
| reader_reuse: "rd_running r \<Longrightarrow> \<not> reusable n r \<Longrightarrow> receive_release (rd_borrowed r) = Some b \<Longrightarrow>
    reader_step n r (r\<lparr>rd_borrowed := b\<rparr>)"
| reader_wait: "rd_running r \<Longrightarrow> reusable n r \<Longrightarrow>
    next_block_turn False ring (rd_index r) (rd_borrowed r) = Some TurnWaitRelease \<Longrightarrow>
    receive_release (rd_borrowed r) = Some b \<Longrightarrow> reader_step n r (r\<lparr>rd_borrowed := b\<rparr>)"
| reader_poll: "rd_running r \<Longrightarrow> reusable n r \<Longrightarrow>
    next_block_turn False ring (rd_index r) (rd_borrowed r) = Some TurnPoll \<Longrightarrow> reader_step n r (after_poll err r)"
| reader_bad: "rd_running r \<Longrightarrow> reusable n r \<Longrightarrow>
    next_block_turn False ring (rd_index r) (rd_borrowed r) = Some (TurnError err) \<Longrightarrow>
    reader_step n r (r\<lparr>rd_running := False, rd_errors := rd_errors r + 1\<rparr>)"
| reader_block: "rd_running r \<Longrightarrow> reusable n r \<Longrightarrow>
    next_block_turn False ring (rd_index r) (rd_borrowed r) = Some (TurnBlock block) \<Longrightarrow>
    reader_step n r (consume_block n keep failed r)"
| parser_frees: "index \<in> set (rd_lent r) \<Longrightarrow> notify_release index (rd_borrowed r) = Some b \<Longrightarrow>
    reader_step n r (r\<lparr>rd_borrowed := b, rd_lent := remove1 index (rd_lent r)\<rparr>)"

inductive reader_reachable :: "u32 \<Rightarrow> reader \<Rightarrow> bool" for n where
  reader_init: "reader_reachable n (new_reader n)"
| reader_next: "reader_reachable n r \<Longrightarrow> reader_step n r r' \<Longrightarrow> reader_reachable n r'"

definition reader_inv :: "u32 \<Rightarrow> reader \<Rightarrow> bool" where
  "reader_inv n r \<longleftrightarrow> borrow_reachable (unat n) (rd_borrowed r, rd_lent r) \<and> rd_index r = word_of_nat (length (rd_read r)) \<and>
     rd_read r = map (\<lambda>k. k mod unat n) [0 ..< length (rd_read r)]"

lemma borrow_reachable_length: "borrow_reachable n s \<Longrightarrow> borrow_inv n s"
proof (induction rule: borrow_reachable.induct)
  case borrow_init
  then show ?case by (simp add: borrow_inv_def new_borrowed_blocks_def)
qed (rule borrow_inv_step)

lemma physical_cyclic:
  assumes "unat n dvd 2 ^ 32"
  shows "physical_index n (word_of_nat k) = k mod unat n" "physical_index n i < unat n"
proof -
  have "unat (word_of_nat k :: u32) = k mod 2 ^ 32" by (simp add: unat_of_nat take_bit_eq_mod)
  then show "physical_index n (word_of_nat k) = k mod unat n"
    using assms by (simp add: physical_index_def unat_mod_distrib mod_mod_cancel)
  have "0 < unat n" using assms by (metis dvd_0_left gr0I power_not_zero zero_neq_numeral)
  then show "physical_index n i < unat n" by (simp add: physical_index_def unat_mod_distrib)
qed

lemma reader_inv_step:
  assumes "reader_step n r r'" "reader_inv n r" "unat n dvd 2 ^ 32"
  shows "reader_inv n r'"
  using assms(1,2)
proof (induction rule: reader_step.induct)
  case (reader_reuse r b)
  then show ?case using borrow_next [OF _ receive] by (auto simp: reader_inv_def)
next
  case (reader_wait r ring b)
  then show ?case using borrow_next [OF _ receive] by (auto simp: reader_inv_def)
next
  case (reader_poll r ring err)
  then show ?case by (auto simp: reader_inv_def after_poll_def case_prod_beta Let_def split: option.split)
next
  case (reader_block r ring block keep failed)
  then have inv: "borrow_reachable (unat n) (rd_borrowed r, rd_lent r)" "rd_index r = word_of_nat (length (rd_read r))"
    "rd_read r = map (\<lambda>k. k mod unat n) [0 ..< length (rd_read r)]" by (simp_all add: reader_inv_def)
  let ?p = "physical_index n (rd_index r)"
  have "?p < length (bb_borrowed (rd_borrowed r))"
    using borrow_reachable_length [OF inv(1)] physical_cyclic(2) [OF assms(3)] by (simp add: borrow_inv_def)
  then have "borrow_reachable (unat n) (track_block ?p (rd_borrowed r), rd_lent r @ [?p])"
    using reader_block(2) by (intro borrow_next [OF inv(1) track]) auto
  moreover have "?p = length (rd_read r) mod unat n" unfolding inv(2) by (rule physical_cyclic(1) [OF assms(3)])
  ultimately show ?case using inv(2,3) by (simp add: reader_inv_def consume_block_def Let_def)
next
  case (parser_frees index r b)
  then show ?case using borrow_next [OF _ free] by (auto simp: reader_inv_def)
qed (simp_all add: reader_inv_def)

section \<open>The consumer of runs\<close>

datatype consumer_stage = Checking | Selecting | Ended

text \<open>\<open>cn_late\<close> counts the runs handled after \<open>done\<close> was closed.\<close>

record 'r consumer =
  cn_stage :: consumer_stage
  cn_done :: bool
  cn_runs :: "'r list"
  cn_handled :: "'r list"
  cn_released :: "'r list"
  cn_sent :: "'r list"
  cn_late :: nat

definition new_consumer :: "'r consumer" where
  "new_consumer = \<lparr>cn_stage = Checking, cn_done = False, cn_runs = [], cn_handled = [], cn_released = [], cn_sent = [], cn_late = 0\<rparr>"

text \<open>\<open>releaseQueuedPacketRuns\<close>, and the end.\<close>

definition release_queued_runs :: "'r consumer \<Rightarrow> 'r consumer" where
  "release_queued_runs c = c\<lparr>cn_released := cn_released c @ cn_runs c, cn_runs := [], cn_stage := Ended\<rparr>"

inductive consumer_step :: "'r consumer \<Rightarrow> 'r consumer \<Rightarrow> bool" where
  close_done: "consumer_step c (c\<lparr>cn_done := True\<rparr>)"
| send: "cn_stage c \<noteq> Ended \<Longrightarrow> consumer_step c (c\<lparr>cn_runs := cn_runs c @ [r], cn_sent := cn_sent c @ [r]\<rparr>)"
| check_done: "cn_stage c = Checking \<Longrightarrow> cn_done c \<Longrightarrow> consumer_step c (release_queued_runs c)"
| check_open: "cn_stage c = Checking \<Longrightarrow> \<not> cn_done c \<Longrightarrow> consumer_step c (c\<lparr>cn_stage := Selecting\<rparr>)"
| select_done: "cn_stage c = Selecting \<Longrightarrow> cn_done c \<Longrightarrow> consumer_step c (release_queued_runs c)"
| select_run: "cn_stage c = Selecting \<Longrightarrow> cn_runs c = r # rs \<Longrightarrow>
    consumer_step c (c\<lparr>cn_stage := Checking, cn_runs := rs, cn_handled := cn_handled c @ [r],
      cn_released := cn_released c @ [r], cn_late := cn_late c + (if cn_done c then 1 else 0)\<rparr>)"

inductive consumer_reachable :: "'r consumer \<Rightarrow> bool" where
  consumer_init: "consumer_reachable new_consumer"
| consumer_next: "consumer_reachable c \<Longrightarrow> consumer_step c c' \<Longrightarrow> consumer_reachable c'"

definition consumer_inv :: "'r consumer \<Rightarrow> bool" where
  "consumer_inv c \<longleftrightarrow> cn_sent c = cn_released c @ cn_runs c \<and> (cn_stage c = Ended \<longrightarrow> cn_runs c = [] \<and> cn_done c) \<and>
     (cn_stage c \<noteq> Ended \<longrightarrow> cn_handled c = cn_released c) \<and> take (length (cn_handled c)) (cn_released c) = cn_handled c \<and>
     cn_late c \<le> 1 \<and> (cn_late c = 1 \<longrightarrow> cn_done c \<and> cn_stage c \<noteq> Selecting)"

lemma consumer_inv_step: "consumer_step c c' \<Longrightarrow> consumer_inv c \<Longrightarrow> consumer_inv c'"
  by (induction rule: consumer_step.induct) (simp_all add: consumer_inv_def release_queued_runs_def)

section \<open>Properties\<close>

text \<open>
  C19: a ring is read in its physical order without skipping or repeating a block, also when the 32-bit block index
  wraps around, provided that the number of blocks divides the range of the index, as the default ring of eight
  does; and no block is read while the parser still holds it.
\<close>

theorem blocks_read_in_ring_order:
  assumes "reader_reachable n r" "unat n dvd 2 ^ 32"
  shows "rd_read r = map (\<lambda>k. k mod unat n) [0 ..< length (rd_read r)] \<and> distinct (rd_lent r) \<and>
    list_all (\<lambda>i. i < unat n \<and> bb_borrowed (rd_borrowed r) ! i) (rd_lent r)"
proof -
  have inv: "reader_inv n r" using assms(1)
  proof induction
    case reader_init
    show ?case using borrow_init [of "unat n"] by (simp add: reader_inv_def new_reader_def)
  next
    case (reader_next r r')
    then show ?case using reader_inv_step assms(2) by blast
  qed
  then have "borrow_inv (unat n) (rd_borrowed r, rd_lent r)"
    using borrow_reachable_length by (auto simp: reader_inv_def)
  then show ?thesis using inv by (auto simp: reader_inv_def borrow_inv_def list_all_iff)
qed

theorem blocks_read_in_ring_order_witness:
  "\<exists>r. reader_reachable 8 r \<and> distinct (rd_lent r) \<and> rd_read r = map (\<lambda>k. k mod 8) [0 ..< length (rd_read r)]"
  using blocks_read_in_ring_order [OF reader_init, of 8] reader_init [of 8] by auto

text \<open>
  C20: every run sent to the consumer is released exactly once and in order, whether it was handled or thrown away at
  the end; when the consumer has ended nothing is left in the channel, and after \<open>done\<close> is closed at most one
  more run is handled.
\<close>

theorem consumer_releases_all:
  assumes "consumer_reachable c"
  shows "cn_released c @ cn_runs c = cn_sent c \<and> cn_late c \<le> 1 \<and> take (length (cn_handled c)) (cn_released c) = cn_handled c \<and>
    (if cn_stage c = Ended then cn_runs c = [] \<and> cn_done c else cn_handled c = cn_released c)"
proof -
  have "consumer_inv c" using assms
  proof induction
    case consumer_init
    show ?case by (simp add: consumer_inv_def new_consumer_def)
  qed (rule consumer_inv_step)
  then show ?thesis by (auto simp: consumer_inv_def)
qed

theorem consumer_releases_all_witness:
  "cn_released (release_queued_runs (new_consumer\<lparr>cn_runs := [1::nat, 2], cn_sent := [1, 2], cn_done := True\<rparr>)) = [1, 2]"
proof -
  let ?c1 = "new_consumer\<lparr>cn_runs := [1::nat], cn_sent := [1]\<rparr>"
  let ?c2 = "new_consumer\<lparr>cn_runs := [1::nat, 2], cn_sent := [1, 2]\<rparr>"
  have 1: "consumer_reachable ?c1" using consumer_next [OF consumer_init send [of new_consumer "1::nat"]] by (simp add: new_consumer_def)
  have 2: "consumer_reachable ?c2" using consumer_next [OF 1 send [of ?c1 2]] by (simp add: new_consumer_def)
  have 3: "consumer_reachable (?c2\<lparr>cn_done := True\<rparr>)" using 2 close_done by (rule consumer_next)
  have "consumer_reachable (release_queued_runs (?c2\<lparr>cn_done := True\<rparr>))"
    by (rule consumer_next [OF 3 check_done]) (simp_all add: new_consumer_def)
  from consumer_releases_all [OF this] show ?thesis by (simp add: release_queued_runs_def)
qed

end
