(* ===== verification/Process_Entry.thy ===== *)
theory Process_Entry
  imports Capture_Setup App_Config
begin

text \<open>
  The process around the capture: the GeoIP reader's handles (\<open>internal/geoip/geoip.go\<close>), the configuration files
  (\<open>LoadConfig\<close>, \<open>LoadSessionsLimits\<close>), the server's life (\<open>internal/server/server.go\<close>), \<open>main\<close>
  (\<open>cmd/main.go\<close>), the log level (\<open>pkg/log\<close>) and the telemetry identity (\<open>internal/telemetry/id.go\<close>).
  Reading files and the environment, YAML, the MaxMind library and signals are parameters; the HTTP listener, whose
  failure ends the process at once, and the sending of beacons are left out.
\<close>

section \<open>The GeoIP reader\<close>

text \<open>An open database is a handle; the result of opening one, if it succeeds, is an argument.\<close>

record geo_reader =
  gr_db :: "nat option"
  gr_path :: string

datatype geo_call = OpenDb "nat option" | CloseDb nat

definition geo_new :: "string \<Rightarrow> nat option \<Rightarrow> geo_call list \<times> geo_reader" where
  "geo_new path opened =
     (if path = [] then ([], \<lparr>gr_db = None, gr_path = []\<rparr>)
      else ([OpenDb opened], \<lparr>gr_db = opened, gr_path = path\<rparr>))"

text \<open>Whether an error is returned, the calls, and the reader.\<close>

definition geo_reload :: "nat option \<Rightarrow> geo_reader \<Rightarrow> bool \<times> geo_call list \<times> geo_reader" where
  "geo_reload opened r =
     (if gr_path r = [] then (False, [], r)
      else case opened of
        None \<Rightarrow> (True, [OpenDb None], r)
      | Some db \<Rightarrow>
          (False, [OpenDb (Some db)] @ (case gr_db r of None \<Rightarrow> [] | Some old \<Rightarrow> [CloseDb old]), r\<lparr>gr_db := Some db\<rparr>))"

definition geo_close :: "geo_reader \<Rightarrow> geo_call list \<times> geo_reader" where
  "geo_close r = (case gr_db r of None \<Rightarrow> ([], r) | Some db \<Rightarrow> ([CloseDb db], r\<lparr>gr_db := None\<rparr>))"

definition geo_lookup :: "(nat \<Rightarrow> ipv4 \<Rightarrow> string option) \<Rightarrow> geo_reader \<Rightarrow> ipv4 \<Rightarrow> string \<times> bool" where
  "geo_lookup databases r ip = geoip_lookup (map_option databases (gr_db r)) ip"

fun reload_all :: "nat option list \<Rightarrow> geo_reader \<Rightarrow> geo_call list \<times> geo_reader" where
  "reload_all [] r = ([], r)"
| "reload_all (opened # rest) r =
     (let (failed, calls, r1) = geo_reload opened r; (calls', r2) = reload_all rest r1 in (calls @ calls', r2))"

section \<open>Configuration files\<close>

datatype 'e load_error = ReadFailed | ParseFailed | Invalid 'e

definition load_file :: "(string \<Rightarrow> string option) \<Rightarrow> (string \<Rightarrow> 'd option) \<Rightarrow> string \<Rightarrow> 'e load_error + 'd" where
  "load_file read_file parse path =
     (case read_file path of
        None \<Rightarrow> Inl ReadFailed
      | Some data \<Rightarrow> (case parse data of None \<Rightarrow> Inl ParseFailed | Some cfg \<Rightarrow> Inr cfg))"

definition load_carriers ::
  "(string \<Rightarrow> string option) \<Rightarrow> (string \<Rightarrow> carrier list option) \<Rightarrow> string \<Rightarrow> resolver_error load_error + cidr_entry list" where
  "load_carriers read_file parse path =
     (case load_file read_file parse path of
        Inl err \<Rightarrow> Inl err
      | Inr cs \<Rightarrow> (case new_resolver cs of Inl err \<Rightarrow> Inl (Invalid err) | Inr r \<Rightarrow> Inr r))"

definition load_user_agents ::
  "(string \<Rightarrow> string option) \<Rightarrow> (string \<Rightarrow> ua_pattern list option) \<Rightarrow> (string \<Rightarrow> (string \<Rightarrow> bool) option) \<Rightarrow> string
    \<Rightarrow> classifier_error load_error + ((string \<Rightarrow> bool) \<times> string) list" where
  "load_user_agents read_file parse compile path =
     (case load_file read_file parse path of
        Inl err \<Rightarrow> Inl err
      | Inr ps \<Rightarrow> (case new_classifier compile ps of Inl err \<Rightarrow> Inl (Invalid err) | Inr c \<Rightarrow> Inr c))"

text \<open>The last limit of a carrier counts.\<close>

definition load_sessions_limits ::
  "(string \<Rightarrow> string option) \<Rightarrow> (string \<Rightarrow> (string \<times> int) list option) \<Rightarrow> string
    \<Rightarrow> unit load_error + (string, int) gomap" where
  "load_sessions_limits read_file parse path =
     (case load_file read_file parse path of
        Inl err \<Rightarrow> Inl err
      | Inr sls \<Rightarrow> Inr (foldl (\<lambda>m (carrier, limit). mput carrier limit m) [] sls))"

section \<open>Log level\<close>

datatype log_level = ErrorLevel | InfoLevel | DebugLevel

definition verbosity :: "string \<Rightarrow> log_level" where
  "verbosity l =
     (let level = go_to_lower l
      in if level = ''error'' then ErrorLevel else if level = ''info'' then InfoLevel
         else if level = ''debug'' then DebugLevel else DebugLevel)"

section \<open>Telemetry identity\<close>

definition user_message :: string where
  "user_message = CHR 10 # ''This is a randomly generated anonymous ID used for telemetry.'' @ [CHR 10] @
     ''It is NOT based on any personally identifiable information.'' @ [CHR 10] @
     ''To reset it, delete this file. To disable telemetry, set SIP_EXPORTER_TELEMETRY=false.'' @ [CHR 10]"

datatype id_call = MkdirAll string | WriteId string string

text \<open>\<open>uuid_ok\<close> is \<open>uuid.Parse\<close>, \<open>fresh\<close> a new identity, \<open>dir_of\<close> is \<open>filepath.Dir\<close>.\<close>

definition read_existing_id :: "(string \<Rightarrow> bool) \<Rightarrow> string option \<Rightarrow> string option" where
  "read_existing_id uuid_ok content =
     (case content of
        None \<Rightarrow> None
      | Some data \<Rightarrow>
          let i = trim_space (hd (go_split_n data [CHR 10] 2)) in if i = [] \<or> \<not> uuid_ok i then None else Some i)"

definition get_or_create_id ::
  "(string \<Rightarrow> bool) \<Rightarrow> (string \<Rightarrow> string) \<Rightarrow> string \<Rightarrow> string option \<Rightarrow> string \<Rightarrow> bool \<Rightarrow> string \<times> id_call list" where
  "get_or_create_id uuid_ok dir_of path content fresh mkdir_ok =
     (if path = [] then (fresh, [])
      else case read_existing_id uuid_ok content of
        Some i \<Rightarrow> (i, [])
      | None \<Rightarrow>
          (fresh, [MkdirAll (dir_of path)] @
            (if mkdir_ok then [WriteId path (fresh @ [CHR 10] @ user_message)] else [])))"

definition beacon_interval :: "duration \<Rightarrow> duration" where
  "beacon_interval interval = (if interval = 0 then 24 * 3600 * second else interval)"

text \<open>The beacons of a run: one at the start and one for each tick, at the given instants, with the whole seconds the process is up.\<close>

definition telemetry_run :: "bool \<Rightarrow> time \<Rightarrow> time list \<Rightarrow> int list" where
  "telemetry_run enabled start_time instants = (if enabled then map (\<lambda>t. go_div (time_sub t start_time) second) instants else [])"

section \<open>Server and main\<close>

record app =
  ap_log_level :: string
  ap_port :: string
  ap_interfaces :: string
  ap_bpf_path :: string
  ap_sip_ports :: string
  ap_carriers_path :: string
  ap_user_agents_path :: string
  ap_ignore_outgoing :: bool
  ap_rtp_stream_ttl :: duration
  ap_telemetry :: bool
  ap_telemetry_url :: string
  ap_telemetry_id_file :: string
  ap_geoip_path :: string
  ap_local_country :: string
  ap_host_labels :: bool
  ap_limits_path :: string
  ap_scan_threshold :: int
  ap_scan_window :: duration
  ap_burst_threshold :: int
  ap_burst_window :: duration
  ap_fas_threshold :: duration

datatype os_signal = SigHup | SigInt | SigTerm

record process_env =
  pe_config :: "app option"
  pe_logger_ok :: bool
  pe_read_file :: "string \<Rightarrow> string option"
  pe_carriers :: "string \<Rightarrow> carrier list option"
  pe_user_agents :: "string \<Rightarrow> ua_pattern list option"
  pe_limits :: "string \<Rightarrow> (string \<times> int) list option"
  pe_compile :: "string \<Rightarrow> (string \<Rightarrow> bool) option"
  pe_geo_open :: "nat option"
  pe_is_root :: bool
  pe_memlock_ok :: bool
  pe_ifaces :: "nat \<Rightarrow> iface_env"
  pe_signals :: "(os_signal \<times> nat option) list"
  pe_shutdown_ok :: bool

datatype start_error =
    ConfigFailed | LoggerFailed | CarriersFailed "resolver_error load_error" | UserAgentsFailed "classifier_error load_error"
  | LimitsFailed "unit load_error"

datatype run_error = InterfacesInvalid | PortsInvalid config_error | InitializeFailed capture_error | ShutdownFailed

record deps =
  dp_resolver :: "cidr_entry list option"
  dp_classifier :: "((string \<Rightarrow> bool) \<times> string) list option"
  dp_geo :: geo_reader
  dp_limits :: "(string, int) gomap"

text \<open>\<open>main\<close> up to the server: every failure ends the process.\<close>

definition prepare :: "process_env \<Rightarrow> start_error + (app \<times> deps \<times> geo_call list)" where
  "prepare env =
     (case pe_config env of
        None \<Rightarrow> Inl ConfigFailed
      | Some cfg \<Rightarrow>
          if \<not> pe_logger_ok env then Inl LoggerFailed
          else case (if ap_carriers_path cfg = [] then Inr None
              else map_sum id Some (load_carriers (pe_read_file env) (pe_carriers env) (ap_carriers_path cfg))) of
            Inl err \<Rightarrow> Inl (CarriersFailed err)
          | Inr resolver \<Rightarrow>
              (case (if ap_user_agents_path cfg = [] then Inr None
                  else map_sum id Some (load_user_agents (pe_read_file env) (pe_user_agents env) (pe_compile env)
                    (ap_user_agents_path cfg))) of
                 Inl err \<Rightarrow> Inl (UserAgentsFailed err)
               | Inr classifier \<Rightarrow>
                   (let (calls, geo) = geo_new (ap_geoip_path cfg) (pe_geo_open env) in
                    case (if ap_limits_path cfg = [] then Inr []
                        else load_sessions_limits (pe_read_file env) (pe_limits env) (ap_limits_path cfg)) of
                      Inl err \<Rightarrow> Inl (LimitsFailed err)
                    | Inr limits \<Rightarrow> Inr (cfg, \<lparr>dp_resolver = resolver, dp_classifier = classifier, dp_geo = geo,
                        dp_limits = limits\<rparr>, calls))))"

text \<open>\<open>NewServer\<close>: the metrics with their limits and the exporter.\<close>

definition new_server :: "'m list \<Rightarrow> app \<Rightarrow> deps \<Rightarrow> metrics \<times> 'm exporter" where
  "new_server maps cfg d =
     (if dp_limits d = [] then new_metrics else new_metrics\<lparr>mt_limits := dp_limits d\<rparr>,
      new_exporter maps (ap_scan_threshold cfg) (ap_scan_window cfg) (ap_burst_threshold cfg) (ap_burst_window cfg)
        (ap_fas_threshold cfg))"

definition exporter_config_of ::
  "(nat \<Rightarrow> ipv4 \<Rightarrow> string option) \<Rightarrow> (string \<Rightarrow> real option) \<Rightarrow> 'm bpf_map \<Rightarrow> app \<Rightarrow> deps \<Rightarrow> 'm exporter_config" where
  "exporter_config_of databases parse_float bpf cfg d =
     \<lparr>xc_carriers = dp_resolver d, xc_ua = dp_classifier d, xc_geoip = Some (map_option databases (gr_db (dp_geo d))),
      xc_local_country = ap_local_country cfg, xc_host_labels = ap_host_labels cfg, xc_parse_float = parse_float, xc_bpf = bpf\<rparr>"

text \<open>
  The loop over the signals: \<open>SIGHUP\<close> reloads the database, any other signal ends it.  \<open>None\<close>: no signal ends it,
  the server still serves.
\<close>

fun serve_signals :: "(os_signal \<times> nat option) list \<Rightarrow> nat option list option" where
  "serve_signals [] = None"
| "serve_signals ((s, opened) # rest) = (if s = SigHup then map_option ((#) opened) (serve_signals rest) else Some [])"

definition health_status :: "capture \<Rightarrow> nat" where
  "health_status c = (if cp_alive c then 200 else 503)"

text \<open>\<open>Run\<close>: its error, the calls of the capture and of the GeoIP reader, and that reader.\<close>

definition server_run ::
  "process_env \<Rightarrow> app \<Rightarrow> geo_reader \<Rightarrow> 'm exporter
    \<Rightarrow> (run_error option \<times> (nat \<times> capture_call) list \<times> geo_call list \<times> geo_reader) option" where
  "server_run env cfg geo e =
     (case parsed_interfaces (ap_interfaces cfg) of
        None \<Rightarrow> Some (Some InterfacesInvalid, [], [], geo)
      | Some ifaces \<Rightarrow>
          (case parsed_sip_ports (ap_sip_ports cfg) (length ifaces) of
             Inl err \<Rightarrow> Some (Some (PortsInvalid err), [], [], geo)
           | Inr ports \<Rightarrow>
               (case initialize (pe_is_root env) (pe_memlock_ok env) (pe_ifaces env)
                   \<lparr>ic_interfaces = ifaces, ic_sip_ports = ports, ic_ignore_outgoing = ap_ignore_outgoing cfg,
                    ic_rtp_stream_ttl = ap_rtp_stream_ttl cfg\<rparr> e new_capture of
                  None \<Rightarrow> None
                | Some (Some err, trace, _, _) \<Rightarrow> Some (Some (InitializeFailed err), trace, [], geo)
                | Some (None, trace, _, c) \<Rightarrow>
                    map_option (\<lambda>reloads. (let (calls, geo') = reload_all reloads geo in
                        (if pe_shutdown_ok env then None else Some ShutdownFailed,
                         trace @ fst (close_capture (pe_ifaces env) c), calls, geo')))
                      (serve_signals (pe_signals env)))))"

datatype process_exit = FatalStart start_error | FatalRun run_error | Clean

text \<open>\<open>main\<close>: how the process ends and the calls it has made.\<close>

definition main_process :: "'m list \<Rightarrow> process_env \<Rightarrow> (process_exit \<times> (nat \<times> capture_call) list \<times> geo_call list) option" where
  "main_process maps env =
     (case prepare env of
        Inl err \<Rightarrow> Some (FatalStart err, [], [])
      | Inr (cfg, d, calls) \<Rightarrow>
          map_option (\<lambda>(err, trace, reloads, geo).
              (case err of None \<Rightarrow> Clean | Some x \<Rightarrow> FatalRun x, trace, calls @ reloads @ fst (geo_close geo)))
            (server_run env cfg (dp_geo d) (snd (new_server maps cfg d))))"

section \<open>What is open\<close>

fun opened_handles :: "geo_call list \<Rightarrow> nat list" where
  "opened_handles [] = []"
| "opened_handles (OpenDb (Some db) # cs) = db # opened_handles cs"
| "opened_handles (_ # cs) = opened_handles cs"

fun closed_handles :: "geo_call list \<Rightarrow> nat list" where
  "closed_handles [] = []"
| "closed_handles (CloseDb db # cs) = db # closed_handles cs"
| "closed_handles (_ # cs) = closed_handles cs"

definition current_handle :: "geo_reader \<Rightarrow> nat list" where
  "current_handle r = (case gr_db r of None \<Rightarrow> [] | Some db \<Rightarrow> [db])"

lemma handles_append [simp]:
  "opened_handles (a @ b) = opened_handles a @ opened_handles b" "closed_handles (a @ b) = closed_handles a @ closed_handles b"
proof -
  show "opened_handles (a @ b) = opened_handles a @ opened_handles b"
    by (induction a rule: opened_handles.induct) auto
  show "closed_handles (a @ b) = closed_handles a @ closed_handles b"
    by (induction a rule: closed_handles.induct) auto
qed

lemma reload_handles:
  "reload_all opens r = (calls, r') \<Longrightarrow>
    current_handle r @ opened_handles calls = closed_handles calls @ current_handle r'"
proof (induction opens r arbitrary: calls r' rule: reload_all.induct)
  case (2 opened rest r)
  obtain failed c1 r1 c2 where step: "geo_reload opened r = (failed, c1, r1)" "reload_all rest r1 = (c2, r')" "calls = c1 @ c2"
    using 2(2) by (auto simp: case_prod_beta Let_def prod_eq_iff)
  have "current_handle r @ opened_handles c1 = closed_handles c1 @ current_handle r1"
    using step(1) by (auto simp: geo_reload_def current_handle_def split: if_splits option.splits)
  moreover have "current_handle r1 @ opened_handles c2 = closed_handles c2 @ current_handle r'"
    using 2(1) step by fastforce
  ultimately show ?case by (simp add: step(3)) (metis append.assoc)
qed simp

lemma server_run_balance:
  assumes "server_run env cfg geo e = Some (err, trace, calls, geo')" "\<forall>i. ie_memory (pe_ifaces env i) 0x800000 \<noteq> []"
  shows "holdings (pe_ifaces env i) (calls_of i trace) {} = Some {} \<and>
    current_handle geo @ opened_handles calls = closed_handles calls @ current_handle geo'"
proof -
  consider (none) "trace = []" "calls = []" "geo' = geo"
    | (init) cfg' c' err' e' where "initialize (pe_is_root env) (pe_memlock_ok env) (pe_ifaces env) cfg' e new_capture = Some (Some err', trace, e', c')"
        "calls = []" "geo' = geo"
    | (served) cfg' trace' e' c' reloads where
        "initialize (pe_is_root env) (pe_memlock_ok env) (pe_ifaces env) cfg' e new_capture = Some (None, trace', e', c')"
        "trace = trace' @ fst (close_capture (pe_ifaces env) c')" "reload_all reloads geo = (calls, geo')"
    using assms(1) unfolding server_run_def
    by (auto split: option.splits sum.splits prod.splits simp: Let_def)
  then show ?thesis
  proof cases
    case none
    then show ?thesis by simp
  next
    case init
    then show ?thesis using initialize_balance(1) [OF init(1) assms(2), of i] by simp
  next
    case served
    then show ?thesis using initialize_balance(2) [OF served(1) assms(2), of i] reload_handles [OF served(3)] by simp
  qed
qed

lemma serve_signals_ends: "list_ex (\<lambda>(s, opened). s \<noteq> SigHup) signals \<Longrightarrow> serve_signals signals \<noteq> None"
  by (induction signals rule: serve_signals.induct) auto

lemma server_run_returns:
  assumes "\<forall>i. list_ex (\<lambda>r. r \<noteq> None) (ie_reads (pe_ifaces env i))" "list_ex (\<lambda>(s, opened). s \<noteq> SigHup) (pe_signals env)"
  shows "server_run env cfg geo e \<noteq> None"
proof (cases "parsed_interfaces (ap_interfaces cfg)")
  case (Some ifaces)
  show ?thesis
  proof (cases "parsed_sip_ports (ap_sip_ports cfg) (length ifaces)")
    case (Inr ports)
    let ?ic = "\<lparr>ic_interfaces = ifaces, ic_sip_ports = ports, ic_ignore_outgoing = ap_ignore_outgoing cfg,
      ic_rtp_stream_ttl = ap_rtp_stream_ttl cfg\<rparr>"
    have "length ports = length ifaces" using Inr by (rule parsed_sip_ports_length)
    then have "initialize (pe_is_root env) (pe_memlock_ok env) (pe_ifaces env) ?ic e new_capture \<noteq> None"
      using assms(1) by (intro initialize_returns) simp_all
    then obtain err trace e' c' where "initialize (pe_is_root env) (pe_memlock_ok env) (pe_ifaces env) ?ic e new_capture = Some (err, trace, e', c')"
      by (metis option.exhaust prod_cases4)
    then show ?thesis using Some Inr serve_signals_ends [OF assms(2)] by (cases err) (simp_all add: server_run_def)
  qed (simp add: server_run_def Some)
qed (simp add: server_run_def)

section \<open>Properties\<close>


definition sample_process :: process_env where
  "sample_process = \<lparr>pe_config = Some \<lparr>ap_log_level = ''info'', ap_port = ''10047'', ap_interfaces = ''eth0'',
       ap_bpf_path = ''sip.o'', ap_sip_ports = ''5060'',
       ap_carriers_path = [], ap_user_agents_path = [], ap_ignore_outgoing = False, ap_rtp_stream_ttl = second,
       ap_telemetry = False, ap_telemetry_url = [], ap_telemetry_id_file = [], ap_geoip_path = ''db'',
       ap_local_country = [], ap_host_labels = False, ap_limits_path = [], ap_scan_threshold = 0, ap_scan_window = 0, ap_burst_threshold = 0, ap_burst_window = 0, ap_fas_threshold = 0\<rparr>,
     pe_logger_ok = True, pe_read_file = (\<lambda>p. None), pe_carriers = (\<lambda>s. None), pe_user_agents = (\<lambda>s. None),
     pe_limits = (\<lambda>s. None), pe_compile = (\<lambda>s. None), pe_geo_open = Some 1, pe_is_root = True, pe_memlock_ok = True,
     pe_ifaces = (\<lambda>i. sample_env), pe_signals = [(SigHup, Some 2), (SigTerm, None)], pe_shutdown_ok = True\<rparr>"


text \<open>
  the telemetry identity survives a restart: what a start writes to its file is the identity the next start reads
  back, for any identity that \<open>uuid.Parse\<close> accepts and that holds no white space at its ends and no line break.
\<close>

theorem telemetry_id_stable:
  assumes "path \<noteq> []" "uuid_ok fresh" "fresh \<noteq> []" "list_all visible fresh"
    and "get_or_create_id uuid_ok dir_of path content fresh True = (i, [MkdirAll dir, WriteId file written])"
  shows "get_or_create_id uuid_ok dir_of path (Some written) fresh' mkdir_ok = (i, []) \<and> i = fresh \<and> file = path"
proof -
  have w: "written = fresh @ [CHR 10] @ user_message" "i = fresh" "file = path"
    using assms by (auto simp: get_or_create_id_def split: option.splits)
  have "CHR 10 \<notin> set fresh" using assms(4) by (auto simp: list_all_iff visible_def)
  then have "index_sub [CHR 10] (fresh @ [CHR 10] @ rest) = Some (length fresh)" for rest
    by (induction fresh) (auto simp: has_prefix_def)
  then have "hd (go_split_n written [CHR 10] 2) = fresh" by (simp add: w(1) go_split_n_def)
  moreover have "trim_space fresh = fresh"
    using assms(3,4) by (intro trim_space_visible) (auto simp: list_all_iff)
  ultimately show ?thesis using assms(1-3) w by (simp add: get_or_create_id_def read_existing_id_def)
qed

theorem telemetry_id_stable_witness:
  "get_or_create_id (\<lambda>i. length i = 4) id ''f'' (Some (''ab12'' @ [CHR 10] @ user_message)) ''zz99'' True = (''ab12'', [])"
proof -
  have "get_or_create_id (\<lambda>i. length i = 4) id ''f'' None ''ab12'' True =
      (''ab12'', [MkdirAll ''f'', WriteId ''f'' (''ab12'' @ [CHR 10] @ user_message)])"
    by (simp add: get_or_create_id_def read_existing_id_def)
  from telemetry_id_stable [OF _ _ _ _ this, of "''zz99''" True] show ?thesis by (simp add: visible_def)
qed

end
