(* ===== verification/Spec2Isabelle.thy ===== *)
theory Spec2Isabelle
  imports Rtp_Packet Rtcp_Packet Rtp_Stream Mos_Model Dialog_Store Metric_Events Fraud_Detect
    Go_Text Go_Bytes Media_Tracker Tracker_Registry Tracker_Invariant Sip_Message
    Sdp_Parser Endpoint_Filter Call_Trackers E164_Table Label_Sources Vq_Report App_Config
    Sip_Exporter Packet_Path Frame_Properties Media_Balance Exporter_Invariant Exporter_Properties Packet_Ring Batch_Queue Block_Ownership Ring_Pipeline
    Metric_Snapshots Metric_Properties Gauge_Properties Sip_Print E164_Generator
    Capture_Setup Capture_Workers Process_Entry
begin

text \<open>
  A verification library for the SIP exporter (\<open>src/\<close>, Go): a passive monitor that captures SIP, RTP and RTCP
  packets from \<open>AF_PACKET\<close> rings behind an eBPF filter, follows calls, media streams and registrations, and turns
  them into Prometheus metrics.

  \<^bold>\<open>The program and its theories.\<close>  A packet goes through the parts in this order.

  \<^item> \<open>cmd/main.go\<close>, \<open>internal/server\<close>, \<open>internal/config\<close>, \<open>internal/geoip/geoip.go\<close>, \<open>LoadConfig\<close>, \<open>LoadSessionsLimits\<close>,
    \<open>pkg/log\<close>, \<open>internal/telemetry\<close>: \<open>App_Config\<close> (interfaces and ports), \<open>Process_Entry\<close> (the rest).
  \<^item> \<open>Initialize\<close>, \<open>Close\<close> and the goroutines of \<open>internal/exporter/exporter.go\<close>: \<open>Capture_Setup\<close>, \<open>Capture_Workers\<close>.
  \<^item> \<open>internal/exporter/packet_ring.go\<close>: \<open>Packet_Ring\<close> (geometry, blocks, frames, cutting into runs), \<open>Block_Ownership\<close>
    (references, borrowed blocks, poll errors, setting up and closing a ring), \<open>Batch_Queue\<close> (permits, tickets, waking);
    \<open>Ring_Pipeline\<close> puts the way of a block together.
  \<^item> \<open>parseRawPacket\<close> with the frame parser and the RTP and RTCP handlers, and the periodic update: \<open>Packet_Path\<close>;
    its frames: \<open>Frame_Properties\<close>.
  \<^item> \<open>internal/rtp\<close>, \<open>internal/rtcp\<close>: \<open>Rtp_Packet\<close>, \<open>Rtcp_Packet\<close>.  \<open>internal/mediatracker\<close>: \<open>Rtp_Stream\<close> (one stream),
    \<open>Mos_Model\<close> (E-model), \<open>Media_Tracker\<close> (all operations), \<open>Tracker_Registry\<close> and \<open>Tracker_Invariant\<close>.
  \<^item> SIP parsing in \<open>exporter.go\<close>, \<open>sipuri.go\<close>, \<open>dto\<close>: \<open>Sip_Message\<close>, against printed messages: \<open>Sip_Print\<close>;
    \<open>internal/sdp\<close>: \<open>Sdp_Parser\<close>; \<open>internal/vq\<close>: \<open>Vq_Report\<close>.
  \<^item> \<open>handleMessage\<close> and everything below it: \<open>Sip_Exporter\<close>, over \<open>Call_Trackers\<close> (the maps of calls, transactions and
    registrations), \<open>Dialog_Store\<close> (\<open>internal/service/dialogs.go\<close>), \<open>Fraud_Detect\<close> (\<open>fraud.go\<close>), \<open>Endpoint_Filter\<close> (reference
    counts of the kernel maps), \<open>Label_Sources\<close> (\<open>carriers\<close>, \<open>ua\<close>, GeoIP lookup, \<open>e164.go\<close>) with \<open>E164_Table\<close> and its
    generator \<open>E164_Generator\<close> (\<open>gen_e164.go\<close>).
  \<^item> \<open>internal/service/metrics.go\<close>, \<open>self_metrics.go\<close>: \<open>Metric_Events\<close> (the \<open>Metricser\<close> interface as data),
    \<open>Metric_Families\<close> (names, labels, buckets), \<open>Metric_Ops\<close> (what each method does), \<open>Metric_Properties\<close> and
    \<open>Metric_Snapshots\<close>; with the exporter: \<open>Gauge_Properties\<close>.

  \<open>Prelude\<close> holds association lists as Go maps, checked slices, durations and byte orders, \<open>Go_Text\<close> and \<open>Go_Bytes\<close> the
  functions of \<open>strconv\<close>, \<open>net\<close>, \<open>strings\<close> and \<open>bytes\<close> that the source uses.  Definitions carry the source's
  names in lower case; record fields carry a two-letter prefix of their type.

  \<^bold>\<open>How the state is modelled.\<close>  The record \<open>exporter\<close> is the struct of the same name with the state of its parts;
  metrics are the list of events emitted, which \<open>metric_run\<close> turns into calls on collectors.  Configuration and
  outside services are in \<open>exporter_config\<close>.  A critical section is one step; the queue, the references of a block,
  the reader and the consumer, which interleave inside an operation, are step relations.  A compare-and-swap loop is
  one step, as is a turn of the periodic update.  A panic (slice or index out of range, close of a closed channel) is
  \<open>None\<close>, an error a value of a sum.  Sequence numbers, ports, SSRCs, counters of fixed width and ring offsets are words;
  durations and times are integers of nanoseconds, with the 64-bit wrap written out where the code multiplies;
  \<open>float64\<close> is modelled by reals.  A handler reads the clock once.  The order of a Go map is that of an association
  list; where the code ranges over a map the properties do not depend on it.

  \<^bold>\<open>What the lemmas show.\<close>  Each theory ends in its properties, numbered \<open>C1\<close> to \<open>C40\<close> in order of importance.
  Across components: kernel filter entries equal what calls hold and recover after failed writes
  (\<open>Media_Balance\<close>, \<open>Exporter_Invariant\<close>, \<open>Exporter_Properties\<close>), sessions are accounted once, after an update the gauges show
  what the stores hold (\<open>Gauge_Properties\<close>), no frame makes the handler
  panic, a block is handled frame by frame in order, and the process gives back all it opened.  Per component:
  well-formedness invariants kept by every operation (tracker, queue, borrowed blocks, streams, gauges), refinement
  (dialog store against a map, stream counters against unbounded sequence numbers), equivalence with reference
  readings (SDP by sections, runs as maximal runs, detectors as counts in a window, leading-digit patterns), round
  trips (frames, ring blocks, RTCP, SIP messages), error paths and bounds.  The locales are the interfaces that clients use: they are
  stated where the client is and interpreted on the model's own operations.

  \<^bold>\<open>Fuel.\<close>  \<open>go_split\<close> runs once per byte of its text, and no cut is made without consuming one; \<open>ipv6_loop\<close> has the eight
  turns the code's array has; \<open>expand_pattern\<close> has four calls per token and four more, and \<open>parser_total\<close> shows that they
  always suffice.  The other loops recurse on what they consume.

  \<^bold>\<open>Parameters.\<close>  The eBPF map (\<open>bpf_map\<close>: any result of update and delete), \<open>regexp.Compile\<close>, \<open>strconv.ParseFloat\<close>, the
  MaxMind library, YAML decoding and file reading, \<open>uuid.Parse\<close>, system calls and the memory of a ring.  Native byte
  order is little-endian.  Prometheus collectors are listed calls.

  \<^bold>\<open>Not modelled.\<close>  The HTTP listener and the beacon request, the zap logger and log lines, help texts of metrics, the
  Prometheus registry and the build-info gauge, reading XML and printing Go in the generator, the C program of
  the filter.  Of \<open>extractTag\<close> the panic on a tag beyond the slice's length is a value; that Go allows reslicing up to
  the capacity is not used.
\<close>

end
